(* ===== verification/Py_Prelude.thy ===== *)
theory Py_Prelude
  imports Complex_Main "HOL-Library.AList"
begin

text \<open>
  Shared vocabulary of the development: the Python exceptions the code can raise, the JSON
  values it exchanges, dictionaries as association lists in insertion order, Python indexing and
  slicing, and the generic lemmas about them that the component theories use.
  Python integers are \<open>int\<close>, Python floats are \<open>rat\<close> (exact arithmetic; rounding, infinities and
  NaN are not modelled), Python strings are \<open>string\<close>.
\<close>

section \<open>Exceptions and results\<close>

datatype exn =
    KeyError string
  | IndexError
  | ValueError string
  | TypeError string
  | PermissionError string
  | AttributeError string
  | ClientError int

type_synonym 'a result = "exn + 'a"

section \<open>JSON values\<close>

datatype json =
    JNull
  | JBool bool
  | JInt int
  | JFloat rat
  | JStr string
  | JArr "json list"
  | JObj "(string \<times> json) list"

text \<open>
  A Python dictionary is an association list with distinct keys, in insertion order, as
  Python iterates it: \<open>d[k] = v\<close> overwrites in place or appends (\<open>dict_set\<close>), \<open>del d[k]\<close> removes the
  key (\<open>dict_del\<close>), \<open>d.get(k)\<close> is \<open>map_of d k\<close>, \<open>k in d\<close> is \<open>dict_has d k\<close>.
\<close>

type_synonym ('k, 'v) dict = "('k \<times> 'v) list"
type_synonym jdict = "(string, json) dict"

abbreviation dict_set :: "('k, 'v) dict \<Rightarrow> 'k \<Rightarrow> 'v \<Rightarrow> ('k, 'v) dict" where
  "dict_set d k v \<equiv> AList.update k v d"

abbreviation dict_del :: "('k, 'v) dict \<Rightarrow> 'k \<Rightarrow> ('k, 'v) dict" where
  "dict_del d k \<equiv> AList.delete k d"

definition dict_has :: "('k, 'v) dict \<Rightarrow> 'k \<Rightarrow> bool" where
  "dict_has d k \<longleftrightarrow> map_of d k \<noteq> None"

abbreviation dict_keys :: "('k, 'v) dict \<Rightarrow> 'k list" where
  "dict_keys d \<equiv> map fst d"

abbreviation dict_values :: "('k, 'v) dict \<Rightarrow> 'v list" where
  "dict_values d \<equiv> map snd d"

abbreviation dict_ok :: "('k, 'v) dict \<Rightarrow> bool" where
  "dict_ok d \<equiv> distinct (map fst d)"

named_theorems dict_simps "how lookup, membership and keys react to updates of a dictionary"

lemmas [dict_simps] =
  update_conv' delete_conv' dom_update distinct_update distinct_delete

lemma dict_has_iff: "dict_has d k \<longleftrightarrow> k \<in> fst ` set d"
  by (simp add: dict_has_def map_of_eq_None_iff)

lemma dict_has_set [dict_simps]: "dict_has (dict_set d k v) k' \<longleftrightarrow> k' = k \<or> dict_has d k'"
  by (simp add: dict_has_def update_conv')

lemma dict_has_del [dict_simps]: "dict_has (dict_del d k) k' \<longleftrightarrow> k' \<noteq> k \<and> dict_has d k'"
  by (simp add: dict_has_def delete_conv')

lemma dict_set_items: "set (dict_set d k v) \<subseteq> insert (k, v) (set d)"
  by (induction d) auto

lemma dict_del_items: "set (dict_del d k) \<subseteq> set d"
  by (auto simp: AList.delete_eq)

lemma dict_keys_del: "fst ` set (dict_del d k) = fst ` set d - {k}"
  by (auto simp: AList.delete_eq image_iff)

text \<open>In a well-formed dictionary the items are exactly what lookup finds.\<close>

lemma dict_values_iff:
  "dict_ok d \<Longrightarrow> v \<in> set (dict_values d) \<longleftrightarrow> (\<exists>k. map_of d k = Some v)"
  by force

lemma dict_item_iff: "dict_ok d \<Longrightarrow> (k, v) \<in> set d \<longleftrightarrow> map_of d k = Some v"
  by simp

lemma length_dict_set:
  "length (dict_set d k v) = (if dict_has d k then length d else Suc (length d))"
  by (induction d) (auto simp: dict_has_def)

lemma length_dict_del_less: "dict_has d k \<Longrightarrow> length (dict_del d k) < length d"
  by (induction d) (auto simp: dict_has_def AList.delete_eq le_imp_less_Suc length_filter_less
      split: if_splits)

lemma length_dict_del:
  assumes "dict_ok d" and "dict_has d k"
  shows "length (dict_del d k) = length d - 1"
proof -
  have "length (removeAll k (dict_keys d)) = length (dict_keys d) - 1"
    using assms by (simp add: dict_has_iff distinct_remove1_removeAll[symmetric] length_remove1)
  then show ?thesis
    by (metis delete_keys length_map)
qed

section \<open>Python lists\<close>

text \<open>\<open>xs[i]\<close>: a negative index counts from the end, out of range raises.\<close>

definition py_get :: "'a list \<Rightarrow> int \<Rightarrow> 'a result" where
  "py_get xs i =
     (let j = (if i < 0 then int (length xs) + i else i)
      in if 0 \<le> j \<and> j < int (length xs) then Inr (xs ! nat j) else Inl IndexError)"

text \<open>\<open>xs[:n]\<close> and \<open>xs[n:]\<close>: a negative bound counts from the end, and both clip.\<close>

definition py_take :: "int \<Rightarrow> 'a list \<Rightarrow> 'a list" where
  "py_take n xs = take (nat (if n < 0 then int (length xs) + n else n)) xs"

definition py_drop :: "int \<Rightarrow> 'a list \<Rightarrow> 'a list" where
  "py_drop n xs = drop (nat (if n < 0 then int (length xs) + n else n)) xs"

lemma py_get_in: "0 \<le> i \<Longrightarrow> i < int (length xs) \<Longrightarrow> py_get xs i = Inr (xs ! nat i)"
  by (simp add: py_get_def)

lemma py_get_nat [simp]: "n < length xs \<Longrightarrow> py_get xs (int n) = Inr (xs ! n)"
  by (simp add: py_get_def)

lemma py_get_out: "int (length xs) \<le> i \<Longrightarrow> py_get xs i = Inl IndexError"
  by (simp add: py_get_def)

lemma py_take_nat [simp]: "py_take (int n) xs = take n xs"
  by (simp add: py_take_def)

lemma py_drop_nat [simp]: "py_drop (int n) xs = drop n xs"
  by (simp add: py_drop_def)

lemma py_take_nonneg: "0 \<le> n \<Longrightarrow> py_take n xs = take (nat n) xs"
  by (simp add: py_take_def)

lemma py_drop_nonneg: "0 \<le> n \<Longrightarrow> py_drop n xs = drop (nat n) xs"
  by (simp add: py_drop_def)

lemma set_py_take: "set (py_take n xs) \<subseteq> set xs"
  by (auto simp: py_take_def dest: in_set_takeD)

lemma length_py_take_le: "0 \<le> n \<Longrightarrow> int (length (py_take n xs)) \<le> n"
  by (simp add: py_take_def)

text \<open>The last element, and \<open>min(xs, key=f)\<close>, which keeps the first of several minima.\<close>

fun min_by :: "('a \<Rightarrow> 'b::linorder) \<Rightarrow> 'a \<Rightarrow> 'a list \<Rightarrow> 'a" where
  "min_by f m [] = m"
| "min_by f m (x # xs) = min_by f (if f x < f m then x else m) xs"

definition py_min :: "('a \<Rightarrow> 'b::linorder) \<Rightarrow> 'a list \<Rightarrow> 'a result" where
  "py_min f xs = (case xs of [] \<Rightarrow> Inl (ValueError ''min() arg is an empty sequence'')
                  | x # ys \<Rightarrow> Inr (min_by f x ys))"

lemma min_by_in: "min_by f m xs \<in> insert m (set xs)"
  by (induction xs arbitrary: m) (auto split: if_splits)

lemma min_by_le: "y \<in> insert m (set xs) \<Longrightarrow> f (min_by f m xs) \<le> f y"
proof (induction xs arbitrary: m y)
  case Nil
  then show ?case by simp
next
  case (Cons x xs)
  have "f (min_by f (if f x < f m then x else m) xs) \<le> f (if f x < f m then x else m)"
    by (rule Cons.IH) simp
  moreover have "f (if f x < f m then x else m) \<le> f m" "f (if f x < f m then x else m) \<le> f x"
    by auto
  ultimately show ?case
    using Cons.IH[of y "if f x < f m then x else m"] Cons.prems by (auto intro: order_trans)
qed

lemma py_min_Inr: "py_min f xs = Inr m \<longleftrightarrow> (\<exists>x ys. xs = x # ys \<and> m = min_by f x ys)"
  by (auto simp: py_min_def split: list.splits)

lemma py_min_in: "py_min f xs = Inr m \<Longrightarrow> m \<in> set xs"
  using min_by_in by (fastforce simp: py_min_Inr)

lemma py_min_le: "py_min f xs = Inr m \<Longrightarrow> y \<in> set xs \<Longrightarrow> f m \<le> f y"
  by (auto simp: py_min_Inr intro!: min_by_le)

lemma py_min_ok: "xs \<noteq> [] \<Longrightarrow> \<exists>m. py_min f xs = Inr m"
  by (cases xs) (simp_all add: py_min_Inr)

section \<open>Typed reads of a JSON dictionary\<close>

text \<open>
  The code reads \<open>d[k]\<close> (a missing key raises) and \<open>d.get(k, default)\<close>. The dataclasses annotate
  each field with a type; a JSON value of another type at such a place is outside the model's
  domain and is reported as a \<open>TypeError\<close>.
\<close>

fun as_str :: "json \<Rightarrow> string result" where
  "as_str (JStr s) = Inr s"
| "as_str _ = Inl (TypeError ''str'')"

fun as_int :: "json \<Rightarrow> int result" where
  "as_int (JInt i) = Inr i"
| "as_int _ = Inl (TypeError ''int'')"

fun as_num :: "json \<Rightarrow> rat result" where
  "as_num (JInt i) = Inr (of_int i)"
| "as_num (JFloat r) = Inr r"
| "as_num _ = Inl (TypeError ''float'')"

definition item :: "jdict \<Rightarrow> string \<Rightarrow> json result" where
  "item d k = (case map_of d k of None \<Rightarrow> Inl (KeyError k) | Some v \<Rightarrow> Inr v)"

definition item_str :: "jdict \<Rightarrow> string \<Rightarrow> string result" where
  "item_str d k = (case item d k of Inl e \<Rightarrow> Inl e | Inr v \<Rightarrow> as_str v)"

definition item_int :: "jdict \<Rightarrow> string \<Rightarrow> int result" where
  "item_int d k = (case item d k of Inl e \<Rightarrow> Inl e | Inr v \<Rightarrow> as_int v)"

definition item_num :: "jdict \<Rightarrow> string \<Rightarrow> rat result" where
  "item_num d k = (case item d k of Inl e \<Rightarrow> Inl e | Inr v \<Rightarrow> as_num v)"

definition get_int :: "jdict \<Rightarrow> string \<Rightarrow> int \<Rightarrow> int result" where
  "get_int d k dflt = (case map_of d k of None \<Rightarrow> Inr dflt | Some v \<Rightarrow> as_int v)"

lemmas item_defs = item_def item_str_def item_int_def item_num_def get_int_def

section \<open>Decimal rendering\<close>

text \<open>\<open>str(n)\<close> for a natural number, as the f-strings of the hash ring use it.\<close>

definition digit_char :: "nat \<Rightarrow> char" where
  "digit_char n = char_of (48 + n)"

fun str_nat :: "nat \<Rightarrow> string" where
  "str_nat n = (if n < 10 then [digit_char n] else str_nat (n div 10) @ [digit_char (n mod 10)])"

declare str_nat.simps [simp del]

end
