(* ===== verification/Wait_Graph.thy ===== *)
theory Wait_Graph
  imports Py_Prelude
begin

text \<open>
  \<^verbatim>\<open>src/services/lock_manager.py\<close>, class \<open>LockWaitGraph\<close>: the wait-for graph and its depth-first
  cycle detection. The graph is a dictionary from a waiter to the set of holders it waits for; a
  Python set is iterated in some fixed order, so the set is a list here and every theorem holds for
  any order. The three methods run under an \<open>asyncio.Lock\<close> without a suspension inside, so each is
  atomic. Python's recursion limit is not modelled.
\<close>

type_synonym 'n wait_graph = "('n, 'n list) dict"

definition neighbours :: "'n wait_graph \<Rightarrow> 'n \<Rightarrow> 'n list" where
  "neighbours g n = (case map_of g n of None \<Rightarrow> [] | Some hs \<Rightarrow> hs)"

definition edges :: "'n wait_graph \<Rightarrow> ('n \<times> 'n) set" where
  "edges g = {(x, y). y \<in> set (neighbours g x)}"

section \<open>Operations\<close>

definition add_edge :: "'n wait_graph \<Rightarrow> 'n \<Rightarrow> 'n \<Rightarrow> 'n wait_graph" where
  "add_edge g waiter holder =
     (let g1 = (if dict_has g waiter then g else dict_set g waiter []);
          hs = neighbours g1 waiter
      in dict_set g1 waiter (if holder \<in> set hs then hs else hs @ [holder]))"

definition remove_edges :: "'n wait_graph \<Rightarrow> 'n \<Rightarrow> 'n wait_graph" where
  "remove_edges g waiter =
     (let g1 = (if dict_has g waiter then dict_del g waiter else g)
      in map (\<lambda>(n, hs). (n, removeAll waiter hs)) g1)"

text \<open>
  \<open>dfs\<close> is a closure over \<open>visited\<close> and \<open>rec_stack\<close>, threaded here as lists. \<open>dfs_neighbours\<close> is the
  loop over the neighbours of the last node of \<open>path\<close>, with the body of the recursive call in
  place: the node is marked, its neighbours are searched, and without a result it leaves the
  recursion stack. The lemma \<open>dfs_neighbours_dfs\<close> gives back the loop that calls \<open>dfs\<close>.
\<close>

definition graph_nodes :: "'n wait_graph \<Rightarrow> 'n set" where
  "graph_nodes g = fst ` set g"

lemma finite_graph_nodes [simp]: "finite (graph_nodes g)"
  by (simp add: graph_nodes_def)

lemma neighbours_outside: "n \<notin> graph_nodes g \<Longrightarrow> neighbours g n = []"
  by (auto simp: neighbours_def graph_nodes_def split: option.splits dest: map_of_SomeD
      intro: rev_image_eqI)

function dfs_neighbours ::
  "'n wait_graph \<Rightarrow> 'n list \<Rightarrow> 'n list \<Rightarrow> 'n list \<Rightarrow> 'n list
     \<Rightarrow> 'n list option \<times> 'n list \<times> 'n list" where
  "dfs_neighbours g [] path visited rec_stack = (None, visited, rec_stack)"
| "dfs_neighbours g (m # ms) path visited rec_stack =
     (if m \<notin> set visited then
        (case dfs_neighbours g (neighbours g m) (path @ [m]) (m # visited) (m # rec_stack) of
           (Some c, visited', rec_stack') \<Rightarrow> (Some c, visited', rec_stack')
         | (None, visited', rec_stack') \<Rightarrow>
             dfs_neighbours g ms path visited' (remove1 m rec_stack'))
      else if m \<in> set rec_stack then (Some (path @ [m]), visited, rec_stack)
      else dfs_neighbours g ms path visited rec_stack)"
  by pat_completeness auto

lemma dfs_visited_mono:
  "dfs_neighbours_dom (g, ms, p, vs, rs) \<Longrightarrow>
     set vs \<subseteq> set (fst (snd (dfs_neighbours g ms p vs rs)))"
proof (induction g ms p vs rs rule: dfs_neighbours.pinduct)
  case (1 g p vs rs)
  then show ?case by (simp add: dfs_neighbours.psimps)
next
  case (2 g m ms p vs rs)
  show ?case
  proof (cases "m \<in> set vs")
    case True
    with 2 show ?thesis by (auto simp: dfs_neighbours.psimps)
  next
    case False
    obtain r vs' rs' where inner:
      "dfs_neighbours g (neighbours g m) (p @ [m]) (m # vs) (m # rs) = (r, vs', rs')"
      by (metis prod_cases3)
    have sub: "set (m # vs) \<subseteq> set vs'" using "2.IH"(1)[OF False] inner by simp
    show ?thesis
    proof (cases r)
      case None
      have "set vs' \<subseteq> set (fst (snd (dfs_neighbours g ms p vs' (remove1 m rs'))))"
        using "2.IH"(2)[OF False inner[symmetric] None refl] by simp
      with sub show ?thesis using False inner None "2.hyps" by (auto simp: dfs_neighbours.psimps)
    next
      case (Some c)
      with sub show ?thesis using False inner "2.hyps" by (simp add: dfs_neighbours.psimps)
    qed
  qed
qed

termination dfs_neighbours
proof (relation "inv_image (less_than <*lex*> less_than)
    (\<lambda>(g, ms, p, vs, rs). (card (graph_nodes g - set vs), length ms))", goal_cases)
  case (2 g m ms p vs rs)
  show ?case
  proof (cases "m \<in> graph_nodes g")
    case True
    with 2 have "graph_nodes g - set (m # vs) \<subset> graph_nodes g - set vs" by auto
    then show ?thesis by (simp add: psubset_card_mono del: set_simps)
  next
    case False
    then have "graph_nodes g - set (m # vs) = graph_nodes g - set vs" by auto
    with False show ?thesis by (simp add: neighbours_outside)
  qed
next
  case (3 g m ms p vs rs x y xa ya)
  then have "set (m # vs) \<subseteq> set xa"
    using dfs_visited_mono[of g "neighbours g m" "p @ [m]" "m # vs" "m # rs"] by (metis fst_conv snd_conv)
  then have "card (graph_nodes g - set xa) \<le> card (graph_nodes g - set vs)"
    by (intro card_mono) auto
  then show ?case by auto
qed auto

definition dfs ::
  "'n wait_graph \<Rightarrow> 'n \<Rightarrow> 'n list \<Rightarrow> 'n list \<Rightarrow> 'n list \<Rightarrow> 'n list option \<times> 'n list \<times> 'n list" where
  "dfs g node path visited rec_stack =
     (case dfs_neighbours g (neighbours g node) (path @ [node]) (node # visited) (node # rec_stack) of
        (Some c, visited', rec_stack') \<Rightarrow> (Some c, visited', rec_stack')
      | (None, visited', rec_stack') \<Rightarrow> (None, visited', remove1 node rec_stack'))"

lemma dfs_neighbours_dfs:
  "dfs_neighbours g (m # ms) path visited rec_stack =
     (if m \<notin> set visited then
        (case dfs g m path visited rec_stack of
           (Some c, visited', rec_stack') \<Rightarrow> (Some c, visited', rec_stack')
         | (None, visited', rec_stack') \<Rightarrow> dfs_neighbours g ms path visited' rec_stack')
      else if m \<in> set rec_stack then (Some (path @ [m]), visited, rec_stack)
      else dfs_neighbours g ms path visited rec_stack)"
  by (simp add: dfs_def split: prod.split option.split)

fun detect_from :: "'n wait_graph \<Rightarrow> 'n list \<Rightarrow> 'n list \<Rightarrow> 'n list \<Rightarrow> 'n list option" where
  "detect_from g [] visited rec_stack = None"
| "detect_from g (node # nodes) visited rec_stack =
     (if node \<notin> set visited then
        (case dfs g node [] visited rec_stack of
           (Some cycle, visited', rec_stack') \<Rightarrow> Some cycle
         | (None, visited', rec_stack') \<Rightarrow> detect_from g nodes visited' rec_stack')
      else detect_from g nodes visited rec_stack)"

definition detect_cycle :: "'n wait_graph \<Rightarrow> 'n list option" where
  "detect_cycle g = detect_from g (dict_keys g) [] []"

section \<open>Edges after the operations\<close>

lemma neighbours_set [simp]:
  "neighbours (dict_set g k hs) x = (if x = k then hs else neighbours g x)"
  by (simp add: neighbours_def update_conv')

lemma neighbours_add:
  "set (neighbours (add_edge g w h) x) = (if x = w then insert h (set (neighbours g w)) else set (neighbours g x))"
proof -
  have fresh: "neighbours g w = []" if "\<not> dict_has g w"
    using that by (simp add: dict_has_def neighbours_def)
  show ?thesis by (simp add: add_edge_def Let_def fresh insert_absorb)
qed

lemma edges_add_edge: "edges (add_edge g w h) = insert (w, h) (edges g)"
  by (auto simp: edges_def neighbours_add split: if_splits)

lemma neighbours_remove:
  "neighbours (remove_edges g w) x = (if x = w then [] else removeAll w (neighbours g x))"
  by (cases "map_of g w"; cases "map_of g x")
    (auto simp: remove_edges_def neighbours_def map_of_map delete_conv' dict_has_def)

lemma edges_remove_edges: "edges (remove_edges g w) = {(x, y) \<in> edges g. x \<noteq> w \<and> y \<noteq> w}"
  by (auto simp: edges_def neighbours_remove split: if_splits)

section \<open>Correctness of the cycle detection\<close>

definition walk :: "'n wait_graph \<Rightarrow> 'n list \<Rightarrow> bool" where
  "walk g p = successively (\<lambda>x y. (x, y) \<in> edges g) p"

lemma walk_snoc: "walk g (p @ [m]) \<longleftrightarrow> walk g p \<and> (p \<noteq> [] \<longrightarrow> (last p, m) \<in> edges g)"
  by (auto simp: walk_def successively_append_iff)

lemma walk_trancl: "walk g (x # b @ [y]) \<Longrightarrow> (x, y) \<in> (edges g)\<^sup>+"
proof (induction b arbitrary: x)
  case Nil
  then show ?case by (simp add: walk_def)
next
  case (Cons z b)
  then have "(x, z) \<in> edges g" and "walk g (z # b @ [y])" by (simp_all add: walk_def)
  with Cons.IH show ?case by (meson trancl_into_trancl2)
qed

lemma walk_cycle: "walk g (xs @ [y]) \<Longrightarrow> y \<in> set xs \<Longrightarrow> (y, y) \<in> (edges g)\<^sup>+"
proof -
  assume w: "walk g (xs @ [y])" and "y \<in> set xs"
  then obtain a b where "xs = a @ y # b" by (meson split_list)
  with w have "walk g (y # b @ [y])" by (simp add: walk_def successively_append_iff)
  then show ?thesis by (rule walk_trancl)
qed

text \<open>A search without a result leaves the recursion stack as it was.\<close>

lemma dfs_stack: "dfs_neighbours g ms p vs rs = (None, vs', rs') \<Longrightarrow> rs' = rs"
proof (induction g ms p vs rs arbitrary: vs' rs' rule: dfs_neighbours.induct)
  case (1 g p vs rs)
  then show ?case by simp
next
  case (2 g m ms p vs rs)
  show ?case
  proof (cases "m \<in> set vs")
    case True
    then show ?thesis using 2 by (auto split: if_splits)
  next
    case False
    obtain v1 r1 where inner:
      "dfs_neighbours g (neighbours g m) (p @ [m]) (m # vs) (m # rs) = (None, v1, r1)"
      using "2.prems" False by (auto split: prod.splits option.splits)
    have "r1 = m # rs" using "2.IH"(1)[OF False inner] .
    moreover have "dfs_neighbours g ms p v1 (remove1 m r1) = (None, vs', rs')"
      using "2.prems" False inner by simp
    ultimately show ?thesis using "2.IH"(2)[OF False inner[symmetric] refl refl] by simp
  qed
qed

text \<open>A result is a walk that ends in a node it has visited before.\<close>

definition closed_walk :: "'n wait_graph \<Rightarrow> 'n list \<Rightarrow> bool" where
  "closed_walk g c \<longleftrightarrow> (\<exists>xs y. c = xs @ [y] \<and> y \<in> set xs \<and> walk g c)"

lemma dfs_sound:
  "dfs_neighbours g ms p vs rs = (Some c, vs', rs') \<Longrightarrow> walk g p
     \<Longrightarrow> (p \<noteq> [] \<Longrightarrow> \<forall>m\<in>set ms. (last p, m) \<in> edges g) \<Longrightarrow> set rs \<subseteq> set p \<Longrightarrow> closed_walk g c"
proof (induction g ms p vs rs arbitrary: vs' rs' rule: dfs_neighbours.induct)
  case (1 g p vs rs)
  then show ?case by simp
next
  case (2 g m ms p vs rs)
  have wm: "walk g (p @ [m])" using "2.prems"(2,3) by (simp add: walk_snoc)
  show ?case
  proof (cases "m \<in> set vs")
    case True
    show ?thesis
    proof (cases "m \<in> set rs")
      case True
      then have "c = p @ [m]" "m \<in> set p" using \<open>m \<in> set vs\<close> "2.prems" by auto
      then show ?thesis using wm by (auto simp: closed_walk_def)
    next
      case False
      then show ?thesis using "2.IH"(3) True "2.prems" by auto
    qed
  next
    case False
    obtain r v1 r1 where inner:
      "dfs_neighbours g (neighbours g m) (p @ [m]) (m # vs) (m # rs) = (r, v1, r1)"
      by (metis prod_cases3)
    show ?thesis
    proof (cases r)
      case (Some c')
      then have "c' = c" using "2.prems"(1) False inner by simp
      then show ?thesis
        using "2.IH"(1)[OF False] inner Some wm "2.prems"(4) by (auto simp: edges_def)
    next
      case None
      then have "r1 = m # rs" using dfs_stack inner by blast
      moreover have "dfs_neighbours g ms p v1 (remove1 m r1) = (Some c, vs', rs')"
        using "2.prems"(1) False inner None by simp
      ultimately show ?thesis
        using "2.IH"(2)[OF False inner[symmetric] None refl] "2.prems"(2-4) by simp
    qed
  qed
qed

text \<open>
  Completeness. The finished nodes (visited and off the stack) are closed under edges and induce
  an acyclic graph; a search without a result finishes all the nodes it was given.
\<close>

definition finished :: "'n list \<Rightarrow> 'n list \<Rightarrow> 'n set" where
  "finished vs rs = set vs - set rs"

definition search_inv :: "'n wait_graph \<Rightarrow> 'n list \<Rightarrow> 'n list \<Rightarrow> bool" where
  "search_inv g vs rs \<longleftrightarrow> set rs \<subseteq> set vs \<and> edges g `` finished vs rs \<subseteq> finished vs rs
     \<and> acyclic (edges g \<inter> finished vs rs \<times> finished vs rs)"

lemma acyclic_add_source:
  assumes "acyclic (E \<inter> B \<times> B)" and "E `` B \<subseteq> B" and "E `` {m} \<subseteq> B" and "m \<notin> B"
  shows "acyclic (E \<inter> insert m B \<times> insert m B)"
proof (rule acyclicI, intro allI notI)
  fix x
  let ?R = "E \<inter> insert m B \<times> insert m B"
  assume c: "(x, x) \<in> ?R\<^sup>+"
  have into: "(a, b) \<in> ?R \<Longrightarrow> b \<in> B" for a b using assms(2,3) by auto
  then have "x \<in> B" using c by (meson tranclE)
  have "(a, b) \<in> ?R\<^sup>+ \<Longrightarrow> a \<in> B \<Longrightarrow> (a, b) \<in> (E \<inter> B \<times> B)\<^sup>+ \<and> b \<in> B" for a b
  proof (induction rule: trancl_induct)
    case (base b)
    then have "(a, b) \<in> E \<inter> B \<times> B" using into[of a b] by blast
    then show ?case by blast
  next
    case (step b c)
    then have "(b, c) \<in> E \<inter> B \<times> B" using into[of b c] by blast
    with step show ?case by (meson IntD2 SigmaD2 trancl.trancl_into_trancl)
  qed
  with c \<open>x \<in> B\<close> have "(x, x) \<in> (E \<inter> B \<times> B)\<^sup>+" by blast
  with assms(1) show False by (simp add: acyclic_def)
qed

lemma dfs_complete:
  "dfs_neighbours g ms p vs rs = (None, vs', rs') \<Longrightarrow> search_inv g vs rs \<Longrightarrow>
     search_inv g vs' rs \<and> set vs \<subseteq> set vs' \<and> set ms \<subseteq> finished vs' rs"
proof (induction g ms p vs rs arbitrary: vs' rs' rule: dfs_neighbours.induct)
  case (1 g p vs rs)
  then show ?case by simp
next
  case (2 g m ms p vs rs)
  show ?case
  proof (cases "m \<in> set vs")
    case True
    have nr: "m \<notin> set rs" using True "2.prems"(1) by auto
    then have "search_inv g vs' rs \<and> set vs \<subseteq> set vs' \<and> set ms \<subseteq> finished vs' rs"
      using "2.IH"(3) True "2.prems" by auto
    then show ?thesis using True nr by (auto simp: finished_def)
  next
    case False
    obtain v1 r1 where inner:
      "dfs_neighbours g (neighbours g m) (p @ [m]) (m # vs) (m # rs) = (None, v1, r1)"
      using "2.prems"(1) False by (auto split: prod.splits option.splits)
    then have r1: "r1 = m # rs" by (rule dfs_stack)
    have rest: "dfs_neighbours g ms p v1 rs = (None, vs', rs')"
      using "2.prems"(1) False inner r1 by simp
    have mr: "m \<notin> set rs" using False "2.prems"(2) by (auto simp: search_inv_def)
    have "finished (m # vs) (m # rs) = finished vs rs" using False by (auto simp: finished_def)
    then have "search_inv g (m # vs) (m # rs)" using "2.prems"(2) by (auto simp: search_inv_def)
    then have i1: "search_inv g v1 (m # rs)" "set (m # vs) \<subseteq> set v1"
      "set (neighbours g m) \<subseteq> finished v1 (m # rs)"
      using "2.IH"(1)[OF False inner] by auto
    have fin: "finished v1 rs = insert m (finished v1 (m # rs))"
      using i1(2) mr by (auto simp: finished_def)
    have nb: "edges g `` {m} \<subseteq> finished v1 (m # rs)" using i1(3) by (auto simp: edges_def)
    have "search_inv g v1 rs"
      using i1(1) nb acyclic_add_source[of "edges g" "finished v1 (m # rs)" m]
      unfolding search_inv_def fin by (auto simp: finished_def)
    then have "search_inv g vs' rs \<and> set v1 \<subseteq> set vs' \<and> set ms \<subseteq> finished vs' rs"
      using "2.IH"(2)[OF False inner[symmetric] refl refl] rest r1 by simp
    then show ?thesis using i1(2) mr by (auto simp: finished_def)
  qed
qed

lemma dfs_as_neighbours:
  "node \<notin> set vs \<Longrightarrow> dfs_neighbours g [node] [] vs rs = dfs g node [] vs rs"
  unfolding dfs_neighbours_dfs by (auto split: prod.split option.split)

lemma detect_from_None:
  "detect_from g nodes vs [] = None \<Longrightarrow> search_inv g vs [] \<Longrightarrow>
     \<exists>vs'. search_inv g vs' [] \<and> set vs \<subseteq> set vs' \<and> set nodes \<subseteq> set vs'"
proof (induction nodes arbitrary: vs)
  case (Cons node nodes)
  show ?case
  proof (cases "node \<in> set vs")
    case True
    then show ?thesis using Cons by force
  next
    case False
    obtain v1 r1 where d: "dfs g node [] vs [] = (None, v1, r1)"
      using Cons.prems(1) False by (auto split: prod.splits option.splits)
    then have dn: "dfs_neighbours g [node] [] vs [] = (None, v1, r1)"
      unfolding dfs_as_neighbours[OF False] .
    then have "r1 = []" by (rule dfs_stack)
    have i: "search_inv g v1 [] \<and> set vs \<subseteq> set v1 \<and> set [node] \<subseteq> finished v1 []"
      using dn Cons.prems(2) by (rule dfs_complete)
    moreover have "detect_from g nodes v1 [] = None"
      using Cons.prems(1) False d \<open>r1 = []\<close> by simp
    ultimately obtain vs' where "search_inv g vs' []" "set v1 \<subseteq> set vs'" "set nodes \<subseteq> set vs'"
      using Cons.IH by blast
    then show ?thesis using i by (auto simp: finished_def)
  qed
qed auto

lemma detect_from_Some:
  "detect_from g nodes vs [] = Some c \<Longrightarrow> closed_walk g c"
proof (induction nodes arbitrary: vs)
  case (Cons node nodes)
  show ?case
  proof (cases "node \<in> set vs")
    case True
    then show ?thesis using Cons by simp
  next
    case False
    obtain r v1 r1 where d: "dfs g node [] vs [] = (r, v1, r1)" by (metis prod_cases3)
    then have dn: "dfs_neighbours g [node] [] vs [] = (r, v1, r1)"
      unfolding dfs_as_neighbours[OF False] .
    show ?thesis
    proof (cases r)
      case None
      with dn have "r1 = []" using dfs_stack by blast
      then show ?thesis using Cons False d None by simp
    next
      case (Some c')
      then have "c' = c" using Cons.prems False d by simp
      then show ?thesis using dfs_sound[of g "[node]" "[]" vs "[]"] dn Some by (simp add: walk_def)
    qed
  qed
qed simp

lemma detect_cycle_sound: "detect_cycle g = Some c \<Longrightarrow> closed_walk g c"
  unfolding detect_cycle_def by (rule detect_from_Some)

lemma closed_walk_cyclic: "closed_walk g c \<Longrightarrow> \<not> acyclic (edges g)"
  by (auto simp: closed_walk_def acyclic_def dest: walk_cycle)

lemma detect_cycle_complete: "detect_cycle g = None \<Longrightarrow> acyclic (edges g)"
proof -
  assume d: "detect_cycle g = None"
  have "search_inv g [] []" by (simp add: search_inv_def finished_def acyclic_def)
  with d obtain vs where i: "search_inv g vs []" and keys: "set (dict_keys g) \<subseteq> set vs"
    unfolding detect_cycle_def using detect_from_None by blast
  have src: "x \<in> set vs" if "(x, y) \<in> edges g" for x y
  proof -
    have "x \<in> graph_nodes g" using that neighbours_outside by (fastforce simp: edges_def)
    then show ?thesis using keys by (auto simp: graph_nodes_def)
  qed
  then have "edges g \<inter> set vs \<times> set vs = edges g"
    using i by (auto simp: search_inv_def finished_def)
  then show ?thesis using i by (simp add: search_inv_def finished_def)
qed

lemma detect_cycle_None_iff: "detect_cycle g = None \<longleftrightarrow> acyclic (edges g)"
  using detect_cycle_complete detect_cycle_sound closed_walk_cyclic by (metis option.exhaust)

section \<open>Properties\<close>

text \<open>C13: The detection answers nothing exactly when the wait-for graph has no cycle, and an answer
  is a walk along wait-for edges that ends in a node it already visited, for every iteration order.\<close>

theorem detect_cycle_correct:
  "(detect_cycle g = None \<longleftrightarrow> acyclic (edges g)) \<and>
   (case detect_cycle g of None \<Rightarrow> True | Some c \<Rightarrow>
      closed_walk g c \<and> (last c, last c) \<in> (edges g)\<^sup>+)"
proof -
  have "closed_walk g c \<Longrightarrow> (last c, last c) \<in> (edges g)\<^sup>+" for c
    by (auto simp: closed_walk_def dest: walk_cycle)
  then show ?thesis
    using detect_cycle_None_iff[of g] detect_cycle_sound[of g] by (auto split: option.split)
qed

text \<open>Adding an edge adds exactly that edge, and removing a waiter removes exactly the edges it
  occurs in, at either end.\<close>

theorem wait_graph_edges:
  "edges (add_edge g w h) = insert (w, h) (edges g) \<and>
   edges (remove_edges g w) = {(x, y) \<in> edges g. x \<noteq> w \<and> y \<noteq> w}"
  by (simp add: edges_add_edge edges_remove_edges)

end
