(* ===== verification/Core_Types.thy ===== *)
theory Core_Types
  imports Py_Prelude "HOL-Library.Char_ord"
begin

text \<open>
  \<^verbatim>\<open>src/core/types.py\<close>: the enumerations with their wire values and the dataclasses.
  A \<open>datetime\<close> is the number of seconds of the clock (\<open>rat\<close>). The field \<open>timestamp\<close> of a
  \<open>LogEntry\<close> is written and never read, and is left out.
\<close>

section \<open>Enumerations\<close>

datatype message_type =
    REQUEST_VOTE | VOTE_RESPONSE | APPEND_ENTRIES | APPEND_RESPONSE | LOCK_REQUEST
  | LOCK_GRANT | QUEUE_PUBLISH | CACHE_UPDATE | CACHE_INVALIDATE | HEARTBEAT

fun message_type_value :: "message_type \<Rightarrow> string" where
  "message_type_value REQUEST_VOTE = ''request_vote''"
| "message_type_value VOTE_RESPONSE = ''vote_response''"
| "message_type_value APPEND_ENTRIES = ''append_entries''"
| "message_type_value APPEND_RESPONSE = ''append_response''"
| "message_type_value LOCK_REQUEST = ''lock_request''"
| "message_type_value LOCK_GRANT = ''lock_grant''"
| "message_type_value QUEUE_PUBLISH = ''queue_publish''"
| "message_type_value CACHE_UPDATE = ''cache_update''"
| "message_type_value CACHE_INVALIDATE = ''cache_invalidate''"
| "message_type_value HEARTBEAT = ''heartbeat''"

datatype lock_type = LOCK_SHARED | LOCK_EXCLUSIVE

fun lock_type_value :: "lock_type \<Rightarrow> string" where
  "lock_type_value LOCK_SHARED = ''shared''"
| "lock_type_value LOCK_EXCLUSIVE = ''exclusive''"

datatype cache_state = MODIFIED | OWNED | EXCLUSIVE | SHARED | INVALID

fun cache_state_value :: "cache_state \<Rightarrow> string" where
  "cache_state_value MODIFIED = ''modified''"
| "cache_state_value OWNED = ''owned''"
| "cache_state_value EXCLUSIVE = ''exclusive''"
| "cache_state_value SHARED = ''shared''"
| "cache_state_value INVALID = ''invalid''"

fun cache_state_name :: "cache_state \<Rightarrow> string" where
  "cache_state_name MODIFIED = ''MODIFIED''"
| "cache_state_name OWNED = ''OWNED''"
| "cache_state_name EXCLUSIVE = ''EXCLUSIVE''"
| "cache_state_name SHARED = ''SHARED''"
| "cache_state_name INVALID = ''INVALID''"

datatype node_state = FOLLOWER | CANDIDATE | LEADER

fun node_state_value :: "node_state \<Rightarrow> string" where
  "node_state_value FOLLOWER = ''follower''"
| "node_state_value CANDIDATE = ''candidate''"
| "node_state_value LEADER = ''leader''"

text \<open>
  Calling an \<open>Enum\<close> class with a value looks the member up by value (\<open>ValueError\<close> if there is none);
  indexing it (\<open>CacheState[...]\<close>) looks it up by name (\<open>KeyError\<close> if there is none).
\<close>

definition message_types :: "message_type list" where
  "message_types = [REQUEST_VOTE, VOTE_RESPONSE, APPEND_ENTRIES, APPEND_RESPONSE, LOCK_REQUEST,
     LOCK_GRANT, QUEUE_PUBLISH, CACHE_UPDATE, CACHE_INVALIDATE, HEARTBEAT]"

definition lock_types :: "lock_type list" where
  "lock_types = [LOCK_SHARED, LOCK_EXCLUSIVE]"

definition cache_states :: "cache_state list" where
  "cache_states = [MODIFIED, OWNED, EXCLUSIVE, SHARED, INVALID]"

definition enum_call :: "('a \<Rightarrow> string) \<Rightarrow> 'a list \<Rightarrow> string \<Rightarrow> 'a result" where
  "enum_call val ms s =
     (case find (\<lambda>m. val m = s) ms of None \<Rightarrow> Inl (ValueError s) | Some m \<Rightarrow> Inr m)"

definition enum_index :: "('a \<Rightarrow> string) \<Rightarrow> 'a list \<Rightarrow> string \<Rightarrow> 'a result" where
  "enum_index name ms s =
     (case find (\<lambda>m. name m = s) ms of None \<Rightarrow> Inl (KeyError s) | Some m \<Rightarrow> Inr m)"

abbreviation message_type_of :: "string \<Rightarrow> message_type result" where
  "message_type_of \<equiv> enum_call message_type_value message_types"

abbreviation lock_type_of :: "string \<Rightarrow> lock_type result" where
  "lock_type_of \<equiv> enum_call lock_type_value lock_types"

abbreviation cache_state_index :: "string \<Rightarrow> cache_state result" where
  "cache_state_index \<equiv> enum_index cache_state_name cache_states"

text \<open>\<open>str.upper\<close> on ASCII letters.\<close>

definition upper_char :: "char \<Rightarrow> char" where
  "upper_char c = (if CHR ''a'' \<le> c \<and> c \<le> CHR ''z'' then char_of ((of_char c :: nat) - 32) else c)"

definition py_upper :: "string \<Rightarrow> string" where
  "py_upper s = map upper_char s"

lemma message_type_roundtrip [simp]: "message_type_of (message_type_value t) = Inr t"
  by (cases t) (simp_all add: enum_call_def message_types_def)

lemma lock_type_roundtrip [simp]: "lock_type_of (lock_type_value t) = Inr t"
  by (cases t) (simp_all add: enum_call_def lock_types_def)

lemma py_upper_value: "py_upper (cache_state_value s) = cache_state_name s"
  by (cases s; hypsubst; code_simp)

lemma cache_state_roundtrip [simp]: "cache_state_index (py_upper (cache_state_value s)) = Inr s"
  unfolding py_upper_value by (cases s) (simp_all add: enum_index_def cache_states_def)

section \<open>Dataclasses\<close>

record log_entry =
  le_term :: int
  le_index :: int
  le_command :: string
  le_data :: jdict

record message =
  message_type :: message_type
  sender_id :: string
  msg_term :: int
  msg_data :: jdict
  msg_timestamp :: rat

record lock =
  lk_lock_id :: string
  lk_resource :: string
  lk_owner :: string
  lk_lock_type :: lock_type
  lk_acquired_at :: rat
  lk_ttl :: rat

record queue_message =
  qm_msg_id :: string
  qm_payload :: json
  qm_partition_id :: int
  qm_timestamp :: rat
  qm_acked :: bool
  qm_delivery_count :: int

record cache_block =
  cb_key :: string
  cb_value :: json
  cb_state :: cache_state
  cb_owner_node :: string
  cb_last_modified :: rat
  cb_ttl :: rat
  cb_sharers :: "string list"

text \<open>\<open>MetricsData\<close> with its defaults; no part of the program builds one (\<open>/metrics\<close> asks the services).\<close>

record metrics_data =
  md_timestamp :: rat
  locks_active :: int
  locks_waiting :: int
  md_queue_size :: int
  cache_hits :: int
  cache_misses :: int
  consensus_term :: int
  consensus_leader :: "string option"

definition default_metrics :: "rat \<Rightarrow> metrics_data" where
  "default_metrics now =
     \<lparr>md_timestamp = now, locks_active = 0, locks_waiting = 0, md_queue_size = 0, cache_hits = 0, cache_misses = 0,
      consensus_term = 0, consensus_leader = None\<rparr>"

section \<open>The position of a log, ordered by recency\<close>

text \<open>
  Raft compares two logs by the term of the last entry first and the last index second. The pair
  is a type of its own whose order is that comparison.
\<close>

datatype log_pos = LogPos (pos_term: int) (pos_index: int)

instantiation log_pos :: linorder
begin

definition less_eq_log_pos :: "log_pos \<Rightarrow> log_pos \<Rightarrow> bool" where
  "less_eq_log_pos a b \<longleftrightarrow>
     pos_term a < pos_term b \<or> pos_term a = pos_term b \<and> pos_index a \<le> pos_index b"

definition less_log_pos :: "log_pos \<Rightarrow> log_pos \<Rightarrow> bool" where
  "less_log_pos a b \<longleftrightarrow>
     pos_term a < pos_term b \<or> pos_term a = pos_term b \<and> pos_index a < pos_index b"

instance
  by standard (auto simp: less_eq_log_pos_def less_log_pos_def log_pos.expand)

end

end
