(* ===== verification/Raft_Node.thy ===== *)
theory Raft_Node
  imports Core_Types
begin

text \<open>
  \<^verbatim>\<open>src/protocols/raft.py\<close>: the state of a \<open>RaftNode\<close> and its operations.

  Concurrency. The node runs on one event loop, so the code between two suspension points is
  atomic. The only suspension points of the class are the sleeps of the two timers and the
  network call. An operation without one (every message handler) is one function of the model;
  an operation with one is split there: the part before the call builds the request, the part
  after it handles the response (\<open>request_vote_message\<close> / \<open>on_vote_response\<close>,
  \<open>append_entries_request\<close> / \<open>on_append_response\<close>), and the composite operations
  (\<open>start_election\<close>, \<open>send_append_entries_to_all\<close>, \<open>append_entry\<close>) run the first parts of all
  peers before any second part, as \<open>asyncio.gather\<close> does.

  Parameters. \<open>send p m\<close> stands for \<open>_send_message_to_peer\<close> (HTTP through aiohttp): the peer's answer,
  or \<open>None\<close> for a timeout or an error. \<open>cbs\<close> is the list \<open>on_commit\<close>: a callback takes an entry and
  the state \<open>'a\<close> of the registered services, and may raise. \<open>now\<close> is the clock.
  The callbacks \<open>on_state_changed\<close> (none is registered in the program) are recorded in the
  ghost list \<open>state_events\<close>. The length of the election timeout is not part of the state;
  \<open>election_timeout\<close> gives the value drawn.
\<close>

type_synonym 'a callback = "log_entry \<Rightarrow> 'a \<Rightarrow> exn option \<times> 'a"

record raft_node =
  node_id :: string
  peers :: "string list"
  current_term :: int
  voted_for :: "string option"
  raft_log :: "log_entry list"
  commit_index :: int
  last_applied :: int
  raft_state :: node_state
  leader_id :: "string option"
  next_index :: "(string, int) dict"
  match_index :: "(string, int) dict"
  election_timer :: "nat option"
  heartbeat_timer :: "nat option"
  next_task :: nat
  election_in_progress :: bool
  peers_connected :: "(string, bool) dict"
  state_events :: "node_state list"

definition per_peer :: "string list \<Rightarrow> 'v \<Rightarrow> (string, 'v) dict \<Rightarrow> (string, 'v) dict" where
  "per_peer ps v d = fold (\<lambda>p d. dict_set d p v) ps d"

definition init_node :: "string \<Rightarrow> string list \<Rightarrow> raft_node" where
  "init_node nid ps =
     \<lparr>node_id = nid, peers = ps, current_term = 0, voted_for = None, raft_log = [],
      commit_index = -1, last_applied = -1, raft_state = FOLLOWER, leader_id = None,
      next_index = per_peer ps 0 [], match_index = per_peer ps 0 [],
      election_timer = None, heartbeat_timer = None, next_task = 0,
      election_in_progress = False, peers_connected = per_peer ps False [], state_events = []\<rparr>"

section \<open>Timers\<close>

text \<open>
  A timer is the task running its handler; creating a task gives it a new number, and replacing
  the number cancels the old task.
\<close>

definition reset_election_timer :: "raft_node \<Rightarrow> raft_node" where
  "reset_election_timer n = n\<lparr>election_timer := Some (next_task n), next_task := Suc (next_task n)\<rparr>"

definition start_heartbeat :: "raft_node \<Rightarrow> raft_node" where
  "start_heartbeat n = n\<lparr>heartbeat_timer := Some (next_task n), next_task := Suc (next_task n)\<rparr>"

definition raft_start :: "raft_node \<Rightarrow> raft_node" where
  "raft_start n = reset_election_timer n"

text \<open>A cancelled timer has no task.\<close>

definition raft_stop :: "raft_node \<Rightarrow> raft_node" where
  "raft_stop n = n\<lparr>election_timer := None, heartbeat_timer := None\<rparr>"

text \<open>\<open>re.search(r"(\d+)$", node_id)\<close>: the longest run of digits that ends the identifier.\<close>

definition is_digit :: "char \<Rightarrow> bool" where
  "is_digit c \<longleftrightarrow> CHR ''0'' \<le> c \<and> c \<le> CHR ''9''"

definition digit_val :: "char \<Rightarrow> nat" where
  "digit_val c = of_char c - 48"

definition trailing_digits :: "string \<Rightarrow> string" where
  "trailing_digits s = rev (takeWhile is_digit (rev s))"

definition decimal :: "string \<Rightarrow> nat" where
  "decimal s = fold (\<lambda>c v. 10 * v + digit_val c) s 0"

text \<open>\<open>md5_byte0\<close> is the first byte of the MD5 digest of the identifier.\<close>

definition compute_timeout_bias :: "(string \<Rightarrow> nat) \<Rightarrow> string \<Rightarrow> rat" where
  "compute_timeout_bias md5_byte0 nid =
     (let ds = trailing_digits nid in
      if ds \<noteq> [] then (let ordinal = max 0 (int (decimal ds) - 1) in (5 / 4) * of_int ordinal)
      else (let slot = md5_byte0 nid mod 6 in (3 / 4) * of_nat slot))"

text \<open>\<open>random.uniform(lo, hi)\<close> is \<open>lo + (hi - lo) * u\<close> for a draw \<open>u\<close> between 0 and 1.\<close>

definition election_timeout :: "rat \<Rightarrow> rat \<Rightarrow> rat \<Rightarrow> rat \<Rightarrow> rat" where
  "election_timeout tmin tmax bias u = tmin + (tmax - tmin) * u + bias"

section \<open>Applying committed entries\<close>

fun run_callbacks :: "'a callback list \<Rightarrow> log_entry \<Rightarrow> 'a \<Rightarrow> exn option \<times> 'a" where
  "run_callbacks [] e a = (None, a)"
| "run_callbacks (cb # cbs) e a =
     (case cb e a of (Some x, a') \<Rightarrow> (Some x, a') | (None, a') \<Rightarrow> run_callbacks cbs e a')"

function apply_committed_entries ::
  "'a callback list \<Rightarrow> raft_node \<Rightarrow> 'a \<Rightarrow> exn option \<times> raft_node \<times> 'a" where
  "apply_committed_entries cbs n a =
     (if last_applied n < commit_index n then
        (let n' = n\<lparr>last_applied := last_applied n + 1\<rparr> in
         case py_get (raft_log n') (last_applied n') of
           Inl x \<Rightarrow> (Some x, n', a)
         | Inr entry \<Rightarrow>
             (case run_callbacks cbs entry a of
                (Some x, a') \<Rightarrow> (Some x, n', a')
              | (None, a') \<Rightarrow> apply_committed_entries cbs n' a'))
      else (None, n, a))"
  by pat_completeness auto
termination
  by (relation "measure (\<lambda>(cbs, n, a). nat (commit_index n - last_applied n))") auto

declare apply_committed_entries.simps [simp del]

section \<open>Roles\<close>

definition quorum_size :: "raft_node \<Rightarrow> int" where
  "quorum_size n = (int (length (peers n)) + 1) div 2 + 1"

definition become_leader :: "raft_node \<Rightarrow> raft_node" where
  "become_leader n =
     (let n1 = n\<lparr>election_in_progress := False, raft_state := LEADER,
                 leader_id := Some (node_id n), state_events := state_events n @ [LEADER]\<rparr>;
          n2 = n1\<lparr>next_index := per_peer (peers n1) (int (length (raft_log n1))) (next_index n1),
                  match_index := per_peer (peers n1) 0 (match_index n1)\<rparr>
      in start_heartbeat n2)"

definition become_follower :: "string option \<Rightarrow> raft_node \<Rightarrow> raft_node" where
  "become_follower lid n =
     (let n1 = n\<lparr>heartbeat_timer := None, raft_state := FOLLOWER, leader_id := lid,
                 election_in_progress := False\<rparr>;
          n2 = reset_election_timer n1
      in if raft_state n \<noteq> FOLLOWER
         then n2\<lparr>state_events := state_events n2 @ [FOLLOWER]\<rparr> else n2)"

text \<open>\<open>current_term = t; voted_for = None; _become_follower()\<close>, the reply to any higher term.\<close>

definition step_down :: "int \<Rightarrow> raft_node \<Rightarrow> raft_node" where
  "step_down t n = become_follower None (n\<lparr>current_term := t, voted_for := None\<rparr>)"

section \<open>Elections\<close>

definition last_log_term :: "raft_node \<Rightarrow> int" where
  "last_log_term n = (if raft_log n = [] then 0 else le_term (last (raft_log n)))"

definition last_log_index :: "raft_node \<Rightarrow> int" where
  "last_log_index n = int (length (raft_log n)) - 1"

definition last_log_pos :: "raft_node \<Rightarrow> log_pos" where
  "last_log_pos n = LogPos (last_log_term n) (last_log_index n)"

definition start_election_begin :: "raft_node \<Rightarrow> raft_node" where
  "start_election_begin n =
     (let n1 = n\<lparr>election_in_progress := True, current_term := current_term n + 1,
                 raft_state := CANDIDATE, voted_for := Some (node_id n),
                 state_events := state_events n @ [CANDIDATE]\<rparr>
      in reset_election_timer n1)"

definition request_vote_message :: "rat \<Rightarrow> raft_node \<Rightarrow> message" where
  "request_vote_message now n =
     \<lparr>message_type = REQUEST_VOTE, sender_id = node_id n, msg_term = current_term n,
      msg_data = [(''last_log_index'', JInt (last_log_index n)),
                  (''last_log_term'', JInt (last_log_term n))],
      msg_timestamp = now\<rparr>"

definition on_vote_response :: "message option \<Rightarrow> raft_node \<Rightarrow> bool \<times> raft_node" where
  "on_vote_response resp n =
     (case resp of None \<Rightarrow> (False, n)
      | Some r \<Rightarrow>
          (map_of (msg_data r) ''vote_granted'' = Some (JBool True),
           if msg_term r > current_term n then step_down (msg_term r) n else n))"

definition finish_election :: "int \<Rightarrow> raft_node \<Rightarrow> raft_node" where
  "finish_election votes n =
     (let n1 = (if raft_state n = CANDIDATE \<and> votes \<ge> quorum_size n then become_leader n else n)
      in n1\<lparr>election_in_progress := False\<rparr>)"

fun gather_votes :: "message option list \<Rightarrow> raft_node \<Rightarrow> int \<times> raft_node" where
  "gather_votes [] n = (0, n)"
| "gather_votes (r # rs) n =
     (let (granted, n1) = on_vote_response r n; (k, n2) = gather_votes rs n1
      in ((if granted then 1 else 0) + k, n2))"

definition start_election ::
  "(string \<Rightarrow> message \<Rightarrow> message option) \<Rightarrow> rat \<Rightarrow> raft_node \<Rightarrow> raft_node" where
  "start_election send now n =
     (if election_in_progress n then n
      else (let n1 = start_election_begin n;
                (k, n2) = gather_votes (map (\<lambda>p. send p (request_vote_message now n1)) (peers n1)) n1
            in finish_election (1 + k) n2))"

text \<open>
  The election timer's task calls \<open>_start_election\<close> itself, and \<open>_reset_election_timer\<close> in it cancels
  the task stored in \<open>_election_timer\<close>: the one that is running. The cancellation takes effect where
  the task suspends next, which is the \<open>gather\<close> of the vote requests: none is sent, and the
  \<open>finally\<close> clause resets the flag. Without peers \<open>gather\<close> does not suspend and the election ends.
\<close>

definition election_timeout_handler :: "raft_node \<Rightarrow> raft_node" where
  "election_timeout_handler n =
     (if raft_state n \<noteq> LEADER \<and> \<not> election_in_progress n then
        (let n1 = start_election_begin n
         in if peers n = [] then finish_election 1 n1 else n1\<lparr>election_in_progress := False\<rparr>)
      else n)"

end
