(* ===== verification/Raft_Replication.thy ===== *)
theory Raft_Replication
  imports Raft_Node
begin

text \<open>
  \<^verbatim>\<open>src/protocols/raft.py\<close>: the leader's replication and commit rule, the two message handlers,
  client appends and the wire format. See \<^verbatim>\<open>Raft_Node\<close> for the parameters.
\<close>

section \<open>Log entries on the wire\<close>

definition entry_to_json :: "log_entry \<Rightarrow> json" where
  "entry_to_json e = JObj [(''term'', JInt (le_term e)), (''index'', JInt (le_index e)),
     (''command'', JStr (le_command e)), (''data'', JObj (le_data e))]"

definition entry_of_json :: "json \<Rightarrow> log_entry result" where
  "entry_of_json j =
     (case j of JObj d \<Rightarrow>
        (case (item_int d ''term'', item_int d ''index'', item_str d ''command'') of
           (Inr t, Inr i, Inr c) \<Rightarrow>
             (case map_of d ''data'' of
                None \<Rightarrow> Inr \<lparr>le_term = t, le_index = i, le_command = c, le_data = []\<rparr>
              | Some (JObj dat) \<Rightarrow> Inr \<lparr>le_term = t, le_index = i, le_command = c, le_data = dat\<rparr>
              | Some _ \<Rightarrow> Inl (TypeError ''data''))
         | _ \<Rightarrow> Inl (TypeError ''entry''))
      | _ \<Rightarrow> Inl (TypeError ''entry''))"

fun entries_of_json :: "json list \<Rightarrow> log_entry list result" where
  "entries_of_json [] = Inr []"
| "entries_of_json (j # js) =
     (case entry_of_json j of Inl x \<Rightarrow> Inl x
      | Inr e \<Rightarrow> (case entries_of_json js of Inl x \<Rightarrow> Inl x | Inr es \<Rightarrow> Inr (e # es)))"

definition get_entries :: "jdict \<Rightarrow> log_entry list result" where
  "get_entries d =
     (case map_of d ''entries'' of None \<Rightarrow> Inr []
      | Some (JArr js) \<Rightarrow> entries_of_json js
      | Some _ \<Rightarrow> Inl (TypeError ''entries''))"

lemma entry_roundtrip [simp]: "entry_of_json (entry_to_json e) = Inr e"
  by (simp add: entry_of_json_def entry_to_json_def item_defs)

lemma entries_roundtrip [simp]: "entries_of_json (map entry_to_json es) = Inr es"
  by (induction es) simp_all

section \<open>The leader's side of replication\<close>

text \<open>The request for one peer, with the locals the response handler needs later.\<close>

definition append_entries_request ::
  "rat \<Rightarrow> raft_node \<Rightarrow> string \<Rightarrow> (int \<times> log_entry list \<times> message) result" where
  "append_entries_request now n peer =
     (case map_of (next_index n) peer of None \<Rightarrow> Inl (KeyError peer)
      | Some ni \<Rightarrow>
        (let prev_log_index = ni - 1;
             prev_log_term =
               (if prev_log_index \<ge> 0 \<and> prev_log_index < int (length (raft_log n))
                then le_term (raft_log n ! nat prev_log_index) else 0);
             entries = (if ni < int (length (raft_log n)) then py_drop ni (raft_log n) else [])
         in Inr (prev_log_index, entries,
              \<lparr>message_type = APPEND_ENTRIES, sender_id = node_id n, msg_term = current_term n,
               msg_data = [(''prev_log_index'', JInt prev_log_index),
                           (''prev_log_term'', JInt prev_log_term),
                           (''entries'', JArr (map entry_to_json entries)),
                           (''leader_commit'', JInt (commit_index n))],
               msg_timestamp = now\<rparr>)))"

definition match_indices :: "raft_node \<Rightarrow> int list option" where
  "match_indices n =
     map_option (\<lambda>ms. sort (ms @ [int (length (raft_log n)) - 1]))
       (those (map (map_of (match_index n)) (peers n)))"

definition update_commit_index ::
  "'a callback list \<Rightarrow> raft_node \<Rightarrow> 'a \<Rightarrow> exn option \<times> raft_node \<times> 'a" where
  "update_commit_index cbs n a =
     (if raft_state n \<noteq> LEADER then (None, n, a)
      else (case match_indices n of None \<Rightarrow> (Some (KeyError ''peer''), n, a)
        | Some ms \<Rightarrow>
           (let k = ms ! (length ms div 2) in
            if k > commit_index n \<and> int (length (raft_log n)) > k then
              (case py_get (raft_log n) k of Inl x \<Rightarrow> (Some x, n, a)
               | Inr e \<Rightarrow> if le_term e = current_term n
                   then apply_committed_entries cbs (n\<lparr>commit_index := k\<rparr>) a
                   else (None, n, a))
            else (None, n, a))))"

text \<open>
  The response of one peer: \<open>None\<close> is a timeout or a network error. Every exception of this part
  is caught and marks the peer as disconnected.
\<close>

definition truthy :: "json \<Rightarrow> bool" where
  "truthy j = (case j of JNull \<Rightarrow> False | JBool b \<Rightarrow> b | JInt i \<Rightarrow> i \<noteq> 0 | JFloat r \<Rightarrow> r \<noteq> 0
     | JStr s \<Rightarrow> s \<noteq> [] | JArr xs \<Rightarrow> xs \<noteq> [] | JObj d \<Rightarrow> d \<noteq> [])"

definition success_flag :: "message \<Rightarrow> bool" where
  "success_flag r = (case map_of (msg_data r) ''success'' of None \<Rightarrow> False | Some v \<Rightarrow> truthy v)"

definition set_connected :: "string \<Rightarrow> bool \<Rightarrow> raft_node \<Rightarrow> raft_node" where
  "set_connected p b n = n\<lparr>peers_connected := dict_set (peers_connected n) p b\<rparr>"

definition on_append_response ::
  "'a callback list \<Rightarrow> string \<Rightarrow> int \<Rightarrow> log_entry list \<Rightarrow> message option \<Rightarrow> raft_node \<Rightarrow> 'a
     \<Rightarrow> bool \<times> raft_node \<times> 'a" where
  "on_append_response cbs peer prev_log_index entries resp n a =
     (case resp of None \<Rightarrow> (False, set_connected peer False n, a)
      | Some r \<Rightarrow>
        if success_flag r then
          (case map_of (match_index n) peer of None \<Rightarrow> (False, set_connected peer False n, a)
           | Some m \<Rightarrow>
              (let m' = max m (prev_log_index + int (length entries));
                   n1 = n\<lparr>match_index := dict_set (match_index n) peer m',
                          next_index := dict_set (next_index n) peer (m' + 1)\<rparr>;
                   n2 = set_connected peer True n1
               in case update_commit_index cbs n2 a of
                    (Some x, n3, a') \<Rightarrow> (False, set_connected peer False n3, a')
                  | (None, n3, a') \<Rightarrow> (True, n3, a')))
        else
          (let n1 = (if msg_term r > current_term n then step_down (msg_term r) n else n) in
           case map_of (next_index n1) peer of None \<Rightarrow> (False, set_connected peer False n1, a)
           | Some ni \<Rightarrow>
              (False,
               if ni > 0 then n1\<lparr>next_index := dict_set (next_index n1) peer (ni - 1)\<rparr> else n1, a)))"

text \<open>
  \<open>gather\<close> over the peers: all requests are built first, then the responses are handled, here in
  the order of the peers. A missing key while building a request ends that peer's task only.
\<close>

fun gather_appends ::
  "'a callback list \<Rightarrow> (string \<Rightarrow> message \<Rightarrow> message option)
     \<Rightarrow> (string \<times> (int \<times> log_entry list \<times> message) result) list
     \<Rightarrow> raft_node \<Rightarrow> 'a \<Rightarrow> raft_node \<times> 'a" where
  "gather_appends cbs send [] n a = (n, a)"
| "gather_appends cbs send ((peer, Inl x) # reqs) n a = gather_appends cbs send reqs n a"
| "gather_appends cbs send ((peer, Inr (prev, entries, m)) # reqs) n a =
     (let (b, n', a') = on_append_response cbs peer prev entries (send peer m) n a
      in gather_appends cbs send reqs n' a')"

definition send_append_entries_to_all ::
  "'a callback list \<Rightarrow> (string \<Rightarrow> message \<Rightarrow> message option) \<Rightarrow> rat \<Rightarrow> raft_node \<Rightarrow> 'a
     \<Rightarrow> raft_node \<times> 'a" where
  "send_append_entries_to_all cbs send now n a =
     gather_appends cbs send (map (\<lambda>p. (p, append_entries_request now n p)) (peers n)) n a"

text \<open>
  The same within the heartbeat task: stepping down on an answer of a higher term cancels that task
  (\<open>heartbeat_timer\<close> changes), and with it the requests still waiting for their answer.
\<close>

fun gather_heartbeats ::
  "'a callback list \<Rightarrow> (string \<Rightarrow> message \<Rightarrow> message option)
     \<Rightarrow> (string \<times> (int \<times> log_entry list \<times> message) result) list
     \<Rightarrow> raft_node \<Rightarrow> 'a \<Rightarrow> raft_node \<times> 'a" where
  "gather_heartbeats cbs send [] n a = (n, a)"
| "gather_heartbeats cbs send ((peer, Inl x) # reqs) n a = gather_heartbeats cbs send reqs n a"
| "gather_heartbeats cbs send ((peer, Inr (prev, entries, m)) # reqs) n a =
     (let (b, n', a') = on_append_response cbs peer prev entries (send peer m) n a
      in if heartbeat_timer n' \<noteq> heartbeat_timer n then (n', a') else gather_heartbeats cbs send reqs n' a')"

text \<open>One turn of \<open>_heartbeat_loop\<close>: the loop's guard and the requests to all peers.\<close>

definition heartbeat_turn ::
  "'a callback list \<Rightarrow> (string \<Rightarrow> message \<Rightarrow> message option) \<Rightarrow> rat \<Rightarrow> raft_node \<Rightarrow> 'a
     \<Rightarrow> (raft_node \<times> 'a) option" where
  "heartbeat_turn cbs send now n a =
     (if raft_state n = LEADER
      then Some (gather_heartbeats cbs send (map (\<lambda>p. (p, append_entries_request now n p)) (peers n)) n a)
      else None)"

definition new_entry :: "raft_node \<Rightarrow> string \<Rightarrow> jdict \<Rightarrow> log_entry" where
  "new_entry n command data =
     \<lparr>le_term = current_term n, le_index = int (length (raft_log n)),
      le_command = command, le_data = data\<rparr>"

definition append_local :: "string \<Rightarrow> jdict \<Rightarrow> raft_node \<Rightarrow> raft_node" where
  "append_local command data n = n\<lparr>raft_log := raft_log n @ [new_entry n command data]\<rparr>"

definition append_entry ::
  "'a callback list \<Rightarrow> (string \<Rightarrow> message \<Rightarrow> message option) \<Rightarrow> rat \<Rightarrow> string \<Rightarrow> jdict
     \<Rightarrow> raft_node \<times> 'a \<Rightarrow> bool result \<times> (raft_node \<times> 'a)" where
  "append_entry cbs send now command data w =
     (let (n, a) = w in
      if raft_state n \<noteq> LEADER then (Inr False, (n, a))
      else (let n1 = append_local command data n in
            if peers n1 = [] then
              (case apply_committed_entries cbs
                      (n1\<lparr>commit_index := le_index (new_entry n command data)\<rparr>) a of
                 (Some x, n2, a') \<Rightarrow> (Inl x, (n2, a'))
               | (None, n2, a') \<Rightarrow> (Inr True, (n2, a')))
            else (Inr True, send_append_entries_to_all cbs send now n1 a)))"

section \<open>The follower's side: message handlers\<close>

definition handle_request_vote :: "rat \<Rightarrow> message \<Rightarrow> raft_node \<Rightarrow> message result \<times> raft_node" where
  "handle_request_vote now m n =
     (let reply = (\<lambda>grant. \<lparr>message_type = VOTE_RESPONSE, sender_id = node_id n,
                     msg_term = current_term n, msg_data = [(''vote_granted'', JBool grant)],
                     msg_timestamp = now\<rparr>)
      in if msg_term m < current_term n then (Inr (reply False), n)
         else if msg_term m = current_term n \<and> voted_for n \<noteq> None \<and> voted_for n \<noteq> Some (sender_id m)
         then (Inr (reply False), n)
         else
           (case (get_int (msg_data m) ''last_log_term'' 0, get_int (msg_data m) ''last_log_index'' 0) of
              (Inr t, Inr i) \<Rightarrow>
                if t > last_log_term n \<or> (t = last_log_term n \<and> i \<ge> last_log_index n)
                then (Inr (reply True), reset_election_timer (n\<lparr>voted_for := Some (sender_id m)\<rparr>))
                else (Inr (reply False), n)
            | (Inl x, _) \<Rightarrow> (Inl x, n)
            | (_, Inl x) \<Rightarrow> (Inl x, n)))"

text \<open>The loop over the received entries: \<open>idx\<close> is the position of the first one.\<close>

fun merge_entries :: "int \<Rightarrow> log_entry list \<Rightarrow> log_entry list \<Rightarrow> exn option \<times> log_entry list" where
  "merge_entries idx lg [] = (None, lg)"
| "merge_entries idx lg (e # es) =
     (case (if idx < int (length lg)
            then (case py_get lg idx of Inl x \<Rightarrow> Inl x
                  | Inr old \<Rightarrow> Inr (if le_term old \<noteq> le_term e then py_take idx lg else lg))
            else Inr lg) of
        Inl x \<Rightarrow> (Some x, lg)
      | Inr lg1 \<Rightarrow>
          merge_entries (idx + 1) (if idx \<ge> int (length lg1) then lg1 @ [e] else lg1) es)"

definition prev_entry_matches :: "log_entry list \<Rightarrow> int \<Rightarrow> int \<Rightarrow> bool result" where
  "prev_entry_matches lg prev_log_index prev_log_term =
     (if prev_log_index < int (length lg) then
        (if prev_log_index = -1 then Inr True
         else (case py_get lg prev_log_index of Inl x \<Rightarrow> Inl x
               | Inr e \<Rightarrow> Inr (le_term e = prev_log_term)))
      else Inr False)"

definition advance_commit ::
  "'a callback list \<Rightarrow> int \<Rightarrow> raft_node \<Rightarrow> 'a \<Rightarrow> exn option \<times> raft_node \<times> 'a" where
  "advance_commit cbs leader_commit n a =
     (if leader_commit > commit_index n then
        apply_committed_entries cbs
          (n\<lparr>commit_index := min leader_commit (int (length (raft_log n)) - 1)\<rparr>) a
      else (None, n, a))"

definition append_response :: "rat \<Rightarrow> bool \<Rightarrow> raft_node \<Rightarrow> message" where
  "append_response now success n =
     \<lparr>message_type = APPEND_RESPONSE, sender_id = node_id n, msg_term = current_term n,
      msg_data = [(''success'', JBool success),
                  (''match_index'', JInt (if success then int (length (raft_log n)) - 1 else 0))],
      msg_timestamp = now\<rparr>"

definition accept_leader :: "string \<Rightarrow> raft_node \<Rightarrow> raft_node" where
  "accept_leader leader n =
     (let n1 = reset_election_timer n;
          n2 = (if raft_state n1 \<noteq> FOLLOWER then become_follower (Some leader) n1 else n1)
      in n2\<lparr>leader_id := Some leader\<rparr>)"

text \<open>Storing the entries and moving the commit index, once the previous entry matched.\<close>

definition accept_entries ::
  "'a callback list \<Rightarrow> int \<Rightarrow> jdict \<Rightarrow> raft_node \<Rightarrow> 'a \<Rightarrow> exn option \<times> raft_node \<times> 'a" where
  "accept_entries cbs prev_log_index data n a =
     (case get_entries data of Inl x \<Rightarrow> (Some x, n, a)
      | Inr es \<Rightarrow>
         (case merge_entries (prev_log_index + 1) (raft_log n) es of
            (Some x, lg) \<Rightarrow> (Some x, n\<lparr>raft_log := lg\<rparr>, a)
          | (None, lg) \<Rightarrow>
             (case get_int data ''leader_commit'' 0 of Inl x \<Rightarrow> (Some x, n\<lparr>raft_log := lg\<rparr>, a)
              | Inr lc \<Rightarrow> advance_commit cbs lc (n\<lparr>raft_log := lg\<rparr>) a)))"

definition handle_append_entries ::
  "'a callback list \<Rightarrow> rat \<Rightarrow> message \<Rightarrow> raft_node \<Rightarrow> 'a \<Rightarrow> message result \<times> raft_node \<times> 'a" where
  "handle_append_entries cbs now m n a =
     (let n1 = accept_leader (sender_id m) n in
      case (get_int (msg_data m) ''prev_log_index'' 0, get_int (msg_data m) ''prev_log_term'' 0) of
        (Inr pli, Inr plt) \<Rightarrow>
          (case prev_entry_matches (raft_log n1) pli plt of
             Inl x \<Rightarrow> (Inl x, n1, a)
           | Inr False \<Rightarrow> (Inr (append_response now False n1), n1, a)
           | Inr True \<Rightarrow>
               (case accept_entries cbs pli (msg_data m) n1 a of
                  (Some x, n2, a') \<Rightarrow> (Inl x, n2, a')
                | (None, n2, a') \<Rightarrow> (Inr (append_response now True n2), n2, a')))
      | (Inl x, _) \<Rightarrow> (Inl x, n1, a)
      | (_, Inl x) \<Rightarrow> (Inl x, n1, a))"

definition handle_message ::
  "'a callback list \<Rightarrow> rat \<Rightarrow> message \<Rightarrow> raft_node \<Rightarrow> 'a \<Rightarrow> message result \<times> raft_node \<times> 'a" where
  "handle_message cbs now m n a =
     (let n1 = (if msg_term m > current_term n then step_down (msg_term m) n else n) in
      case message_type m of
        REQUEST_VOTE \<Rightarrow> (let (r, n2) = handle_request_vote now m n1 in (r, n2, a))
      | APPEND_ENTRIES \<Rightarrow> handle_append_entries cbs now m n1 a
      | t \<Rightarrow> (Inr \<lparr>message_type = t, sender_id = node_id n1, msg_term = current_term n1,
                  msg_data = [(''error'', JStr (''Unsupported message type: MessageType.'' @ py_upper (message_type_value t)))],
                  msg_timestamp = now\<rparr>, n1, a))"

section \<open>The wire format of messages\<close>

text \<open>
  \<open>isoformat\<close> and \<open>fromisoformat\<close> are \<open>datetime.isoformat\<close> and \<open>datetime.fromisoformat\<close>.
  The f-string of the error text above prints the class and the name of the member, and the names
  are the values in upper case.
\<close>

definition message_to_dict :: "(rat \<Rightarrow> string) \<Rightarrow> message \<Rightarrow> jdict" where
  "message_to_dict isoformat m =
     [(''message_type'', JStr (message_type_value (message_type m))),
      (''sender_id'', JStr (sender_id m)),
      (''term'', JInt (msg_term m)),
      (''data'', JObj (msg_data m)),
      (''timestamp'', JStr (isoformat (msg_timestamp m)))]"

definition message_from_dict :: "(string \<Rightarrow> rat result) \<Rightarrow> rat \<Rightarrow> jdict \<Rightarrow> message result" where
  "message_from_dict fromisoformat now d =
     (case item_str d ''message_type'' of Inl x \<Rightarrow> Inl x | Inr ts \<Rightarrow>
      case message_type_of ts of Inl x \<Rightarrow> Inl x | Inr t \<Rightarrow>
      case item_str d ''sender_id'' of Inl x \<Rightarrow> Inl x | Inr s \<Rightarrow>
      case item_int d ''term'' of Inl x \<Rightarrow> Inl x | Inr k \<Rightarrow>
      case (case map_of d ''data'' of None \<Rightarrow> Inr [] | Some (JObj dat) \<Rightarrow> Inr dat
            | Some _ \<Rightarrow> Inl (TypeError ''data'')) of Inl x \<Rightarrow> Inl x | Inr dat \<Rightarrow>
      case (case map_of d ''timestamp'' of Some v \<Rightarrow>
              (if truthy v then (case as_str v of Inl x \<Rightarrow> Inl x | Inr u \<Rightarrow> fromisoformat u) else Inr now)
            | None \<Rightarrow> Inr now) of Inl x \<Rightarrow> Inl x | Inr ts' \<Rightarrow>
      Inr \<lparr>message_type = t, sender_id = s, msg_term = k, msg_data = dat, msg_timestamp = ts'\<rparr>)"

definition peer_url :: "string \<Rightarrow> string" where
  "peer_url peer =
     (let has_scheme = (\<lambda>p. take (length p) peer = p) in
      (if has_scheme ''http://'' \<or> has_scheme ''https://''
       then rev (dropWhile (\<lambda>c. c = CHR ''/'') (rev peer)) else ''http://'' @ peer)
      @ ''/raft/message'')"

section \<open>Accessors\<close>

definition is_leader :: "raft_node \<Rightarrow> bool" where
  "is_leader n \<longleftrightarrow> raft_state n = LEADER"

definition get_leader :: "raft_node \<Rightarrow> string option" where
  "get_leader n = leader_id n"

definition get_state :: "raft_node \<Rightarrow> node_state" where
  "get_state n = raft_state n"

end
