(* ===== verification/Raft_Apply.thy ===== *)
theory Raft_Apply
  imports Raft_Replication
begin

text \<open>
  How committed entries reach the services. The loop \<open>_apply_committed_entries\<close> is shown equal to
  feeding a slice of the log to the callbacks. The locale \<open>commit_listener\<close> is the contract a
  service's commit callback has with the node (it keeps the service's invariant), and
  \<open>raft_client\<close> the contract \<open>append_entry\<close> has with a service that awaits it; the first gives
  the second for every network.
\<close>

section \<open>The apply loop as a feed of log entries\<close>

fun feed :: "'a callback list \<Rightarrow> log_entry list \<Rightarrow> 'a \<Rightarrow> exn option \<times> nat \<times> 'a" where
  "feed cbs [] a = (None, 0, a)"
| "feed cbs (e # es) a =
     (case run_callbacks cbs e a of
        (Some x, a') \<Rightarrow> (Some x, 1, a')
      | (None, a') \<Rightarrow> (case feed cbs es a' of (x, k, a'') \<Rightarrow> (x, Suc k, a'')))"

definition pending_entries :: "raft_node \<Rightarrow> log_entry list" where
  "pending_entries n =
     take (nat (commit_index n - last_applied n)) (drop (nat (last_applied n + 1)) (raft_log n))"

lemma pending_entries_step:
  assumes "-1 \<le> last_applied n" and "last_applied n < commit_index n"
    and "commit_index n < int (length (raft_log n))"
  shows "pending_entries n =
           raft_log n ! nat (last_applied n + 1)
             # pending_entries (n\<lparr>last_applied := last_applied n + 1\<rparr>)"
proof -
  let ?i = "nat (last_applied n + 1)" and ?k = "nat (commit_index n - (last_applied n + 1))"
  have "?i < length (raft_log n)" using assms by linarith
  then have "drop ?i (raft_log n) = raft_log n ! ?i # drop (Suc ?i) (raft_log n)"
    by (simp add: Cons_nth_drop_Suc)
  moreover have "nat (commit_index n - last_applied n) = Suc ?k"
    and "nat (last_applied n + 1 + 1) = Suc ?i" using assms by linarith+
  ultimately show ?thesis by (simp add: pending_entries_def)
qed

lemma pending_entries_none: "commit_index n \<le> last_applied n \<Longrightarrow> pending_entries n = []"
  by (simp add: pending_entries_def)

lemma length_pending:
  "-1 \<le> last_applied n \<Longrightarrow> last_applied n \<le> commit_index n
     \<Longrightarrow> commit_index n < int (length (raft_log n))
     \<Longrightarrow> int (length (pending_entries n)) = commit_index n - last_applied n"
  by (simp add: pending_entries_def)

lemma apply_feed:
  assumes "-1 \<le> last_applied n" and "commit_index n < int (length (raft_log n))"
  shows "apply_committed_entries cbs n a =
           (case feed cbs (pending_entries n) a of
              (x, k, a') \<Rightarrow> (x, n\<lparr>last_applied := last_applied n + int k\<rparr>, a'))"
  using assms
proof (induction cbs n a rule: apply_committed_entries.induct)
  case (1 cbs n a)
  show ?case
  proof (cases "last_applied n < commit_index n")
    case False
    then show ?thesis
      by (simp add: apply_committed_entries.simps[of cbs n a] pending_entries_none)
  next
    case True
    let ?n = "n\<lparr>last_applied := last_applied n + 1\<rparr>"
    let ?e = "raft_log n ! nat (last_applied n + 1)"
    have get: "py_get (raft_log ?n) (last_applied ?n) = Inr ?e"
      using True "1.prems" by (simp add: py_get_in)
    have pend: "pending_entries n = ?e # pending_entries ?n"
      using True "1.prems" by (intro pending_entries_step) auto
    show ?thesis
    proof (cases "run_callbacks cbs ?e a")
      case (Pair x a')
      show ?thesis
      proof (cases x)
        case (Some y)
        then show ?thesis using True get Pair
          by (simp add: apply_committed_entries.simps[of cbs n a] pend Let_def)
      next
        case None
        have "apply_committed_entries cbs ?n a' =
           (case feed cbs (pending_entries ?n) a' of
              (x, k, a') \<Rightarrow> (x, ?n\<lparr>last_applied := last_applied ?n + int k\<rparr>, a'))"
          using "1.IH"[OF True refl get _ None] Pair "1.prems" by simp
        then show ?thesis using True get Pair None
          by (simp add: apply_committed_entries.simps[of cbs n a] pend Let_def split: prod.splits)
      qed
    qed
  qed
qed

lemma feed_count_le: "feed cbs es a = (x, k, a') \<Longrightarrow> k \<le> length es"
  by (induction es arbitrary: a x k a') (fastforce split: prod.splits option.splits)+

lemma feed_complete: "feed cbs es a = (None, k, a') \<Longrightarrow> k = length es"
  by (induction es arbitrary: a k a') (fastforce split: prod.splits option.splits)+

lemma feed_raise: "feed cbs es a = (Some x, k, a') \<Longrightarrow>
    \<exists>e\<in>set es. \<exists>b. fst (run_callbacks cbs e b) = Some x"
proof (induction es arbitrary: a k a')
  case Nil
  then show ?case by simp
next
  case (Cons e es)
  show ?case
  proof (cases "run_callbacks cbs e a")
    case (Pair y b)
    then show ?thesis
    proof (cases y)
      case None
      with Cons.prems Pair obtain k' where "feed cbs es b = (Some x, k', a')"
        by (auto split: prod.splits)
      from Cons.IH[OF this] show ?thesis by auto
    next
      case (Some z)
      with Cons.prems Pair have "fst (run_callbacks cbs e a) = Some x" by simp
      then show ?thesis by (meson list.set_intros(1))
    qed
  qed
qed

text \<open>Nothing but \<open>last_applied\<close> changes in the node while entries are applied.\<close>

lemma apply_frame:
  "apply_committed_entries cbs n a = (x, n', a') \<Longrightarrow> \<exists>k. n' = n\<lparr>last_applied := k\<rparr>"
proof (induction cbs n a arbitrary: x n' a' rule: apply_committed_entries.induct)
  case (1 cbs n a)
  have self: "\<exists>k. n = n\<lparr>last_applied := k\<rparr>"
    by (rule exI[of _ "last_applied n"]) simp
  show ?case
  proof (cases "last_applied n < commit_index n")
    case False
    then show ?thesis using "1.prems" self by (simp add: apply_committed_entries.simps[of cbs n a])
  next
    case True
    let ?n = "n\<lparr>last_applied := last_applied n + 1\<rparr>"
    show ?thesis
      using "1.prems" "1.IH"[OF True refl] True
      by (auto simp: apply_committed_entries.simps[of cbs n a] Let_def
          split: sum.splits prod.splits option.splits)
  qed
qed

lemma apply_applied_ge:
  "apply_committed_entries cbs n a = (x, n', a') \<Longrightarrow> last_applied n \<le> last_applied n'"
proof (induction cbs n a arbitrary: x n' a' rule: apply_committed_entries.induct)
  case (1 cbs n a)
  show ?case
  proof (cases "last_applied n < commit_index n")
    case False
    then show ?thesis using "1.prems" by (simp add: apply_committed_entries.simps[of cbs n a])
  next
    case True
    show ?thesis
      using "1.prems" "1.IH"[OF True refl] True
      by (auto simp: apply_committed_entries.simps[of cbs n a] Let_def
          split: sum.splits prod.splits option.splits) fastforce
  qed
qed

section \<open>What the node keeps while entries are applied\<close>

lemma apply_keeps:
  assumes "apply_committed_entries cbs n a = (x, n', a')"
  shows "node_id n' = node_id n" "peers n' = peers n" "current_term n' = current_term n"
    "voted_for n' = voted_for n" "raft_log n' = raft_log n" "commit_index n' = commit_index n"
    "raft_state n' = raft_state n" "leader_id n' = leader_id n" "next_index n' = next_index n"
    "match_index n' = match_index n" "election_in_progress n' = election_in_progress n"
  using apply_frame[OF assms] by auto

section \<open>The contract of a commit callback\<close>

locale commit_listener =
  fixes cb :: "'a callback" and inv :: "'a \<Rightarrow> bool"
  assumes cb_inv: "inv a \<Longrightarrow> inv (snd (cb e a))"
begin

lemma run_inv: "inv a \<Longrightarrow> inv (snd (run_callbacks [cb] e a))"
  using cb_inv[of a e] by (auto split: prod.splits option.splits)

lemma apply_inv:
  "inv a \<Longrightarrow> apply_committed_entries [cb] n a = (x, n', a') \<Longrightarrow> inv a'"
proof (induction "[cb]" n a arbitrary: x n' a' rule: apply_committed_entries.induct)
  case (1 n a)
  show ?case
  proof (cases "last_applied n < commit_index n")
    case False
    then show ?thesis using "1.prems" by (simp add: apply_committed_entries.simps[of "[cb]" n a])
  next
    case True
    let ?n = "n\<lparr>last_applied := last_applied n + 1\<rparr>"
    note unfold = apply_committed_entries.simps[of "[cb]" n a]
    show ?thesis
    proof (cases "py_get (raft_log ?n) (last_applied ?n)")
      case (Inl y)
      then show ?thesis using True "1.prems" by (simp add: unfold Let_def)
    next
      case (Inr e)
      obtain y b where run: "run_callbacks [cb] e a = (y, b)" by (cases "run_callbacks [cb] e a")
      have b: "inv b" using run_inv[OF "1.prems"(1), of e] run by simp
      show ?thesis
      proof (cases y)
        case None
        have "apply_committed_entries [cb] ?n b = (x, n', a')"
          using True Inr run None "1.prems"(2) by (simp add: unfold Let_def del: run_callbacks.simps)
        with "1.hyps"[OF True refl Inr _ None] run b show ?thesis by simp
      next
        case (Some z)
        then show ?thesis using True Inr run b "1.prems"(2)
          by (simp add: unfold Let_def del: run_callbacks.simps)
      qed
    qed
  qed
qed

lemma update_commit_inv:
  "inv a \<Longrightarrow> update_commit_index [cb] n a = (x, n', a') \<Longrightarrow> inv a'"
  by (auto simp: update_commit_index_def Let_def dest: apply_inv
      split: if_splits option.splits sum.splits)

lemma on_append_response_inv:
  "inv a \<Longrightarrow> on_append_response [cb] p k es resp n a = (b, n', a') \<Longrightarrow> inv a'"
  by (auto simp: on_append_response_def Let_def dest: update_commit_inv
      split: if_splits option.splits prod.splits)

lemma gather_appends_inv:
  "inv a \<Longrightarrow> gather_appends [cb] send reqs n a = (n', a') \<Longrightarrow> inv a'"
  by (induction "[cb]" send reqs n a rule: gather_appends.induct)
    (auto split: prod.splits dest: on_append_response_inv)

lemma send_all_inv:
  "inv a \<Longrightarrow> inv (snd (send_append_entries_to_all [cb] send now n a))"
  unfolding send_append_entries_to_all_def by (metis gather_appends_inv prod.collapse)

lemma append_entry_inv:
  "inv (snd w) \<Longrightarrow> inv (snd (snd (append_entry [cb] send now c d w)))"
  by (cases w) (auto simp: append_entry_def Let_def
      dest: apply_inv send_all_inv split: if_splits prod.splits option.splits)

lemma handle_message_inv:
  "inv a \<Longrightarrow> handle_message [cb] now m n a = (r, n', a') \<Longrightarrow> inv a'"
  by (auto simp: handle_message_def handle_append_entries_def accept_entries_def
      advance_commit_def Let_def dest: apply_inv
      split: message_type.splits if_splits option.splits prod.splits sum.splits bool.splits)

end

section \<open>The contract of \<open>append_entry\<close> with the services that await it\<close>

text \<open>
  \<open>raft_append\<close> is the whole effect of \<open>await raft_node.append_entry(...)\<close> on the node \<open>'r\<close> and on the
  service's own state \<open>'s\<close>, everything that ran meanwhile included.
\<close>

locale raft_client =
  fixes raft_append :: "string \<Rightarrow> jdict \<Rightarrow> 'r \<times> 's \<Rightarrow> bool result \<times> ('r \<times> 's)"
    and inv :: "'s \<Rightarrow> bool"
  assumes append_inv: "inv (snd w) \<Longrightarrow> inv (snd (snd (raft_append c d w)))"
begin

lemma append_inv_eq: "raft_append c d w = (r, w') \<Longrightarrow> inv (snd w) \<Longrightarrow> inv (snd w')"
  using append_inv[of w c d] by simp

end

sublocale commit_listener \<subseteq> client: raft_client "append_entry [cb] send now" inv for send now
  by unfold_locales (rule append_entry_inv)

end
