(* ===== verification/Raft_Steps.thy ===== *)
theory Raft_Steps
  imports Raft_Apply
begin

text \<open>
  The node as a state machine: \<open>raft_step\<close> has one rule per atomic segment of the class, with the
  data a segment receives from outside (messages, responses, the captured locals of a request)
  unconstrained. What holds along every run of \<open>raft_step\<close> holds whatever the network, the peers
  and the scheduler do.
\<close>

section \<open>The step relation\<close>

inductive raft_step :: "'a callback list \<Rightarrow> raft_node \<times> 'a \<Rightarrow> raft_node \<times> 'a \<Rightarrow> bool"
  for cbs :: "'a callback list" where
  rs_start: "raft_step cbs (n, a) (raft_start n, a)"
| rs_timeout: "raft_step cbs (n, a) (election_timeout_handler n, a)"
| rs_begin: "\<not> election_in_progress n \<Longrightarrow> raft_step cbs (n, a) (start_election_begin n, a)"
| rs_vote: "raft_step cbs (n, a) (snd (on_vote_response r n), a)"
| rs_finish: "raft_step cbs (n, a) (finish_election k n, a)"
| rs_response: "on_append_response cbs p i es r n a = (b, n', a') \<Longrightarrow> raft_step cbs (n, a) (n', a')"
| rs_message: "handle_message cbs now m n a = (x, n', a') \<Longrightarrow> raft_step cbs (n, a) (n', a')"
| rs_client: "raft_state n = LEADER \<Longrightarrow> peers n \<noteq> [] \<Longrightarrow> raft_step cbs (n, a) (append_local c d n, a)"
| rs_client_single: "peers n = [] \<Longrightarrow> append_entry cbs send now c d (n, a) = (x, w) \<Longrightarrow> raft_step cbs (n, a) w"

abbreviation raft_run :: "'a callback list \<Rightarrow> raft_node \<times> 'a \<Rightarrow> raft_node \<times> 'a \<Rightarrow> bool" where
  "raft_run cbs \<equiv> (raft_step cbs)\<^sup>*\<^sup>*"

section \<open>The composite operations are runs of segments\<close>

lemma gather_votes_run: "gather_votes rs n = (k, n') \<Longrightarrow> raft_run cbs (n, a) (n', a)"
proof (induction rs n arbitrary: k n' rule: gather_votes.induct)
  case (1 n)
  then show ?case by simp
next
  case (2 r rs n)
  obtain g n1 where v: "on_vote_response r n = (g, n1)" by (cases "on_vote_response r n")
  obtain k2 n2 where g: "gather_votes rs n1 = (k2, n2)" by (cases "gather_votes rs n1")
  have "raft_step cbs (n, a) (n1, a)" using rs_vote[of cbs n a r] v by simp
  moreover have "raft_run cbs (n1, a) (n2, a)" using "2.IH" v g by simp
  ultimately show ?case using "2.prems" v g by (simp add: converse_rtranclp_into_rtranclp)
qed

lemma start_election_run: "raft_run cbs (n, a) (start_election send now n, a)"
proof (cases "election_in_progress n")
  case True
  then show ?thesis by (simp add: start_election_def)
next
  case False
  let ?n1 = "start_election_begin n"
  obtain k n2 where g: "gather_votes (map (\<lambda>p. send p (request_vote_message now ?n1)) (peers ?n1)) ?n1 = (k, n2)"
    by (cases "gather_votes (map (\<lambda>p. send p (request_vote_message now ?n1)) (peers ?n1)) ?n1")
  have "raft_step cbs (n, a) (?n1, a)" using False by (rule rs_begin)
  moreover have "raft_run cbs (?n1, a) (n2, a)" using g by (rule gather_votes_run)
  moreover have "raft_step cbs (n2, a) (finish_election (1 + k) n2, a)" by (rule rs_finish)
  ultimately have "raft_run cbs (n, a) (finish_election (1 + k) n2, a)" by simp
  then show ?thesis using False g by (simp add: start_election_def Let_def)
qed

lemma gather_appends_run:
  "gather_appends cbs send reqs n a = (n', a') \<Longrightarrow> raft_run cbs (n, a) (n', a')"
proof (induction cbs send reqs n a arbitrary: n' a' rule: gather_appends.induct)
  case (3 cbs send peer prev es m reqs n a)
  obtain b n1 a1 where r: "on_append_response cbs peer prev es (send peer m) n a = (b, n1, a1)"
    by (metis prod_cases3)
  then have "raft_step cbs (n, a) (n1, a1)" by (rule rs_response)
  moreover have "raft_run cbs (n1, a1) (n', a')" using 3 r by simp
  ultimately show ?case by (rule converse_rtranclp_into_rtranclp)
qed simp_all

lemma gather_heartbeats_run:
  "gather_heartbeats cbs send reqs n a = (n', a') \<Longrightarrow> raft_run cbs (n, a) (n', a')"
proof (induction cbs send reqs n a arbitrary: n' a' rule: gather_heartbeats.induct)
  case (3 cbs send peer prev es m reqs n a)
  obtain b n1 a1 where r: "on_append_response cbs peer prev es (send peer m) n a = (b, n1, a1)"
    by (metis prod_cases3)
  then have "raft_step cbs (n, a) (n1, a1)" by (rule rs_response)
  moreover have "raft_run cbs (n1, a1) (n', a')" using 3 r by (auto split: if_splits)
  ultimately show ?case by (rule converse_rtranclp_into_rtranclp)
qed simp_all

lemma append_entry_run: "append_entry cbs send now c d (n, a) = (x, w) \<Longrightarrow> raft_run cbs (n, a) w"
proof (cases "raft_state n = LEADER \<and> peers n \<noteq> []")
  case True
  assume app: "append_entry cbs send now c d (n, a) = (x, w)"
  obtain n' a' where w: "w = (n', a')" by (cases w)
  have "raft_step cbs (n, a) (append_local c d n, a)" using True by (intro rs_client) auto
  moreover have "gather_appends cbs send
      (map (\<lambda>p. (p, append_entries_request now (append_local c d n) p)) (peers (append_local c d n)))
      (append_local c d n) a = (n', a')"
    using app True w
    by (simp add: append_entry_def append_local_def send_append_entries_to_all_def Let_def)
  then have "raft_run cbs (append_local c d n, a) (n', a')" by (rule gather_appends_run)
  ultimately show ?thesis using w by (simp add: converse_rtranclp_into_rtranclp)
next
  case False
  assume app: "append_entry cbs send now c d (n, a) = (x, w)"
  show ?thesis
  proof (cases "peers n = []")
    case True
    then show ?thesis using app by (auto intro: rs_client_single)
  next
    case False
    with \<open>\<not> (raft_state n = LEADER \<and> peers n \<noteq> [])\<close> app show ?thesis
      by (simp add: append_entry_def)
  qed
qed

section \<open>Terms only grow and a vote is final within a term\<close>

definition raft_le :: "raft_node \<Rightarrow> raft_node \<Rightarrow> bool" where
  "raft_le n n' \<longleftrightarrow> node_id n' = node_id n \<and> peers n' = peers n
     \<and> (current_term n < current_term n'
        \<or> current_term n = current_term n' \<and> (voted_for n = None \<or> voted_for n' = voted_for n))"

lemma raft_le_refl [simp, intro]: "raft_le n n"
  by (simp add: raft_le_def)

lemma raft_le_trans: "raft_le n n' \<Longrightarrow> raft_le n' n'' \<Longrightarrow> raft_le n n''"
  by (auto simp: raft_le_def)

lemma raft_le_same:
  "node_id n' = node_id n \<Longrightarrow> peers n' = peers n \<Longrightarrow> current_term n' = current_term n
     \<Longrightarrow> voted_for n' = voted_for n \<Longrightarrow> raft_le n n'"
  by (simp add: raft_le_def)

named_theorems node_ops "definitions of the small operations on a node"

lemmas [node_ops] = reset_election_timer_def start_heartbeat_def raft_start_def become_leader_def
  become_follower_def step_down_def start_election_begin_def set_connected_def accept_leader_def
  append_local_def Let_def

lemma step_down_le: "current_term n < t \<Longrightarrow> raft_le n (step_down t n)"
  by (simp add: raft_le_def node_ops)

lemma begin_le: "raft_le n (start_election_begin n)"
  by (simp add: raft_le_def node_ops)

lemma finish_le: "raft_le n (finish_election k n)"
  by (simp add: raft_le_def finish_election_def node_ops)

lemma timeout_le: "raft_le n (election_timeout_handler n)"
  by (simp add: raft_le_def election_timeout_handler_def finish_election_def node_ops)

lemma vote_response_le: "raft_le n (snd (on_vote_response r n))"
  by (cases r) (simp_all add: on_vote_response_def step_down_le)

lemma apply_le: "apply_committed_entries cbs n a = (x, n', a') \<Longrightarrow> raft_le n n'"
  by (rule raft_le_same) (simp_all add: apply_keeps)

lemma update_commit_keeps:
  assumes "update_commit_index cbs n a = (x, n', a')"
  shows "\<exists>c k. n' = n\<lparr>commit_index := c, last_applied := k\<rparr>"
proof -
  have self: "\<exists>c k. n = n\<lparr>commit_index := c, last_applied := k\<rparr>"
    by (intro exI[of _ "commit_index n"] exI[of _ "last_applied n"]) simp
  show ?thesis
    using assms self by (auto simp: update_commit_index_def Let_def
        dest!: apply_frame split: if_splits option.splits sum.splits)
qed

lemma update_commit_le: "update_commit_index cbs n a = (x, n', a') \<Longrightarrow> raft_le n n'"
  by (auto dest!: update_commit_keeps simp: raft_le_def)

lemma response_le: "on_append_response cbs p i es r n a = (b, n', a') \<Longrightarrow> raft_le n n'"
  by (fastforce simp: on_append_response_def raft_le_def node_ops dest!: update_commit_keeps
      split: option.splits if_splits prod.splits)

lemma request_vote_le:
  "msg_term m \<le> current_term n \<Longrightarrow> handle_request_vote now m n = (r, n') \<Longrightarrow> raft_le n n'"
  by (auto simp: handle_request_vote_def raft_le_def node_ops split: if_splits sum.splits)

lemma accept_entries_keeps:
  "accept_entries cbs k d n a = (x, n', a') \<Longrightarrow>
     \<exists>lg c j. n' = n\<lparr>raft_log := lg, commit_index := c, last_applied := j\<rparr>"
proof -
  assume acc: "accept_entries cbs k d n a = (x, n', a')"
  have self: "\<exists>lg' c j. n\<lparr>raft_log := lg\<rparr> = n\<lparr>raft_log := lg', commit_index := c, last_applied := j\<rparr>"
    for lg by (intro exI[of _ lg] exI[of _ "commit_index n"] exI[of _ "last_applied n"]) simp
  show ?thesis
    using acc self self[of "raft_log n"]
    by (auto simp: accept_entries_def advance_commit_def dest!: apply_frame
        split: sum.splits prod.splits option.splits if_splits)
qed

lemma append_entries_le: "handle_append_entries cbs now m n a = (r, n', a') \<Longrightarrow> raft_le n n'"
  by (fastforce simp: handle_append_entries_def raft_le_def node_ops dest!: accept_entries_keeps
      split: sum.splits bool.splits option.splits prod.splits if_splits)

lemma message_le:
  assumes "handle_message cbs now m n a = (r, n', a')"
  shows "raft_le n n'"
proof -
  let ?n1 = "if msg_term m > current_term n then step_down (msg_term m) n else n"
  have n1: "raft_le n ?n1" by (simp add: step_down_le)
  have "msg_term m \<le> current_term ?n1" by (simp add: node_ops)
  then have "raft_le ?n1 n'"
    using assms by (auto simp: handle_message_def Let_def dest: request_vote_le append_entries_le
        split: message_type.splits prod.splits)
  with n1 show ?thesis by (rule raft_le_trans)
qed

lemma single_append_le: "append_entry cbs send now c d (n, a) = (x, w) \<Longrightarrow> peers n = [] \<Longrightarrow> raft_le n (fst w)"
  by (auto simp: append_entry_def append_local_def raft_le_def dest!: apply_keeps(1,2,3,4) apply_frame
      split: if_splits prod.splits option.splits)

lemma step_le: "raft_step cbs w w' \<Longrightarrow> raft_le (fst w) (fst w')"
  by (induction rule: raft_step.induct)
    (auto intro: begin_le finish_le timeout_le vote_response_le response_le message_le raft_le_same
      dest: single_append_le simp: raft_start_def reset_election_timer_def append_local_def)

lemma run_le: "raft_run cbs w w' \<Longrightarrow> raft_le (fst w) (fst w')"
  by (induction rule: rtranclp_induct) (auto intro: raft_le_trans step_le)

section \<open>The node's invariant\<close>

text \<open>
  Every peer, and nobody else, has a replication index and none is negative; the commit and apply
  indices are at least \<open>-1\<close>; a candidate and a leader have voted for themselves, and a leader
  names itself.
\<close>

definition peers_indexed :: "raft_node \<Rightarrow> (string, int) dict \<Rightarrow> bool" where
  "peers_indexed n d \<longleftrightarrow> fst ` set d = set (peers n) \<and> (\<forall>(p, v)\<in>set d. 0 \<le> v)"

definition raft_wf :: "raft_node \<Rightarrow> bool" where
  "raft_wf n \<longleftrightarrow> peers_indexed n (next_index n) \<and> peers_indexed n (match_index n)
     \<and> 0 \<le> current_term n \<and> -1 \<le> commit_index n \<and> -1 \<le> last_applied n
     \<and> (raft_state n \<noteq> FOLLOWER \<longrightarrow> voted_for n = Some (node_id n))
     \<and> (raft_state n = LEADER \<longrightarrow> leader_id n = Some (node_id n))"

lemma peers_indexed_set:
  "peers_indexed n d \<Longrightarrow> p \<in> set (peers n) \<Longrightarrow> 0 \<le> v \<Longrightarrow> peers_indexed n (dict_set d p v)"
  by (auto simp: peers_indexed_def dom_update dest!: subsetD[OF dict_set_items])

lemma peers_indexed_cong: "peers n' = peers n \<Longrightarrow> peers_indexed n' d = peers_indexed n d"
  by (simp add: peers_indexed_def)

lemma peers_indexed_lookup:
  "peers_indexed n d \<Longrightarrow> map_of d p = Some v \<Longrightarrow> p \<in> set (peers n) \<and> 0 \<le> v"
  by (force simp: peers_indexed_def dest!: map_of_SomeD)

lemma peers_indexed_total: "peers_indexed n d \<Longrightarrow> p \<in> set (peers n) \<Longrightarrow> \<exists>v. map_of d p = Some v"
  using dict_has_iff[of d p] by (auto simp: peers_indexed_def dict_has_def)

lemma per_peer_keys: "fst ` set (per_peer ps v d) = set ps \<union> fst ` set d"
  unfolding per_peer_def by (induction ps arbitrary: d) (simp_all add: dom_update)

lemma per_peer_items: "\<forall>(p, v')\<in>set d. 0 \<le> v' \<Longrightarrow> 0 \<le> (v::int) \<Longrightarrow> \<forall>(p, v')\<in>set (per_peer ps v d). 0 \<le> v'"
  unfolding per_peer_def
proof (induction ps arbitrary: d)
  case (Cons p ps)
  have "\<forall>(p, v')\<in>set (dict_set d p v). 0 \<le> v'"
    using Cons.prems dict_set_items[of p v d] by blast
  then show ?case using Cons.IH Cons.prems(2) by simp
qed simp

lemma peers_indexed_per_peer:
  "peers_indexed n d \<Longrightarrow> 0 \<le> v \<Longrightarrow> peers_indexed n (per_peer (peers n) v d)"
  unfolding peers_indexed_def using per_peer_keys[of "peers n" v d] per_peer_items[of d v "peers n"]
  by simp

lemma init_node_wf: "raft_wf (init_node nid ps)"
  using per_peer_keys[of ps "0::int" "[]"] per_peer_items[of "[]" 0 ps]
  by (simp add: raft_wf_def init_node_def peers_indexed_def)

lemma reset_wf: "raft_wf n \<Longrightarrow> raft_wf (reset_election_timer n)"
  by (simp add: raft_wf_def reset_election_timer_def peers_indexed_def)

lemma become_leader_wf: "raft_wf n \<Longrightarrow> raft_state n = CANDIDATE \<Longrightarrow> raft_wf (become_leader n)"
  using peers_indexed_per_peer[of n "next_index n" "int (length (raft_log n))"]
    peers_indexed_per_peer[of n "match_index n" 0]
  by (simp add: raft_wf_def node_ops peers_indexed_def)

lemma become_follower_wf: "raft_wf n \<Longrightarrow> raft_wf (become_follower l n)"
  by (simp add: raft_wf_def node_ops peers_indexed_def)

lemma step_down_wf: "raft_wf n \<Longrightarrow> current_term n < t \<Longrightarrow> raft_wf (step_down t n)"
  by (simp add: raft_wf_def node_ops peers_indexed_def)

lemma begin_wf: "raft_wf n \<Longrightarrow> raft_wf (start_election_begin n)"
  by (simp add: raft_wf_def node_ops peers_indexed_def)

lemma progress_flag_wf: "raft_wf n \<Longrightarrow> raft_wf (n\<lparr>election_in_progress := b\<rparr>)"
  by (simp add: raft_wf_def peers_indexed_def)

lemma finish_wf: "raft_wf n \<Longrightarrow> raft_wf (finish_election k n)"
  by (simp add: finish_election_def Let_def progress_flag_wf become_leader_wf)

lemma timeout_wf: "raft_wf n \<Longrightarrow> raft_wf (election_timeout_handler n)"
  by (simp add: election_timeout_handler_def Let_def begin_wf finish_wf progress_flag_wf)

lemma vote_response_wf: "raft_wf n \<Longrightarrow> raft_wf (snd (on_vote_response r n))"
  by (cases r) (simp_all add: on_vote_response_def step_down_wf)

lemma raft_wf_indices:
  "raft_wf n \<Longrightarrow> -1 \<le> c \<Longrightarrow> -1 \<le> k \<Longrightarrow> raft_wf (n\<lparr>commit_index := c, last_applied := k\<rparr>)"
  by (simp add: raft_wf_def peers_indexed_def)

lemma log_wf: "raft_wf n \<Longrightarrow> raft_wf (n\<lparr>raft_log := lg\<rparr>)"
  by (simp add: raft_wf_def peers_indexed_def)

lemma apply_wf:
  assumes "raft_wf n" and "apply_committed_entries cbs n a = (x, n', a')"
  shows "raft_wf n'"
proof -
  obtain k where n': "n' = n\<lparr>last_applied := k\<rparr>" using apply_frame[OF assms(2)] by blast
  have "-1 \<le> k" using apply_applied_ge[OF assms(2)] assms(1) n' by (simp add: raft_wf_def)
  then show ?thesis using assms(1) n' by (simp add: raft_wf_def peers_indexed_def)
qed

lemma commit_wf: "raft_wf n \<Longrightarrow> -1 \<le> c \<Longrightarrow> raft_wf (n\<lparr>commit_index := c\<rparr>)"
  by (simp add: raft_wf_def peers_indexed_def)

lemma update_commit_wf:
  "raft_wf n \<Longrightarrow> update_commit_index cbs n a = (x, n', a') \<Longrightarrow> raft_wf n'"
proof -
  assume wf: "raft_wf n" and upd: "update_commit_index cbs n a = (x, n', a')"
  have "n' = n \<or> (\<exists>k > commit_index n. apply_committed_entries cbs (n\<lparr>commit_index := k\<rparr>) a = (x, n', a'))"
    using upd by (auto simp: update_commit_index_def Let_def split: if_splits option.splits sum.splits)
  then show "raft_wf n'"
  proof
    assume "\<exists>k > commit_index n. apply_committed_entries cbs (n\<lparr>commit_index := k\<rparr>) a = (x, n', a')"
    then obtain k where k: "k > commit_index n"
      and app: "apply_committed_entries cbs (n\<lparr>commit_index := k\<rparr>) a = (x, n', a')" by blast
    have "-1 \<le> commit_index n" using wf by (simp add: raft_wf_def)
    with k have "raft_wf (n\<lparr>commit_index := k\<rparr>)" by (intro commit_wf wf) simp
    then show ?thesis using app by (rule apply_wf)
  qed (use wf in simp)
qed

lemma connected_wf: "raft_wf n \<Longrightarrow> raft_wf (set_connected p b n)"
  by (simp add: raft_wf_def set_connected_def peers_indexed_def)

lemma match_wf:
  "raft_wf n \<Longrightarrow> map_of (match_index n) p = Some m \<Longrightarrow> m \<le> m' \<Longrightarrow>
     raft_wf (n\<lparr>match_index := dict_set (match_index n) p m',
                next_index := dict_set (next_index n) p (m' + 1)\<rparr>)"
  using peers_indexed_lookup[of n "match_index n" p m]
    peers_indexed_set[of n "match_index n" p m'] peers_indexed_set[of n "next_index n" p "m' + 1"]
  by (auto simp: raft_wf_def peers_indexed_def)

lemma next_wf:
  "raft_wf n \<Longrightarrow> map_of (next_index n) p = Some m \<Longrightarrow> 0 \<le> v \<Longrightarrow>
     raft_wf (n\<lparr>next_index := dict_set (next_index n) p v\<rparr>)"
  using peers_indexed_lookup[of n "next_index n" p m] peers_indexed_set[of n "next_index n" p v]
  by (auto simp: raft_wf_def peers_indexed_def)

lemma response_wf:
  assumes wf: "raft_wf n" and res: "on_append_response cbs p i es r n a = (b, n', a')"
  shows "raft_wf n'"
proof (cases r)
  case None
  then show ?thesis using wf res by (auto simp: on_append_response_def connected_wf)
next
  case (Some m)
  show ?thesis
  proof (cases "success_flag m")
    case True
    then show ?thesis
      using wf res Some
      by (fastforce simp: on_append_response_def Let_def intro!: connected_wf match_wf
          dest: update_commit_wf[rotated] split: option.splits prod.splits)
  next
    case False
    let ?n1 = "if msg_term m > current_term n then step_down (msg_term m) n else n"
    have "raft_wf ?n1" using wf by (simp add: step_down_wf)
    then show ?thesis
      using res Some False
      by (auto simp: on_append_response_def Let_def connected_wf intro: next_wf
          split: option.splits if_splits)
  qed
qed

lemma vote_wf:
  assumes "raft_wf n" and "voted_for n = None \<or> voted_for n = Some c"
  shows "raft_wf (n\<lparr>voted_for := Some c\<rparr>)"
  using assms by (auto simp: raft_wf_def peers_indexed_def)

lemma request_vote_wf:
  assumes wf: "raft_wf n" and t: "msg_term m \<le> current_term n"
    and h: "handle_request_vote now m n = (r, n')"
  shows "raft_wf n'"
  using h t wf by (auto simp: handle_request_vote_def Let_def intro!: reset_wf vote_wf
      split: if_splits sum.splits)

lemma accept_leader_wf: "raft_wf n \<Longrightarrow> raft_wf (accept_leader l n)"
  by (simp add: raft_wf_def node_ops peers_indexed_def)

lemma accept_entries_wf:
  assumes wf: "raft_wf n" and acc: "accept_entries cbs k d n a = (x, n', a')"
  shows "raft_wf n'"
proof -
  have "(\<exists>lg. n' = n\<lparr>raft_log := lg\<rparr>) \<or> n' = n \<or> (\<exists>lg c. -1 \<le> c
      \<and> apply_committed_entries cbs (n\<lparr>raft_log := lg, commit_index := c\<rparr>) a = (x, n', a'))"
    using acc wf by (fastforce simp: accept_entries_def advance_commit_def raft_wf_def
        split: sum.splits prod.splits option.splits if_splits)
  then show ?thesis
    using wf by (metis apply_wf commit_wf log_wf)
qed

lemma append_entries_wf:
  "raft_wf n \<Longrightarrow> handle_append_entries cbs now m n a = (r, n', a') \<Longrightarrow> raft_wf n'"
  using accept_leader_wf[of n "sender_id m"]
  by (auto simp: handle_append_entries_def Let_def dest: accept_entries_wf[rotated]
      split: sum.splits bool.splits option.splits prod.splits)

lemma message_wf:
  assumes "raft_wf n" and "handle_message cbs now m n a = (r, n', a')"
  shows "raft_wf n'"
proof -
  let ?n1 = "if msg_term m > current_term n then step_down (msg_term m) n else n"
  have "raft_wf ?n1" using assms(1) by (simp add: step_down_wf)
  moreover have "msg_term m \<le> current_term ?n1" by (simp add: node_ops)
  ultimately show ?thesis
    using assms(2) by (auto simp: handle_message_def Let_def
        dest: request_vote_wf append_entries_wf split: message_type.splits prod.splits)
qed

lemma single_append_wf:
  "raft_wf n \<Longrightarrow> append_entry cbs send now c d (n, a) = (x, w) \<Longrightarrow> peers n = [] \<Longrightarrow> raft_wf (fst w)"
  by (auto simp: append_entry_def append_local_def new_entry_def
      dest!: apply_wf[rotated] intro!: commit_wf log_wf split: if_splits prod.splits option.splits)

lemma step_wf: "raft_step cbs w w' \<Longrightarrow> raft_wf (fst w) \<Longrightarrow> raft_wf (fst w')"
  by (induction rule: raft_step.induct)
    (auto intro: begin_wf finish_wf timeout_wf vote_response_wf response_wf message_wf reset_wf log_wf
      dest: single_append_wf simp: raft_start_def append_local_def)

lemma run_wf: "raft_run cbs w w' \<Longrightarrow> raft_wf (fst w) \<Longrightarrow> raft_wf (fst w')"
  by (induction rule: rtranclp_induct) (auto intro: step_wf)

section \<open>Runs keep what the commit callback keeps\<close>

context commit_listener
begin

lemma step_inv: "raft_step [cb] w w' \<Longrightarrow> inv (snd w) \<Longrightarrow> inv (snd w')"
proof (induction rule: raft_step.induct)
  case (rs_client_single n send now c d a x w)
  then show ?case using append_entry_inv[of "(n, a)" send now c d] by simp
qed (auto dest: on_append_response_inv handle_message_inv)

lemma run_keeps_inv: "raft_run [cb] w w' \<Longrightarrow> inv (snd w) \<Longrightarrow> inv (snd w')"
  by (induction rule: rtranclp_induct) (auto intro: step_inv)

end

end
