(* ===== verification/Raft_Log.thy ===== *)
theory Raft_Log
  imports Raft_Steps
begin

text \<open>
  Replication of the log: the follower's loop over the received entries against a recursive
  reference, the leader's request and the follower's handler together, and repeated exchanges
  between a leader and a follower.
\<close>

section \<open>The merge loop\<close>

text \<open>The entries from the first position on, merged with the received ones: the local entries win
  while the terms agree, and the first disagreement drops everything local behind it.\<close>

fun merge_suffix :: "log_entry list \<Rightarrow> log_entry list \<Rightarrow> log_entry list" where
  "merge_suffix ls [] = ls"
| "merge_suffix [] es = es"
| "merge_suffix (l # ls) (e # es) =
     (if le_term l \<noteq> le_term e then e # es else l # merge_suffix ls es)"

lemma merge_suffix_Nil [simp]: "merge_suffix [] es = es"
  by (cases es) simp_all

lemma merge_entries_suffix:
  "k \<le> length lg \<Longrightarrow>
     merge_entries (int k) lg es = (None, take k lg @ merge_suffix (drop k lg) es)"
proof (induction es arbitrary: k lg)
  case Nil
  then show ?case by simp
next
  case (Cons e es)
  have suc: "int k + 1 = int (Suc k)" by simp
  show ?case
  proof (cases "k = length lg")
    case True
    then have "merge_entries (int k) lg (e # es) = merge_entries (int (Suc k)) (lg @ [e]) es"
      by (simp add: add.commute)
    also have "\<dots> = (None, (lg @ [e]) @ es)"
      using Cons.IH[of "Suc k" "lg @ [e]"] True by simp
    finally show ?thesis using True by simp
  next
    case False
    then have k: "k < length lg" using Cons.prems by simp
    then have dk: "drop k lg = lg ! k # drop (Suc k) lg" by (simp add: Cons_nth_drop_Suc)
    show ?thesis
    proof (cases "le_term (lg ! k) = le_term e")
      case True
      then have "merge_entries (int k) lg (e # es) = merge_entries (int (Suc k)) lg es"
        using k by (simp add: suc)
      also have "\<dots> = (None, take (Suc k) lg @ merge_suffix (drop (Suc k) lg) es)"
        using Cons.IH[of "Suc k" lg] k by simp
      finally show ?thesis using True k by (simp add: dk take_Suc_conv_app_nth)
    next
      case False
      then have "merge_entries (int k) lg (e # es)
                   = merge_entries (int (Suc k)) (take k lg @ [e]) es"
        using k by (simp add: suc)
      also have "\<dots> = (None, (take k lg @ [e]) @ es)"
        using Cons.IH[of "Suc k" "take k lg @ [e]"] k by simp
      finally show ?thesis using False by (simp add: dk)
    qed
  qed
qed

lemma merge_suffix_terms: "map le_term (take (length es) (merge_suffix ls es)) = map le_term es"
  by (induction ls es rule: merge_suffix.induct) auto

lemma merge_suffix_absorb:
  "length es \<le> length ls \<Longrightarrow> map le_term (take (length es) ls) = map le_term es
     \<Longrightarrow> merge_suffix ls es = ls"
  by (induction ls es rule: merge_suffix.induct) auto

lemma merge_suffix_length: "length es \<le> length (merge_suffix ls es)"
  by (induction ls es rule: merge_suffix.induct) auto

lemma merge_suffix_idem: "merge_suffix (merge_suffix ls es) es = merge_suffix ls es"
  by (simp add: merge_suffix_absorb merge_suffix_length merge_suffix_terms)

lemma merge_suffix_copy:
  "(\<And>i. i < length ls \<Longrightarrow> i < length es \<Longrightarrow> le_term (ls ! i) = le_term (es ! i) \<Longrightarrow> ls ! i = es ! i)
     \<Longrightarrow> take (length es) (merge_suffix ls es) = es"
proof (induction ls es rule: merge_suffix.induct)
  case (3 l ls e es)
  show ?case
  proof (cases "le_term l = le_term e")
    case True
    have "l = e" using "3.prems"[of 0] True by simp
    moreover have "take (length es) (merge_suffix ls es) = es"
      using "3.IH" True "3.prems"[of "Suc i" for i] by force
    ultimately show ?thesis using True by simp
  qed simp
qed simp_all

text \<open>Entries before the first disagreement survive.\<close>

lemma merge_suffix_keeps:
  "j \<le> length ls \<Longrightarrow> (\<And>i. i < j \<Longrightarrow> i < length es \<Longrightarrow> le_term (ls ! i) = le_term (es ! i))
     \<Longrightarrow> take j (merge_suffix ls es) = take j ls"
proof (induction ls es arbitrary: j rule: merge_suffix.induct)
  case (3 l ls e es)
  show ?case
  proof (cases j)
    case (Suc i)
    have "le_term l = le_term e" using "3.prems"(2)[of 0] Suc by simp
    moreover have "take i (merge_suffix ls es) = take i ls"
      using "3.IH"[of i] calculation "3.prems"(1) "3.prems"(2)[of "Suc k" for k] Suc by force
    ultimately show ?thesis using Suc by simp
  qed simp
qed simp_all

section \<open>Log matching\<close>

definition log_matching :: "log_entry list \<Rightarrow> log_entry list \<Rightarrow> bool" where
  "log_matching a b \<longleftrightarrow>
     (\<forall>i < min (length a) (length b). le_term (a ! i) = le_term (b ! i)
        \<longrightarrow> take (Suc i) a = take (Suc i) b)"

lemma log_matching_entry:
  assumes "log_matching a b" "i < length a" "i < length b" "le_term (a ! i) = le_term (b ! i)"
  shows "a ! i = b ! i" "take (Suc i) a = take (Suc i) b"
proof -
  show t: "take (Suc i) a = take (Suc i) b" using assms by (simp add: log_matching_def)
  show "a ! i = b ! i" by (metis t lessI nth_take)
qed

lemma merge_copies_leader:
  assumes lm: "log_matching F L" and k: "k \<le> length L" "k \<le> length F"
    and prev: "k = 0 \<or> le_term (F ! (k - 1)) = le_term (L ! (k - 1))"
  shows "take (length L) (take k F @ merge_suffix (drop k F) (drop k L)) = L"
proof -
  have pre: "take k F = take k L"
    using log_matching_entry(2)[OF lm, of "k - 1"] prev k by (cases k) auto
  have "take (length (drop k L)) (merge_suffix (drop k F) (drop k L)) = drop k L"
    by (rule merge_suffix_copy) (use log_matching_entry(1)[OF lm] in auto)
  then show ?thesis using k pre by (simp add: append_take_drop_id)
qed

section \<open>One request and its answer\<close>

lemma request_data:
  assumes "append_entries_request now L p = Inr (prev, es, m)" and "map_of (next_index L) p = Some ni"
    and "0 \<le> ni" "ni \<le> int (length (raft_log L))"
  shows "prev = ni - 1" "es = drop (nat ni) (raft_log L)" "message_type m = APPEND_ENTRIES"
    "sender_id m = node_id L" "msg_term m = current_term L"
    "get_int (msg_data m) ''prev_log_index'' 0 = Inr prev"
    "get_int (msg_data m) ''prev_log_term'' 0
       = Inr (if 0 < ni then le_term (raft_log L ! nat (ni - 1)) else 0)"
    "get_entries (msg_data m) = Inr es"
    "get_int (msg_data m) ''leader_commit'' 0 = Inr (commit_index L)"
  using assms by (auto simp: append_entries_request_def Let_def get_int_def get_entries_def
      py_drop_nonneg)

lemma accept_entries_log:
  assumes "accept_entries cbs prev d n a = (x, n', a')" and "get_entries d = Inr es"
    and "-1 \<le> prev" and "prev < int (length (raft_log n))"
  shows "raft_log n' = take (nat (prev + 1)) (raft_log n)
           @ merge_suffix (drop (nat (prev + 1)) (raft_log n)) es"
proof -
  let ?k = "nat (prev + 1)"
  have "merge_entries (prev + 1) (raft_log n) es
          = (None, take ?k (raft_log n) @ merge_suffix (drop ?k (raft_log n)) es)"
    using merge_entries_suffix[of ?k "raft_log n" es] assms(3,4) by simp
  then show ?thesis
    using assms(1,2) by (auto simp: accept_entries_def advance_commit_def dest: apply_keeps(5)
        split: sum.splits if_splits)
qed

lemma prev_matches_request:
  assumes "-1 \<le> prev"
  shows "prev_entry_matches lg prev t =
           Inr (prev < int (length lg) \<and> (prev = -1 \<or> le_term (lg ! nat prev) = t))"
  using assms by (auto simp: prev_entry_matches_def py_get_in)

lemma append_response_flag [simp]: "success_flag (append_response now b n) = b"
  by (simp add: success_flag_def append_response_def truthy_def)

lemma append_response_term [simp]: "msg_term (append_response now b n) = current_term n"
  by (simp add: append_response_def)

lemma accept_leader_keeps [simp]:
  "raft_log (accept_leader l n) = raft_log n" "current_term (accept_leader l n) = current_term n"
  "peers (accept_leader l n) = peers n" "node_id (accept_leader l n) = node_id n"
  "commit_index (accept_leader l n) = commit_index n"
  "last_applied (accept_leader l n) = last_applied n"
  "voted_for (accept_leader l n) = voted_for n"
  by (simp_all add: node_ops)

lemma step_down_keeps [simp]:
  "raft_log (step_down t n) = raft_log n" "current_term (step_down t n) = t"
  "peers (step_down t n) = peers n" "node_id (step_down t n) = node_id n"
  "commit_index (step_down t n) = commit_index n" "last_applied (step_down t n) = last_applied n"
  "next_index (step_down t n) = next_index n" "match_index (step_down t n) = match_index n"
  by (simp_all add: node_ops)

text \<open>The follower's answer to a leader's request: the log after an accepted one is the merge, a
  rejected one leaves the log alone; the term becomes the larger of the two.\<close>

lemma message_append_cases:
  assumes "handle_message cbs now m F a = (r, F', a')" and "message_type m = APPEND_ENTRIES"
    and "get_int (msg_data m) ''prev_log_index'' 0 = Inr prev" and "-1 \<le> prev"
    and "get_int (msg_data m) ''prev_log_term'' 0 = Inr t"
    and "get_entries (msg_data m) = Inr es"
  obtains (rejected) "\<not> (prev < int (length (raft_log F)) \<and> (prev = -1 \<or> le_term (raft_log F ! nat prev) = t))"
      "r = Inr (append_response now False F')" "raft_log F' = raft_log F"
      "current_term F' = max (current_term F) (msg_term m)"
  | (accepted) "prev < int (length (raft_log F))" "prev = -1 \<or> le_term (raft_log F ! nat prev) = t"
      "raft_log F' = take (nat (prev + 1)) (raft_log F)
         @ merge_suffix (drop (nat (prev + 1)) (raft_log F)) es"
      "(\<exists>x. r = Inl x) \<or> r = Inr (append_response now True F')"
      "current_term F' = max (current_term F) (msg_term m)"
proof -
  let ?n1 = "if msg_term m > current_term F then step_down (msg_term m) F else F"
  let ?n2 = "accept_leader (sender_id m) ?n1"
  have h: "handle_append_entries cbs now m ?n1 a = (r, F', a')"
    using assms(1,2) by (simp add: handle_message_def Let_def)
  have tm: "current_term ?n2 = max (current_term F) (msg_term m)" by simp
  have lg: "raft_log ?n2 = raft_log F" by simp
  show thesis
  proof (cases "prev < int (length (raft_log F)) \<and> (prev = -1 \<or> le_term (raft_log F ! nat prev) = t)")
    case False
    then have "prev_entry_matches (raft_log ?n2) prev t = Inr False"
      unfolding lg prev_matches_request[OF assms(4)] by simp
    then have "r = Inr (append_response now False ?n2)" "F' = ?n2"
      using h assms(3,5) by (auto simp: handle_append_entries_def Let_def)
    then show ?thesis using rejected False lg tm by metis
  next
    case True
    then have m: "prev_entry_matches (raft_log ?n2) prev t = Inr True"
      unfolding lg prev_matches_request[OF assms(4)] by simp
    obtain x b where acc: "accept_entries cbs prev (msg_data m) ?n2 a = (x, F', b)"
      using h assms(3,5) m
      by (auto simp: handle_append_entries_def Let_def split: prod.splits option.splits)
    have r: "(\<exists>y. r = Inl y) \<or> r = Inr (append_response now True F')"
      using h assms(3,5) m acc
      by (auto simp: handle_append_entries_def Let_def split: prod.splits option.splits)
    have "raft_log F' = take (nat (prev + 1)) (raft_log F)
         @ merge_suffix (drop (nat (prev + 1)) (raft_log F)) es"
      using accept_entries_log[OF acc assms(6,4)] True lg by simp
    moreover have "current_term F' = current_term ?n2"
      using accept_entries_keeps[OF acc] by auto
    ultimately show ?thesis using accepted True r tm by metis
  qed
qed

end
