(* ===== verification/Raft_Consensus.thy ===== *)
theory Raft_Consensus
  imports Raft_Log
begin

text \<open>
  The properties of the consensus component: votes, the node's invariant, delivery of committed
  entries, replication between a leader and a follower, and what a moved commit index guarantees.
\<close>

section \<open>Votes\<close>

definition vote_granted :: "message \<Rightarrow> bool" where
  "vote_granted r \<longleftrightarrow> map_of (msg_data r) ''vote_granted'' = Some (JBool True)"

definition vote_request :: "message \<Rightarrow> int \<Rightarrow> int \<Rightarrow> bool" where
  "vote_request m t i \<longleftrightarrow> message_type m = REQUEST_VOTE
     \<and> get_int (msg_data m) ''last_log_term'' 0 = Inr t
     \<and> get_int (msg_data m) ''last_log_index'' 0 = Inr i"

lemma vote_request_of_candidate [simp]:
  "vote_request (request_vote_message now n) (last_log_term n) (last_log_index n)"
  by (simp add: vote_request_def request_vote_message_def get_int_def)

text \<open>The node a vote request finds after the term check of \<open>handle_message\<close>.\<close>

abbreviation at_term :: "int \<Rightarrow> raft_node \<Rightarrow> raft_node" where
  "at_term t n \<equiv> (if t > current_term n then step_down t n else n)"

lemma at_term_keeps [simp]:
  "raft_log (at_term t n) = raft_log n" "peers (at_term t n) = peers n"
  "node_id (at_term t n) = node_id n" "last_applied (at_term t n) = last_applied n"
  "commit_index (at_term t n) = commit_index n"
  "current_term (at_term t n) = max (current_term n) t"
  by simp_all

lemma at_term_log_pos [simp]: "last_log_pos (at_term t n) = last_log_pos n"
  by (simp add: last_log_pos_def last_log_term_def last_log_index_def)

lemma at_term_voted: "voted_for (at_term t n) = (if t > current_term n then None else voted_for n)"
  by (simp add: node_ops)

lemma vote_grant_cases:
  assumes h: "handle_message cbs now m n a = (Inr r, n', a')" and v: "vote_request m t i"
  shows "vote_granted r \<longleftrightarrow> current_term n \<le> msg_term m
       \<and> (current_term n = msg_term m \<longrightarrow> voted_for n = None \<or> voted_for n = Some (sender_id m))
       \<and> last_log_pos n \<le> LogPos t i"
    and "vote_granted r \<Longrightarrow> voted_for n' = Some (sender_id m) \<and> current_term n' = msg_term m"
proof -
  let ?n1 = "at_term (msg_term m) n"
  have rv: "handle_request_vote now m ?n1 = (Inr r, n')"
    using h v by (auto simp: handle_message_def vote_request_def Let_def split: prod.splits)
  have pos: "last_log_pos n = LogPos (last_log_term ?n1) (last_log_index ?n1)"
    using at_term_log_pos[where t = "msg_term m" and n = n] by (simp add: last_log_pos_def)
  show "vote_granted r \<longleftrightarrow> current_term n \<le> msg_term m
       \<and> (current_term n = msg_term m \<longrightarrow> voted_for n = None \<or> voted_for n = Some (sender_id m))
       \<and> last_log_pos n \<le> LogPos t i"
    using rv v at_term_voted[where t = "msg_term m" and n = n]
    by (auto simp: pos handle_request_vote_def Let_def vote_granted_def vote_request_def
        less_eq_log_pos_def split: if_splits)
  show "vote_granted r \<Longrightarrow> voted_for n' = Some (sender_id m) \<and> current_term n' = msg_term m"
    using rv v by (auto simp: handle_request_vote_def Let_def vote_granted_def vote_request_def
        reset_election_timer_def split: if_splits)
qed

text \<open>C1: A node grants its vote to at most one candidate per term: if it grants two vote requests
  of the same term, with any run of the node (messages, elections, responses, client calls)
  between them, both name the same candidate.\<close>

theorem one_vote_per_term:
  assumes "handle_message cbs now1 m1 n a = (Inr r1, n1, a1)" and "vote_request m1 t1 i1"
    and "vote_granted r1" and "raft_run cbs (n1, a1) (n2, a2)"
    and "handle_message cbs now2 m2 n2 a2 = (Inr r2, n3, a3)" and "vote_request m2 t2 i2"
    and "vote_granted r2" and "msg_term m1 = msg_term m2"
  shows "sender_id m1 = sender_id m2"
proof -
  have 1: "voted_for n1 = Some (sender_id m1)" "current_term n1 = msg_term m1"
    using vote_grant_cases(2)[OF assms(1,2,3)] by auto
  have 2: "current_term n2 \<le> msg_term m2"
    "current_term n2 = msg_term m2 \<longrightarrow> voted_for n2 = None \<or> voted_for n2 = Some (sender_id m2)"
    using vote_grant_cases(1)[OF assms(5,6)] assms(7) by auto
  have "raft_le n1 n2" using run_le[OF assms(4)] by simp
  then show ?thesis using 1 2 assms(8) by (auto simp: raft_le_def)
qed

definition sample_request :: "string \<Rightarrow> message" where
  "sample_request c = \<lparr>message_type = REQUEST_VOTE, sender_id = c, msg_term = 1,
     msg_data = [(''last_log_index'', JInt (-1)), (''last_log_term'', JInt 0)], msg_timestamp = 0\<rparr>"

theorem one_vote_per_term_witness:
  "sender_id (sample_request ''b'') = sender_id ((sample_request ''b'')\<lparr>msg_timestamp := 5\<rparr>)"
proof -
  let ?h = "\<lambda>now m n. handle_message ([] :: unit callback list) now m n ()"
  let ?m1 = "sample_request ''b''" and ?m2 = "(sample_request ''b'')\<lparr>msg_timestamp := 5\<rparr>"
  let ?n = "init_node ''a'' [''b'']"
  note defs = handle_message_def handle_request_vote_def sample_request_def init_node_def node_ops
    get_int_def last_log_term_def last_log_index_def vote_granted_def vote_request_def
  obtain r1 n1 where h1: "?h 1 ?m1 ?n = (Inr r1, n1, ())" and g1: "vote_granted r1"
    and v1: "vote_request ?m1 0 (-1)" by (simp add: defs)
  have n1: "n1 = fst (snd (?h 1 ?m1 ?n))" using h1 by simp
  obtain r2 n3 where h2: "?h 2 ?m2 n1 = (Inr r2, n3, ())" and g2: "vote_granted r2"
    and v2: "vote_request ?m2 0 (-1)" unfolding n1 by (simp add: defs)
  show ?thesis
    by (rule one_vote_per_term[OF h1 v1 g1 rtranclp.rtrancl_refl h2 v2 g2])
      (simp add: sample_request_def)
qed

text \<open>C30: A vote request is granted exactly when its term is not below the node's, the node has
  not voted for another candidate in that term, and the candidate's log position (last term, then
  last index) is not behind the node's own.\<close>

theorem vote_granted_iff:
  assumes "handle_message cbs now m n a = (Inr r, n', a')" and "vote_request m t i"
  shows "vote_granted r \<longleftrightarrow> current_term n \<le> msg_term m
       \<and> (current_term n = msg_term m \<longrightarrow> voted_for n = None \<or> voted_for n = Some (sender_id m))
       \<and> last_log_pos n \<le> LogPos t i"
  by (rule vote_grant_cases(1)[OF assms])

theorem vote_granted_iff_witness:
  "vote_granted (projr (fst (handle_message [] 1 (sample_request ''b'') (init_node ''a'' [''b'']) ())))"
proof -
  let ?w = "handle_message ([] :: unit callback list) 1 (sample_request ''b'') (init_node ''a'' [''b'']) ()"
  have h: "?w = (Inr (projr (fst ?w)), fst (snd ?w), snd (snd ?w))"
    by (simp add: handle_message_def handle_request_vote_def sample_request_def init_node_def
        node_ops get_int_def last_log_term_def last_log_index_def)
  have v: "vote_request (sample_request ''b'') 0 (-1)"
    by (simp add: vote_request_def sample_request_def get_int_def)
  show ?thesis
    unfolding vote_granted_iff[OF h v]
    by (simp add: init_node_def sample_request_def last_log_pos_def last_log_term_def
        last_log_index_def less_eq_log_pos_def)
qed

section \<open>The invariant of a node\<close>

text \<open>Along every run from a fresh node its invariant holds: the replication indices cover
  exactly the peers and are not negative, the commit and apply indices are at least -1, a candidate
  or leader has voted for itself, and a leader names itself as leader.\<close>

theorem node_invariant:
  assumes "raft_run cbs (init_node nid ps, a) (n, b)"
  shows "raft_wf n \<and> node_id n = nid \<and> peers n = ps"
  using run_wf[OF assms] run_le[OF assms] init_node_wf[of nid ps]
  by (simp add: raft_le_def) (simp add: init_node_def)

theorem node_invariant_witness:
  "raft_wf (election_timeout_handler (init_node ''a'' [])) \<and>
   raft_state (election_timeout_handler (init_node ''a'' [])) = LEADER"
proof -
  have "raft_run ([] :: unit callback list) (init_node ''a'' [], ())
      (election_timeout_handler (init_node ''a'' []), ())"
    by (rule r_into_rtranclp) (rule rs_timeout)
  from node_invariant[OF this] show ?thesis
    by (simp add: election_timeout_handler_def finish_election_def quorum_size_def init_node_def node_ops)
qed

section \<open>Delivery of committed entries\<close>

text \<open>C10: Applying committed entries delivers exactly the log entries between the apply index and
  the commit index to the callbacks, in log order and each once, and stops at the first exception;
  the apply index advances by the number of entries delivered.\<close>

theorem apply_delivers_in_order:
  assumes "-1 \<le> last_applied n" and "commit_index n < int (length (raft_log n))"
  shows "apply_committed_entries cbs n a =
           (case feed cbs (pending_entries n) a of
              (x, k, a') \<Rightarrow> (x, n\<lparr>last_applied := last_applied n + int k\<rparr>, a'))"
  using assms by (rule apply_feed)

definition sample_entry :: "int \<Rightarrow> int \<Rightarrow> log_entry" where
  "sample_entry t i = \<lparr>le_term = t, le_index = i, le_command = ''X'', le_data = []\<rparr>"

theorem apply_delivers_in_order_witness:
  "apply_committed_entries [\<lambda>e a. (None, a @ [e])]
     ((init_node ''a'' [])\<lparr>raft_log := [sample_entry 1 0, sample_entry 1 1], commit_index := 1\<rparr>) []
   = (None, (init_node ''a'' [])\<lparr>raft_log := [sample_entry 1 0, sample_entry 1 1], commit_index := 1,
        last_applied := 1\<rparr>, [sample_entry 1 0, sample_entry 1 1])"
  by (subst apply_delivers_in_order) (simp_all add: init_node_def pending_entries_def)

lemma append_raises:
  assumes "handle_message cbs now m F a = (Inl x, F', a')" and "message_type m = APPEND_ENTRIES"
    and "get_int (msg_data m) ''prev_log_index'' 0 = Inr prev" and "-1 \<le> prev"
    and "get_int (msg_data m) ''prev_log_term'' 0 = Inr t"
    and "get_entries (msg_data m) = Inr es" and "get_int (msg_data m) ''leader_commit'' 0 = Inr lc"
    and "-1 \<le> last_applied F"
  shows "\<exists>e\<in>set (raft_log F'). \<exists>b. fst (run_callbacks cbs e b) = Some x"
proof -
  let ?n2 = "accept_leader (sender_id m) (at_term (msg_term m) F)"
  have h: "handle_append_entries cbs now m (at_term (msg_term m) F) a = (Inl x, F', a')"
    using assms(1,2) by (simp add: handle_message_def Let_def)
  have pm: "prev_entry_matches (raft_log ?n2) prev t \<noteq> Inl y" for y
    using prev_matches_request[OF assms(4)] by simp
  have acc: "accept_entries cbs prev (msg_data m) ?n2 a = (Some x, F', a')"
    and le: "prev < int (length (raft_log ?n2))"
    using h assms(3,5) pm prev_matches_request[OF assms(4), of "raft_log ?n2" t]
    by (auto simp: handle_append_entries_def Let_def split: sum.splits bool.splits prod.splits option.splits)
  obtain lg where lg: "merge_entries (prev + 1) (raft_log ?n2) es = (None, lg)"
    using merge_entries_suffix[of "nat (prev + 1)" "raft_log ?n2" es] assms(4) le by simp
  let ?n3 = "?n2\<lparr>raft_log := lg, commit_index := min lc (int (length lg) - 1)\<rparr>"
  have app: "apply_committed_entries cbs ?n3 a = (Some x, F', a')"
    using acc assms(6,7) lg by (auto simp: accept_entries_def advance_commit_def split: if_splits)
  have "apply_committed_entries cbs ?n3 a = (case feed cbs (pending_entries ?n3) a of
      (y, k, b) \<Rightarrow> (y, ?n3\<lparr>last_applied := last_applied ?n3 + int k\<rparr>, b))"
    by (rule apply_feed) (use assms(8) in simp_all)
  then obtain k where "feed cbs (pending_entries ?n3) a = (Some x, k, a')"
    using app by (auto split: prod.splits)
  from feed_raise[OF this] obtain e b where "e \<in> set (pending_entries ?n3)"
    "fst (run_callbacks cbs e b) = Some x" by blast
  moreover have "raft_log F' = lg" using apply_keeps(5)[OF app] by simp
  ultimately show ?thesis
    by (auto simp: pending_entries_def dest!: in_set_takeD in_set_dropD)
qed

text \<open>C31: Handling a well-typed append request whose \<open>prev_log_index\<close> is at least -1 (as in every request a leader
  builds) never fails inside the node: an exception comes from
  a callback applied to an entry of the node's log, so the loop never reads past the log.\<close>

theorem append_raises_only_callback_errors:
  assumes "handle_message cbs now m F a = (Inl x, F', a')" and "message_type m = APPEND_ENTRIES"
    and "get_int (msg_data m) ''prev_log_index'' 0 = Inr prev" and "-1 \<le> prev"
    and "get_int (msg_data m) ''prev_log_term'' 0 = Inr t"
    and "get_entries (msg_data m) = Inr es" and "get_int (msg_data m) ''leader_commit'' 0 = Inr lc"
    and "-1 \<le> last_applied F"
  shows "\<exists>e\<in>set (raft_log F'). \<exists>b. fst (run_callbacks cbs e b) = Some x"
  by (rule append_raises[OF assms])

definition sample_append :: "int \<Rightarrow> int \<Rightarrow> log_entry list \<Rightarrow> int \<Rightarrow> int \<Rightarrow> message" where
  "sample_append pli plt es lc tm = \<lparr>message_type = APPEND_ENTRIES, sender_id = ''b'', msg_term = tm,
     msg_data = [(''prev_log_index'', JInt pli), (''prev_log_term'', JInt plt),
                 (''entries'', JArr (map entry_to_json es)), (''leader_commit'', JInt lc)],
     msg_timestamp = 0\<rparr>"

lemma sample_append_data:
  "message_type (sample_append pli plt es lc tm) = APPEND_ENTRIES"
  "sender_id (sample_append pli plt es lc tm) = ''b''"
  "msg_term (sample_append pli plt es lc tm) = tm"
  "get_int (msg_data (sample_append pli plt es lc tm)) ''prev_log_index'' 0 = Inr pli"
  "get_int (msg_data (sample_append pli plt es lc tm)) ''prev_log_term'' 0 = Inr plt"
  "get_int (msg_data (sample_append pli plt es lc tm)) ''leader_commit'' 0 = Inr lc"
  "get_entries (msg_data (sample_append pli plt es lc tm)) = Inr es"
  by (simp_all add: sample_append_def get_int_def get_entries_def)

lemmas handler_defs = handle_message_def handle_append_entries_def accept_entries_def
  advance_commit_def prev_entry_matches_def append_response_def node_ops

theorem append_raises_only_callback_errors_witness:
  "\<exists>e\<in>set [sample_entry 1 0]. \<exists>b :: unit.
     fst (run_callbacks [\<lambda>e a. (Some (KeyError ''lock_id''), a)] e b) = Some (KeyError ''lock_id'')"
proof -
  let ?cbs = "[\<lambda>e a. (Some (KeyError ''lock_id''), a)] :: unit callback list"
  let ?m = "sample_append (-1) 0 [sample_entry 1 0] 0 1"
  let ?w = "handle_message ?cbs 0 ?m (init_node ''a'' [''b'']) ()"
  have w: "?w = (Inl (KeyError ''lock_id''), fst (snd ?w), snd (snd ?w)) \<and>
      raft_log (fst (snd ?w)) = [sample_entry 1 0]"
    by (simp add: handler_defs sample_append_data init_node_def apply_committed_entries.simps
        py_get_def)
  have la: "-1 \<le> last_applied (init_node ''a'' [''b''])" by (simp add: init_node_def)
  from append_raises_only_callback_errors[OF conjunct1[OF w] sample_append_data(1,4) _
      sample_append_data(5,7,6) la] w
  show ?thesis by simp
qed

end
