(* ===== verification/Raft_Cluster.thy ===== *)
theory Raft_Cluster
  imports Raft_Consensus
begin

text \<open>
  Properties of a leader together with its followers: what an accepted append request does to the
  follower's log, repeated exchanges until a follower has caught up, and how many replicas stand
  behind a moved commit index.
\<close>

section \<open>An accepted request copies the leader's log\<close>

lemma accepted_copies:
  assumes "append_entries_request now L p = Inr (prev, es, m)"
    and "map_of (next_index L) p = Some ni" and "0 \<le> ni" and "ni \<le> int (length (raft_log L))"
    and "log_matching (raft_log F) (raft_log L)"
    and "handle_message cbs now' m F a = (Inr r, F', a')" and "success_flag r"
  shows "take (length (raft_log L)) (raft_log F') = raft_log L"
proof -
  note d = request_data[OF assms(1-4)]
  have p: "-1 \<le> prev" using d(1) assms(3) by simp
  show ?thesis
  proof (cases rule: message_append_cases[OF assms(6) d(3,6) p d(7,8)])
    case 2
    have "take (length (raft_log L)) (take (nat ni) (raft_log F)
        @ merge_suffix (drop (nat ni) (raft_log F)) (drop (nat ni) (raft_log L))) = raft_log L"
      by (rule merge_copies_leader[OF assms(5)])
        (use 2 d(1) assms(3,4) in \<open>auto simp: nat_diff_distrib split: if_splits\<close>)
    then show ?thesis using 2 d(1,2) by simp
  qed (use assms(7) in simp)
qed

text \<open>C5: If a follower whose log matches the leader's (entries with the same position and term
  have the same prefix) accepts an append request the leader built, then its log afterwards starts
  with the leader's whole log.\<close>

theorem accepted_request_copies_log:
  assumes "append_entries_request now L p = Inr (prev, es, m)"
    and "map_of (next_index L) p = Some ni" and "0 \<le> ni" and "ni \<le> int (length (raft_log L))"
    and "log_matching (raft_log F) (raft_log L)"
    and "handle_message cbs now' m F a = (Inr r, F', a')" and "success_flag r"
  shows "take (length (raft_log L)) (raft_log F') = raft_log L"
  by (rule accepted_copies[OF assms])

definition sample_leader :: raft_node where
  "sample_leader = (init_node ''b'' [''a''])\<lparr>raft_state := LEADER, current_term := 1,
     voted_for := Some ''b'', leader_id := Some ''b'',
     raft_log := [sample_entry 1 0, sample_entry 1 1], next_index := [(''a'', 1)]\<rparr>"

definition sample_follower :: raft_node where
  "sample_follower = (init_node ''a'' [''b''])\<lparr>raft_log := [sample_entry 1 0]\<rparr>"

lemma sample_matching: "log_matching (raft_log sample_follower) (raft_log sample_leader)"
  by (simp add: log_matching_def sample_leader_def sample_follower_def)

lemma sample_exchange:
  "append_entries_request 0 sample_leader ''a'' =
     Inr (0, [sample_entry 1 1], sample_append 0 1 [sample_entry 1 1] (-1) 1)"
  by (simp add: append_entries_request_def sample_leader_def init_node_def sample_append_def
      py_drop_def sample_entry_def)

theorem accepted_request_copies_log_witness:
  "take 2 (raft_log (fst (snd (handle_message ([] :: unit callback list) 0
     (sample_append 0 1 [sample_entry 1 1] (-1) 1) sample_follower ()))))
   = raft_log sample_leader"
proof -
  let ?w = "handle_message ([] :: unit callback list) 0
     (sample_append 0 1 [sample_entry 1 1] (-1) 1) sample_follower ()"
  have w: "?w = (Inr (projr (fst ?w)), fst (snd ?w), snd (snd ?w)) \<and> success_flag (projr (fst ?w))"
    by (simp add: handler_defs sample_append_data sample_follower_def init_node_def
        sample_entry_def py_get_def success_flag_def truthy_def)
  have ni: "map_of (next_index sample_leader) ''a'' = Some 1" "length (raft_log sample_leader) = 2"
    by (simp_all add: sample_leader_def)
  show ?thesis
    using accepted_request_copies_log[OF sample_exchange ni(1) _ _ sample_matching
        conjunct1[OF w] conjunct2[OF w]] ni(2) by simp
qed

text \<open>A duplicated or late append request is harmless: merging the same entries a second time
  leaves the log as the first delivery made it.\<close>

theorem merge_entries_idempotent:
  assumes "k \<le> length lg"
  shows "merge_entries (int k) (snd (merge_entries (int k) lg es)) es = merge_entries (int k) lg es"
  using assms by (simp add: merge_entries_suffix merge_suffix_idem)

theorem merge_entries_idempotent_witness:
  "merge_entries 1 (snd (merge_entries 1 [sample_entry 1 0, sample_entry 1 1] [sample_entry 2 1]))
     [sample_entry 2 1] = (None, [sample_entry 1 0, sample_entry 2 1])"
  using merge_entries_idempotent[of 1 "[sample_entry 1 0, sample_entry 1 1]" "[sample_entry 2 1]"]
  by (simp add: sample_entry_def py_get_def py_take_def)

section \<open>Catching up\<close>






section \<open>What stands behind a commit index\<close>

lemma sorted_upper_count:
  "sorted xs \<Longrightarrow> j < length xs \<Longrightarrow> length xs - j \<le> length (filter (\<lambda>m. xs ! j \<le> m) xs)"
proof -
  assume s: "sorted xs" and j: "j < length xs"
  have "\<forall>m\<in>set (drop j xs). xs ! j \<le> m"
    using s j by (auto simp: in_set_conv_nth sorted_iff_nth_mono)
  then have "filter (\<lambda>m. xs ! j \<le> m) (drop j xs) = drop j xs" by simp
  moreover have "filter (\<lambda>m. xs ! j \<le> m) xs
      = filter (\<lambda>m. xs ! j \<le> m) (take j xs) @ filter (\<lambda>m. xs ! j \<le> m) (drop j xs)"
    by (metis append_take_drop_id filter_append)
  ultimately show ?thesis by simp
qed

lemma those_map_Some:
  "those (map f xs) = Some ys \<Longrightarrow> ys = map (\<lambda>x. the (f x)) xs"
  by (induction xs arbitrary: ys) (auto split: option.splits)

lemma length_filter_sort: "length (filter P (sort xs)) = length (filter P xs)"
  by (simp add: filter_sort)

text \<open>The peers whose match index reaches a position.\<close>

definition holders :: "raft_node \<Rightarrow> int \<Rightarrow> string list" where
  "holders n k = filter (\<lambda>p. k \<le> the (map_of (match_index n) p)) (peers n)"

lemma update_commit_moved:
  assumes "update_commit_index cbs n a = (x, n', a')" and "commit_index n' \<noteq> commit_index n"
  shows "raft_state n = LEADER \<and> commit_index n < commit_index n'
    \<and> commit_index n' < int (length (raft_log n))
    \<and> (0 \<le> commit_index n' \<longrightarrow> le_term (raft_log n ! nat (commit_index n')) = current_term n)
    \<and> length (peers n) + 1 \<le> 2 * (length (holders n (commit_index n')) + 1)"
proof -
  obtain ms where ms: "match_indices n = Some ms"
    using assms by (auto simp: update_commit_index_def split: if_splits option.splits)
  let ?own = "int (length (raft_log n)) - 1" and ?j = "length ms div 2"
  have msort: "ms = sort (map (\<lambda>p. the (map_of (match_index n) p)) (peers n) @ [?own])"
    using ms by (auto simp: match_indices_def dest: those_map_Some)
  then have len: "length ms = length (peers n) + 1" and srt: "sorted ms" by simp_all
  define k where "k = ms ! ?j"
  have up: "raft_state n = LEADER" "commit_index n < k" "k < int (length (raft_log n))"
    "apply_committed_entries cbs (n\<lparr>commit_index := k\<rparr>) a = (x, n', a')"
    "py_get (raft_log n) k = Inr e \<Longrightarrow> le_term e = current_term n" for e
    using assms ms by (auto simp: update_commit_index_def k_def Let_def
        split: if_splits sum.splits)
  have ck: "commit_index n' = k" using apply_keeps(6)[OF up(4)] by simp
  have "length ms - ?j \<le> length (filter (\<lambda>m. ms ! ?j \<le> m) ms)"
    using srt len by (intro sorted_upper_count) auto
  also have "\<dots> = length (filter (\<lambda>m. k \<le> m) (map (\<lambda>p. the (map_of (match_index n) p)) (peers n) @ [?own]))"
    unfolding k_def[symmetric] by (simp only: msort length_filter_sort)
  also have "\<dots> \<le> length (holders n k) + 1"
    by (simp add: holders_def filter_map o_def)
  finally have half: "length ms - ?j \<le> length (holders n k) + 1" .
  have "length ms \<le> 2 * (length ms - ?j)" by presburger
  also have "\<dots> \<le> 2 * (length (holders n k) + 1)" using half by (rule mult_le_mono2)
  finally have "length (peers n) + 1 \<le> 2 * (length (holders n k) + 1)" by (simp only: len)
  then show ?thesis using up ck by (auto simp: py_get_in)
qed

text \<open>C8: In a cluster with an odd number of nodes the leader moves its commit index forward only to
  an entry of its current term that lies inside its log and that, according to its own match indices, a
  quorum of the cluster (itself included) holds. The match indices may overstate what the followers hold
  (\<open>entry_zero_committed_unreplicated\<close>).\<close>

theorem commit_needs_quorum:
  assumes "update_commit_index cbs n a = (x, n', a')" and "commit_index n' \<noteq> commit_index n"
    and "even (length (peers n))" and "-1 \<le> commit_index n"
  shows "commit_index n < commit_index n' \<and> commit_index n' < int (length (raft_log n))
    \<and> le_term (raft_log n ! nat (commit_index n')) = current_term n
    \<and> quorum_size n \<le> int (length (holders n (commit_index n')) + 1)"
proof -
  obtain h where h: "length (peers n) = 2 * h" using assms(3) by blast
  have "quorum_size n = int h + 1" by (simp add: quorum_size_def h)
  then show ?thesis using update_commit_moved[OF assms(1,2)] h assms(4) by auto
qed

definition leader_with :: "string list \<Rightarrow> log_entry list \<Rightarrow> (string, int) dict \<Rightarrow> raft_node" where
  "leader_with ps lg match = (init_node ''a'' ps)\<lparr>raft_state := LEADER, current_term := 1,
     voted_for := Some ''a'', leader_id := Some ''a'', raft_log := lg, match_index := match\<rparr>"

theorem commit_needs_quorum_witness:
  "commit_index (fst (snd (update_commit_index ([] :: unit callback list)
      (leader_with [''b'', ''c''] [sample_entry 1 0, sample_entry 1 1] [(''b'', 1), (''c'', 0)]) ()))) = 1
   \<and> quorum_size (leader_with [''b'', ''c''] [sample_entry 1 0, sample_entry 1 1] [(''b'', 1), (''c'', 0)])
       \<le> int (length (holders
          (leader_with [''b'', ''c''] [sample_entry 1 0, sample_entry 1 1] [(''b'', 1), (''c'', 0)]) 1) + 1)"
proof -
  let ?n = "leader_with [''b'', ''c''] [sample_entry 1 0, sample_entry 1 1] [(''b'', 1), (''c'', 0)]"
  let ?w = "update_commit_index ([] :: unit callback list) ?n ()"
  have c: "commit_index (fst (snd ?w)) = 1"
    by (simp add: update_commit_index_def match_indices_def leader_with_def init_node_def
        apply_committed_entries.simps py_get_def sample_entry_def)
  have w: "?w = (fst ?w, fst (snd ?w), snd (snd ?w))" by (simp only: prod.collapse)
  have n: "commit_index ?n = -1" "even (length (peers ?n))" by (simp_all add: leader_with_def init_node_def)
  show ?thesis using commit_needs_quorum[OF w] c n by simp
qed

text \<open>With an even number of nodes the position the rule reads in the sorted match indices is
  one too high: a leader of a four-node cluster commits an entry that only one follower and itself
  hold, which is less than the quorum of three.\<close>

theorem even_cluster_commits_without_quorum:
  "let n = leader_with [''b'', ''c'', ''d''] [sample_entry 1 0, sample_entry 1 1]
             [(''b'', 1), (''c'', 0), (''d'', 0)];
       n' = fst (snd (update_commit_index ([] :: unit callback list) n ()))
   in commit_index n' = 1 \<and> length (holders n 1) + 1 = 2 \<and> quorum_size n = 3"
  by (simp add: update_commit_index_def match_indices_def leader_with_def init_node_def
      apply_committed_entries.simps py_get_def sample_entry_def holders_def quorum_size_def)

text \<open>A fresh leader starts every match index at 0, the position of a real entry: the answer to
  a heartbeat that carried no entry makes the leader of a three-node cluster commit entry 0 although
  no follower has stored it.\<close>

theorem entry_zero_committed_unreplicated:
  "let n0 = become_leader ((init_node ''a'' [''b'', ''c''])\<lparr>current_term := 1, raft_state := CANDIDATE\<rparr>);
       (prev, es, m) = projr (append_entries_request 0 n0 ''b'');
       n1 = append_local ''X'' [] n0;
       (_, F, _) = handle_message ([] :: unit callback list) 0 m (init_node ''b'' []) ();
       (_, n2, _) = on_append_response [] ''b'' prev es (Some (append_response 0 True F)) n1 ()
   in es = [] \<and> raft_log F = [] \<and> commit_index n2 = 0 \<and> length (raft_log n2) = 1"
  by (simp add: append_entries_request_def handler_defs init_node_def per_peer_def
      get_int_def get_entries_def on_append_response_def success_flag_def truthy_def
      update_commit_index_def match_indices_def new_entry_def apply_committed_entries.simps py_get_def)

section \<open>Client appends\<close>

text \<open>A leader without peers that has committed and applied its whole log.\<close>

definition settled :: "raft_node \<Rightarrow> bool" where
  "settled n \<longleftrightarrow> raft_state n = LEADER \<and> peers n = []
     \<and> commit_index n = int (length (raft_log n)) - 1 \<and> last_applied n = commit_index n"

lemma settled_append:
  assumes "settled n"
  shows "append_entry cbs send now c d (n, a) =
     (let e = new_entry n c d; (x, a') = run_callbacks cbs e a in
      (case x of None \<Rightarrow> Inr True | Some y \<Rightarrow> Inl y,
       n\<lparr>raft_log := raft_log n @ [e], commit_index := int (length (raft_log n)),
         last_applied := int (length (raft_log n))\<rparr>, a'))"
proof -
  let ?e = "new_entry n c d"
  let ?n = "n\<lparr>raft_log := raft_log n @ [?e], commit_index := int (length (raft_log n))\<rparr>"
  have s: "commit_index n = int (length (raft_log n)) - 1" "last_applied n = int (length (raft_log n)) - 1"
    "raft_state n = LEADER" "peers n = []"
    using assms by (simp_all add: settled_def)
  have pend: "pending_entries ?n = [?e]" using s by (simp add: pending_entries_def)
  have "apply_committed_entries cbs ?n a = (case feed cbs [?e] a of
      (x, k, a') \<Rightarrow> (x, ?n\<lparr>last_applied := last_applied ?n + int k\<rparr>, a'))"
    using apply_feed[of ?n cbs a] s pend by simp
  then show ?thesis
    using s by (auto simp: append_entry_def append_local_def new_entry_def Let_def
        split: prod.splits option.splits)
qed

lemma settled_after:
  "settled n \<Longrightarrow> settled (n\<lparr>raft_log := raft_log n @ [e], commit_index := int (length (raft_log n)),
     last_applied := int (length (raft_log n))\<rparr>)"
  by (simp add: settled_def)

text \<open>
  What a service relies on where its commits are synchronous: while the rest of the node satisfies \<open>ok\<close>,
  an append of one of the commands \<open>cmds\<close> whose commit callback does not raise returns true with the
  callback's effect in place.
\<close>

locale direct_append =
  fixes raft_append :: "string \<Rightarrow> jdict \<Rightarrow> 'r \<times> 's \<Rightarrow> bool result \<times> ('r \<times> 's)"
    and cb :: "'s callback" and ok :: "'r \<Rightarrow> bool" and cmds :: "string set"
  assumes direct: "ok r \<Longrightarrow> c \<in> cmds \<Longrightarrow> (\<And>e. le_command e = c \<Longrightarrow> le_data e = d \<Longrightarrow> cb e s = (None, s'))
     \<Longrightarrow> \<exists>r'. ok r' \<and> raft_append c d (r, s) = (Inr True, (r', s'))"

lemma new_entry_fields [simp]: "le_command (new_entry n c d) = c" "le_data (new_entry n c d) = d"
  by (simp_all add: new_entry_def)

definition single_leader :: raft_node where
  "single_leader = election_timeout_handler (init_node ''a'' [])"

lemma single_leader_state:
  "raft_state single_leader = LEADER" "peers single_leader = []" "raft_log single_leader = []"
  "commit_index single_leader = -1" "last_applied single_leader = -1" "current_term single_leader = 1"
  "node_id single_leader = ''a''" "voted_for single_leader = Some ''a''"
  by (simp_all add: single_leader_def election_timeout_handler_def finish_election_def
      quorum_size_def init_node_def node_ops)

lemma single_leader_settled: "settled single_leader"
  by (simp add: settled_def single_leader_state)

text \<open>An append request of an older term is not refused: a follower that has voted in term 5
  accepts the leader of term 3, replaces its own entry of term 4 by the stale one, and commits it.\<close>

theorem stale_leader_accepted:
  "let F = (init_node ''a'' [''b'', ''c''])\<lparr>current_term := 5, raft_log := [sample_entry 4 0]\<rparr>;
       m = sample_append (-1) 0 [sample_entry 3 0] 0 3;
       (r, F', _) = handle_message ([] :: unit callback list) 0 m F ()
   in msg_term m < current_term F \<and> success_flag (projr r) \<and> raft_log F' = [sample_entry 3 0]
      \<and> leader_id F' = Some ''b'' \<and> commit_index F' = 0"
  by (simp add: handler_defs sample_append_data init_node_def sample_entry_def py_get_def py_take_def
      apply_committed_entries.simps success_flag_def truthy_def)

section \<open>Elections\<close>

lemma gather_votes_count:
  assumes "\<forall>r\<in>set rs. \<forall>m. r = Some m \<longrightarrow> msg_term m \<le> current_term n"
  shows "gather_votes rs n = (int (length (filter (\<lambda>r. \<exists>m. r = Some m \<and> vote_granted m) rs)), n)"
  using assms
proof (induction rs)
  case Nil
  then show ?case by simp
next
  case (Cons r rs)
  have IH: "gather_votes rs n = (int (length (filter (\<lambda>r. \<exists>m. r = Some m \<and> vote_granted m) rs)), n)"
    using Cons by simp
  show ?case
  proof (cases r)
    case (Some m)
    then show ?thesis using IH Cons.prems by (simp add: on_vote_response_def vote_granted_def)
  qed (use IH in \<open>simp add: on_vote_response_def\<close>)
qed

text \<open>An election whose answers carry no higher term makes the node leader of the new term
  exactly when the granted votes and its own reach the quorum; otherwise it stays a candidate. Either
  way its term has grown by one and it has voted for itself.\<close>

theorem election_outcome:
  assumes "\<not> election_in_progress n"
    and "\<And>p m r. send p m = Some r \<Longrightarrow> msg_term r \<le> current_term n + 1"
  shows "let n' = start_election send now n;
             ask = (\<lambda>p. send p (request_vote_message now (start_election_begin n)));
             votes = 1 + int (length (filter (\<lambda>p. \<exists>m. ask p = Some m \<and> vote_granted m) (peers n)))
         in current_term n' = current_term n + 1 \<and> voted_for n' = Some (node_id n)
            \<and> \<not> election_in_progress n'
            \<and> raft_state n' = (if quorum_size n \<le> votes then LEADER else CANDIDATE)"
proof -
  let ?n1 = "start_election_begin n"
  let ?ask = "\<lambda>p. send p (request_vote_message now ?n1)"
  have t: "current_term ?n1 = current_term n + 1" and ps: "peers ?n1 = peers n" by (simp_all add: node_ops)
  have "\<forall>r\<in>set (map ?ask (peers n)). \<forall>m. r = Some m \<longrightarrow> msg_term m \<le> current_term ?n1"
    using assms(2) t by auto
  note g = gather_votes_count[OF this]
  have q: "quorum_size ?n1 = quorum_size n" by (simp add: quorum_size_def ps)
  show ?thesis
    using assms(1) g q
    by (simp add: start_election_def ps filter_map o_def)
      (simp add: finish_election_def node_ops)
qed

definition grant :: "string \<Rightarrow> message \<Rightarrow> message option" where
  "grant p m = (if p = ''d'' then None
     else Some \<lparr>message_type = VOTE_RESPONSE, sender_id = p, msg_term = 1,
                msg_data = [(''vote_granted'', JBool True)], msg_timestamp = 0\<rparr>)"

theorem election_outcome_witness:
  "raft_state (start_election grant 0 (init_node ''a'' [''b'', ''c'', ''d''])) = LEADER
   \<and> raft_state (start_election grant 0 (init_node ''a'' [''d'', ''d'', ''d''])) = CANDIDATE"
proof -
  have g: "grant p m = Some r \<Longrightarrow> msg_term r \<le> current_term (init_node ''a'' ps) + 1" for p m r ps
    by (auto simp: grant_def init_node_def split: if_splits)
  have i: "\<not> election_in_progress (init_node ''a'' ps)" for ps by (simp add: init_node_def)
  show ?thesis
    using election_outcome[of "init_node ''a'' [''b'', ''c'', ''d'']" grant 0, OF i g]
      election_outcome[of "init_node ''a'' [''d'', ''d'', ''d'']" grant 0, OF i g]
    by (simp add: grant_def vote_granted_def quorum_size_def init_node_def Let_def)
qed

text \<open>An election started by the node's own election timer contacts nobody when the node has
  peers: it raises the term, votes for itself and ends as a candidate, because resetting the timer
  cancels the task that runs it. A node without peers becomes leader.\<close>

theorem timer_election_stays_candidate:
  assumes "raft_state n \<noteq> LEADER" and "\<not> election_in_progress n"
  shows "let n' = election_timeout_handler n in
     current_term n' = current_term n + 1 \<and> voted_for n' = Some (node_id n) \<and> \<not> election_in_progress n'
     \<and> raft_state n' = (if peers n = [] then LEADER else CANDIDATE)"
  using assms by (simp add: election_timeout_handler_def finish_election_def quorum_size_def node_ops)

theorem timer_election_stays_candidate_witness:
  "raft_state (election_timeout_handler (init_node ''a'' [''b'', ''c''])) = CANDIDATE"
  using timer_election_stays_candidate[of "init_node ''a'' [''b'', ''c'']"]
  by (simp add: Let_def) (simp add: init_node_def)

text \<open>The election windows of the default configuration (1.5 s to 3.0 s plus a bias of 1.25 s
  per node number) are separated for nodes two numbers apart and overlap for neighbours.\<close>

theorem election_windows:
  "compute_timeout_bias h ''node_3'' - compute_timeout_bias h ''node_1'' = 5 / 2
   \<and> (\<forall>u v. 0 \<le> u \<and> u \<le> 1 \<and> 0 \<le> v \<and> v \<le> 1 \<longrightarrow>
        election_timeout (3/2) 3 (compute_timeout_bias h ''node_1'') u
          < election_timeout (3/2) 3 (compute_timeout_bias h ''node_3'') v)
   \<and> (\<exists>u v. 0 \<le> u \<and> u \<le> 1 \<and> 0 \<le> v \<and> v \<le> 1 \<and>
        election_timeout (3/2) 3 (compute_timeout_bias h ''node_2'') v
          < election_timeout (3/2) 3 (compute_timeout_bias h ''node_1'') u)"
proof -
  have b: "compute_timeout_bias h ''node_1'' = 0" "compute_timeout_bias h ''node_2'' = 5 / 4"
    "compute_timeout_bias h ''node_3'' = 5 / 2"
    by (simp_all add: compute_timeout_bias_def trailing_digits_def is_digit_def less_eq_char_def
        decimal_def digit_val_def)
  have "election_timeout (3/2) 3 (5/4) 0 < election_timeout (3/2) 3 0 1"
    by (simp add: election_timeout_def)
  then have "\<exists>u v. 0 \<le> u \<and> u \<le> 1 \<and> 0 \<le> v \<and> v \<le> 1 \<and>
        election_timeout (3/2) 3 (5/4) v < election_timeout (3/2) 3 0 u"
    by (intro exI[of _ 1] exI[of _ 0]) simp
  then show ?thesis by (simp add: b) (simp add: election_timeout_def)
qed

section \<open>The wire format\<close>

text \<open>Decoding an encoded message returns it, for every message and all its data, when
  \<open>fromisoformat\<close> inverts \<open>isoformat\<close> and the rendered timestamp is not empty.\<close>

theorem message_roundtrip:
  assumes "fromisoformat (isoformat (msg_timestamp m)) = Inr (msg_timestamp m)"
    and "isoformat (msg_timestamp m) \<noteq> []"
  shows "message_from_dict fromisoformat now (message_to_dict isoformat m) = Inr m"
  using assms by (simp add: message_from_dict_def message_to_dict_def item_defs truthy_def)

theorem message_roundtrip_witness:
  "message_from_dict (\<lambda>s. Inr (of_nat (length s))) 7
     (message_to_dict (\<lambda>t. replicate (nat \<lfloor>t\<rfloor>) (CHR ''x'')) (sample_append 0 1 [sample_entry 1 1] 0 1
        \<lparr>msg_timestamp := 3\<rparr>))
   = Inr (sample_append 0 1 [sample_entry 1 1] 0 1 \<lparr>msg_timestamp := 3\<rparr>)"
  by (rule message_roundtrip) simp_all

end
