(* ===== verification/Raft_Serving.thy ===== *)
theory Raft_Serving
  imports Raft_Cluster
begin

text \<open>
  A leader that serves clients: it has applied its whole log, and either has no peers or reaches a quorum
  of nodes that acknowledge its append requests, while the other peers are silent. On such a node
  \<open>append_entry\<close> has committed and applied the new entry when it returns, so the contract \<open>direct_append\<close> holds
  and with it all the results the services have with synchronous commits.
\<close>

section \<open>Serving leaders\<close>

definition acking :: "(string \<Rightarrow> message \<Rightarrow> message option) \<Rightarrow> string \<Rightarrow> bool" where
  "acking send p \<longleftrightarrow> (\<forall>m. message_type m = APPEND_ENTRIES \<longrightarrow> (\<exists>r. send p m = Some r \<and> success_flag r))"

definition silent :: "(string \<Rightarrow> message \<Rightarrow> message option) \<Rightarrow> string \<Rightarrow> bool" where
  "silent send p \<longleftrightarrow> (\<forall>m. send p m = None)"

text \<open>A silent peer may lie behind; what the leader believes of a peer never exceeds its own log.\<close>

definition serving :: "(string \<Rightarrow> message \<Rightarrow> message option) \<Rightarrow> raft_node \<Rightarrow> bool" where
  "serving send n \<longleftrightarrow> raft_state n = LEADER
     \<and> commit_index n = int (length (raft_log n)) - 1 \<and> last_applied n = commit_index n
     \<and> (\<forall>p\<in>set (peers n). \<exists>ni k. map_of (next_index n) p = Some ni \<and> map_of (match_index n) p = Some k
          \<and> k \<le> int (length (raft_log n)) \<and> (acking send p \<and> ni = int (length (raft_log n)) \<or> silent send p))
     \<and> quorum_size n \<le> 1 + int (length (filter (acking send) (peers n)))"

lemma settled_serving: "settled n \<Longrightarrow> serving send n"
  by (simp add: settled_def serving_def quorum_size_def)

lemma single_leader_serving: "serving send single_leader"
  by (rule settled_serving[OF single_leader_settled])

lemma not_acking_silent: "acking send p \<Longrightarrow> silent send p \<Longrightarrow> False"
  unfolding acking_def silent_def
  by (drule spec[of _ "\<lparr>message_type = APPEND_ENTRIES, sender_id = [], msg_term = 0, msg_data = [], msg_timestamp = 0\<rparr>"]) simp

section \<open>The commit rule with a quorum of acknowledgements\<close>

lemma sorted_reaches:
  assumes "sorted xs" and "j < length xs" and "length xs - j \<le> length (filter (\<lambda>m. v \<le> m) xs)"
  shows "v \<le> (xs ! j :: int)"
proof (rule ccontr)
  assume v: "\<not> v \<le> xs ! j"
  have "\<not> v \<le> m" if m: "m \<in> set (take (Suc j) xs)" for m
  proof -
    obtain i where "i < length (take (Suc j) xs)" "m = take (Suc j) xs ! i" using m by (metis in_set_conv_nth)
    then have "i \<le> j" "m = xs ! i" by simp_all
    then show ?thesis using sorted_nth_mono[OF assms(1) _ assms(2), of i] v by simp
  qed
  then have "filter (\<lambda>m. v \<le> m) (take (Suc j) xs) = []" by (simp add: filter_empty_conv)
  moreover have "filter (\<lambda>m. v \<le> m) xs = filter (\<lambda>m. v \<le> m) (take (Suc j) xs) @ filter (\<lambda>m. v \<le> m) (drop (Suc j) xs)"
    by (simp flip: filter_append)
  ultimately have "length (filter (\<lambda>m. v \<le> m) xs) \<le> length (drop (Suc j) xs)"
    using length_filter_le[of "(\<le>) v" "drop (Suc j) xs"] by simp
  then show False using assms(2,3) by simp
qed

lemma length_filter_mono:
  "\<forall>x\<in>set xs. P x \<longrightarrow> Q x \<Longrightarrow> length (filter P xs) \<le> length (filter Q xs)"
  by (induction xs) auto

lemma match_indices_all:
  assumes "\<forall>p\<in>set (peers n). \<exists>k. map_of (match_index n) p = Some k"
  shows "match_indices n = Some (sort (map (\<lambda>p. the (map_of (match_index n) p)) (peers n) @ [int (length (raft_log n)) - 1]))"
proof -
  have "those (map (map_of (match_index n)) ps) = Some (map (\<lambda>p. the (map_of (match_index n) p)) ps)"
    if "\<forall>p\<in>set ps. \<exists>k. map_of (match_index n) p = Some k" for ps
    using that by (induction ps) auto
  from this[OF assms] show ?thesis by (simp add: match_indices_def)
qed

text \<open>The new entry \<open>e\<close> is the only one not committed: it is committed and applied now, or no quorum is known to hold it.\<close>

lemma update_newest:
  assumes "raft_state n = LEADER" and "raft_log n = lg @ [e]" and "le_term e = current_term n"
    and "\<forall>p\<in>set (peers n). \<exists>k. map_of (match_index n) p = Some k \<and> k \<le> int (length lg)"
    and "commit_index n = int (length lg) - 1" and "last_applied n = commit_index n"
  obtains (wait) "update_commit_index cbs n a = (None, n, a)" "int (length (holders n (int (length lg)))) + 1 < quorum_size n"
  | (commit) "update_commit_index cbs n a = (fst (run_callbacks cbs e a),
      n\<lparr>commit_index := int (length lg), last_applied := int (length lg)\<rparr>, snd (run_callbacks cbs e a))"
proof -
  let ?k = "int (length lg)" and ?f = "\<lambda>p. the (map_of (match_index n) p)"
  define ms where "ms = sort (map ?f (peers n) @ [?k])"
  have mi: "match_indices n = Some ms" using match_indices_all[of n] assms(2,4) by (auto simp: ms_def)
  have srt: "sorted ms" and len: "length ms = length (peers n) + 1" by (simp_all add: ms_def)
  have le: "m \<le> ?k" if "m \<in> set ms" for m using that assms(4) by (auto simp: ms_def)
  have j: "length ms div 2 < length ms" using len by simp
  show thesis
  proof (cases "ms ! (length ms div 2) = ?k")
    case True
    let ?n = "n\<lparr>commit_index := ?k\<rparr>"
    have pend: "pending_entries ?n = [e]" using assms by (simp add: pending_entries_def)
    have "apply_committed_entries cbs ?n a = (case feed cbs [e] a of (x, i, a') \<Rightarrow> (x, ?n\<lparr>last_applied := last_applied ?n + int i\<rparr>, a'))"
      using apply_feed[of ?n cbs a] assms pend by simp
    also have "\<dots> = (fst (run_callbacks cbs e a), ?n\<lparr>last_applied := ?k\<rparr>, snd (run_callbacks cbs e a))"
      using assms(5,6) by (auto split: prod.split option.split)
    finally have app: "apply_committed_entries cbs ?n a = \<dots>" .
    have "py_get (raft_log n) ?k = Inr e" using assms(2) by (simp add: py_get_in)
    then have "update_commit_index cbs n a = apply_committed_entries cbs ?n a"
      using True mi assms(1,2,3,5) by (simp add: update_commit_index_def)
    then show thesis using app by (intro commit) simp
  next
    case False
    then have lt: "ms ! (length ms div 2) < ?k" using le[OF nth_mem[OF j]] by simp
    have "length (filter (\<lambda>m. ?k \<le> m) ms) = length (holders n ?k) + 1"
      by (simp add: ms_def length_filter_sort holders_def filter_map o_def)
    then have "length (holders n ?k) + 1 < length ms - length ms div 2"
      using sorted_reaches[OF srt j, of ?k] lt by fastforce
    then have "int (length (holders n ?k)) + 1 < quorum_size n"
      by (simp add: len quorum_size_def)
    moreover have "update_commit_index cbs n a = (None, n, a)"
      using lt mi assms(5) by (simp add: update_commit_index_def Let_def)
    ultimately show thesis using wait by blast
  qed
qed

text \<open>Nothing happens when everything is committed.\<close>

lemma update_nothing:
  assumes "\<forall>p\<in>set (peers n). \<exists>k. map_of (match_index n) p = Some k \<and> k \<le> commit_index n"
    and "int (length (raft_log n)) - 1 \<le> commit_index n"
  shows "update_commit_index cbs n a = (None, n, a)"
proof -
  define ms where "ms = sort (map (\<lambda>p. the (map_of (match_index n) p)) (peers n) @ [int (length (raft_log n)) - 1])"
  have "match_indices n = Some ms" using match_indices_all[of n] assms(1) by (auto simp: ms_def)
  moreover have "\<forall>m\<in>set ms. m \<le> commit_index n" using assms by (auto simp: ms_def)
  moreover have "ms ! (length ms div 2) \<in> set ms" by (rule nth_mem) (simp add: ms_def)
  ultimately show ?thesis by (auto simp: update_commit_index_def Let_def)
qed

section \<open>An entry on its way to the peers\<close>

text \<open>
  The state while the answers come in: \<open>D\<close> are the peers that have answered. The entry is committed and
  applied, or not yet and some peer that will acknowledge it has not answered.
\<close>

definition spreading ::
  "(string \<Rightarrow> message \<Rightarrow> message option) \<Rightarrow> 'a callback list \<Rightarrow> raft_node \<Rightarrow> log_entry \<Rightarrow> 'a \<Rightarrow> string set \<Rightarrow> raft_node \<Rightarrow> 'a \<Rightarrow> bool" where
  "spreading send cbs n0 e a D n b \<longleftrightarrow> raft_state n = LEADER \<and> current_term n = current_term n0 \<and> peers n = peers n0
     \<and> raft_log n = raft_log n0 @ [e] \<and> last_applied n = commit_index n
     \<and> (\<forall>p\<in>set (peers n0). \<exists>ni k. map_of (next_index n) p = Some ni \<and> map_of (match_index n) p = Some k
          \<and> k \<le> int (length (raft_log n0)) \<and> (acking send p \<and>
               (p \<in> D \<longrightarrow> k = int (length (raft_log n0)) \<and> ni = int (length (raft_log n0)) + 1) \<or> silent send p))
     \<and> (commit_index n = int (length (raft_log n0)) \<and> b = snd (run_callbacks cbs e a)
        \<or> commit_index n = int (length (raft_log n0)) - 1 \<and> b = a \<and> (\<exists>p\<in>set (peers n0). acking send p \<and> p \<notin> D))"

lemma spreading_silent:
  assumes "spreading send cbs n0 e a D n b" and "silent send q"
  shows "spreading send cbs n0 e a (insert q D) (set_connected q False n) b"
proof -
  have "\<not> acking send q" using assms(2) not_acking_silent by blast
  then show ?thesis using assms unfolding spreading_def set_connected_def by auto
qed

lemma spreading_connected: "spreading send cbs n0 e a D (set_connected q x n) b = spreading send cbs n0 e a D n b"
  by (simp add: spreading_def set_connected_def)

text \<open>An acknowledgement: match and next index of the peer move to the new entry.\<close>

lemma spreading_ack:
  assumes sp: "spreading send cbs n0 e a D n b" and q: "q \<in> set (peers n0)" "acking send q"
    and e: "le_term e = current_term n0" and r: "success_flag r"
    and quorum: "quorum_size n0 \<le> 1 + int (length (filter (acking send) (peers n0)))"
    and step: "on_append_response cbs q (int (length (raft_log n0)) - 1) [e] (Some r) n b = (x, n', b')"
  shows "spreading send cbs n0 e a (insert q D) n' b'"
proof -
  let ?N = "int (length (raft_log n0))"
  obtain k where k: "map_of (match_index n) q = Some k" "k \<le> ?N" using sp q(1) by (fastforce simp: spreading_def)
  define n1 where "n1 = set_connected q True (n\<lparr>match_index := dict_set (match_index n) q ?N,
     next_index := dict_set (next_index n) q (?N + 1)\<rparr>)"
  have max: "max k (?N - 1 + int (length [e])) = ?N" using k(2) by simp
  have new: "raft_state n1 = LEADER" "current_term n1 = current_term n0" "peers n1 = peers n0"
    "raft_log n1 = raft_log n0 @ [e]" "last_applied n1 = commit_index n1" "commit_index n1 = commit_index n"
    using sp by (simp_all add: spreading_def n1_def set_connected_def)
  have idx: "\<forall>p\<in>set (peers n0). \<exists>ni k. map_of (next_index n1) p = Some ni \<and> map_of (match_index n1) p = Some k
      \<and> k \<le> ?N \<and> (acking send p \<and> (p \<in> insert q D \<longrightarrow> k = ?N \<and> ni = ?N + 1) \<or> silent send p)"
  proof
    fix p assume "p \<in> set (peers n0)"
    then obtain ni k where "map_of (next_index n) p = Some ni" "map_of (match_index n) p = Some k" "k \<le> ?N"
      "acking send p \<and> (p \<in> D \<longrightarrow> k = ?N \<and> ni = ?N + 1) \<or> silent send p" using sp by (fastforce simp: spreading_def)
    then show "\<exists>ni k. map_of (next_index n1) p = Some ni \<and> map_of (match_index n1) p = Some k
      \<and> k \<le> ?N \<and> (acking send p \<and> (p \<in> insert q D \<longrightarrow> k = ?N \<and> ni = ?N + 1) \<or> silent send p)"
      using q(2) by (cases "p = q") (simp_all add: n1_def set_connected_def update_conv')
  qed
  have resp: "on_append_response cbs q (?N - 1) [e] (Some r) n b = (case update_commit_index cbs n1 b of
      (Some y, n3, a') \<Rightarrow> (False, set_connected q False n3, a') | (None, n3, a') \<Rightarrow> (True, n3, a'))"
    using r k(1) max by (simp add: on_append_response_def n1_def Let_def)
  show ?thesis
  proof (cases "commit_index n = ?N")
    case True
    have "update_commit_index cbs n1 b = (None, n1, b)"
      by (rule update_nothing) (use idx new True in fastforce)+
    then have "n' = n1" "b' = b" using resp step by simp_all
    then show ?thesis using sp new idx True unfolding spreading_def by auto
  next
    case False
    then have c: "commit_index n = ?N - 1" "b = a" using sp by (auto simp: spreading_def)
    have match: "\<forall>p\<in>set (peers n1). \<exists>k. map_of (match_index n1) p = Some k \<and> k \<le> ?N" using idx new(3) by fastforce
    have "le_term e = current_term n1" "commit_index n1 = ?N - 1" using new c e by simp_all
    then show ?thesis
    proof (cases rule: update_newest[OF new(1,4) _ match _ new(5), of cbs b])
      case 3
      have "\<exists>p\<in>set (peers n0). acking send p \<and> p \<notin> insert q D"
      proof (rule ccontr)
        assume "\<not> ?thesis"
        then have "\<forall>p\<in>set (peers n0). acking send p \<longrightarrow> map_of (match_index n1) p = Some ?N"
          using idx not_acking_silent by fastforce
        then have "\<forall>p\<in>set (peers n0). acking send p \<longrightarrow> ?N \<le> the (map_of (match_index n1) p)" by simp
        then have "length (filter (acking send) (peers n0)) \<le> length (holders n1 ?N)"
          unfolding holders_def new(3) by (rule length_filter_mono)
        then show False using 3(2) quorum new(3) by (simp add: quorum_size_def)
      qed
      moreover have "n' = n1" "b' = b" using 3(1) resp step by simp_all
      ultimately show ?thesis using new idx c unfolding spreading_def by simp
    next
      case 4
      let ?n = "n1\<lparr>commit_index := ?N, last_applied := ?N\<rparr>"
      have "spreading send cbs n0 e a (insert q D) ?n (snd (run_callbacks cbs e a))"
        using new idx unfolding spreading_def by simp
      moreover have "(n' = ?n \<or> n' = set_connected q False ?n) \<and> b' = snd (run_callbacks cbs e a)"
        using resp step 4 c(2) by (auto split: option.splits)
      ultimately show ?thesis using spreading_connected by metis
    qed simp_all
  qed
qed

text \<open>All answers of a round.\<close>

lemma spreading_gather:
  assumes quorum: "quorum_size n0 \<le> 1 + int (length (filter (acking send) (peers n0)))" and e: "le_term e = current_term n0"
  shows "spreading send cbs n0 e a D n b \<Longrightarrow> set ps \<subseteq> set (peers n0)
    \<Longrightarrow> \<forall>p\<in>set ps. acking send p \<and> (\<exists>m. message_type m = APPEND_ENTRIES \<and> req p = Inr (int (length (raft_log n0)) - 1, [e], m))
           \<or> silent send p \<and> (\<exists>prev es m. req p = Inr (prev, es, m))
    \<Longrightarrow> gather_appends cbs send (map (\<lambda>p. (p, req p)) ps) n b = (n', b')
    \<Longrightarrow> spreading send cbs n0 e a (set ps \<union> D) n' b'"
proof (induction ps arbitrary: D n b)
  case (Cons q ps)
  obtain prev es m where req: "req q = Inr (prev, es, m)" using Cons.prems(3) by auto
  obtain x n1 b1 where r: "on_append_response cbs q prev es (send q m) n b = (x, n1, b1)" by (rule prod_cases3)
  have "spreading send cbs n0 e a (insert q D) n1 b1"
  proof (cases "acking send q")
    case True
    then have m: "message_type m = APPEND_ENTRIES" "prev = int (length (raft_log n0)) - 1" "es = [e]"
      using Cons.prems(3) req not_acking_silent by fastforce+
    obtain y where "send q m = Some y" "success_flag y" using True m(1) by (auto simp: acking_def)
    then show ?thesis using spreading_ack[OF Cons.prems(1) _ True e _ quorum] r m Cons.prems(2) by simp
  next
    case False
    then have s: "silent send q" using Cons.prems(3) by auto
    then have "n1 = set_connected q False n" "b1 = b" using r by (simp_all add: silent_def on_append_response_def)
    then show ?thesis using spreading_silent[OF Cons.prems(1) s] by simp
  qed
  then have "spreading send cbs n0 e a (set ps \<union> insert q D) n' b'"
    by (rule Cons.IH) (use Cons.prems req r in auto)
  then show ?case by simp
qed simp

section \<open>What an append does on a serving leader\<close>

lemma serving_append:
  assumes "serving send n"
  shows "\<exists>n'. serving send n' \<and> raft_log n' = raft_log n @ [new_entry n c d] \<and> append_entry cbs send now c d (n, a) =
     (let (x, a') = run_callbacks cbs (new_entry n c d) a in
      (case x of Some y \<Rightarrow> if peers n = [] then Inl y else Inr True | None \<Rightarrow> Inr True, (n', a')))"
proof (cases "peers n = []")
  case True
  then have "settled n" using assms by (simp add: serving_def settled_def)
  then show ?thesis using settled_serving[OF settled_after] True
    by (auto simp: settled_append Let_def split: prod.splits option.splits)
next
  case False
  let ?e = "new_entry n c d" and ?N = "int (length (raft_log n))"
  let ?n = "append_local c d n" and ?req = "\<lambda>p. append_entries_request now (append_local c d n) p"
  have e: "le_term ?e = current_term n" by (simp add: new_entry_def)
  have quorum: "quorum_size n \<le> 1 + int (length (filter (acking send) (peers n)))" using assms by (simp add: serving_def)
  have some: "\<exists>p\<in>set (peers n). acking send p"
  proof (rule ccontr)
    assume "\<not> ?thesis"
    then have "filter (acking send) (peers n) = []" by (simp add: filter_empty_conv)
    then show False using quorum False by (cases "peers n") (simp_all add: quorum_size_def)
  qed
  have start: "spreading send cbs n ?e a {} ?n a"
    using assms some unfolding spreading_def serving_def by (fastforce simp: append_local_def)
  have reqs: "\<forall>p\<in>set (peers n). acking send p \<and> (\<exists>m. message_type m = APPEND_ENTRIES \<and> ?req p = Inr (?N - 1, [?e], m))
           \<or> silent send p \<and> (\<exists>prev es m. ?req p = Inr (prev, es, m))"
  proof
    fix p assume "p \<in> set (peers n)"
    then obtain ni where ni: "map_of (next_index n) p = Some ni" "acking send p \<and> ni = ?N \<or> silent send p"
      using assms by (fastforce simp: serving_def)
    show "acking send p \<and> (\<exists>m. message_type m = APPEND_ENTRIES \<and> ?req p = Inr (?N - 1, [?e], m))
           \<or> silent send p \<and> (\<exists>prev es m. ?req p = Inr (prev, es, m))"
      using ni by (auto simp: append_entries_request_def append_local_def Let_def py_drop_nonneg)
  qed
  obtain n' a' where g: "gather_appends cbs send (map (\<lambda>p. (p, ?req p)) (peers n)) ?n a = (n', a')" by fastforce
  have end_state: "spreading send cbs n ?e a (set (peers n)) n' a'"
    using spreading_gather[OF quorum e start _ reqs g] by simp
  then have "serving send n'" and a': "a' = snd (run_callbacks cbs ?e a)" and "raft_log n' = raft_log n @ [?e]"
    using quorum unfolding spreading_def serving_def by (fastforce simp: quorum_size_def)+
  moreover have "append_entry cbs send now c d (n, a) = (Inr True, (n', a'))"
    using assms False g
    by (simp add: append_entry_def serving_def send_append_entries_to_all_def append_local_def)
  ultimately show ?thesis using False by (intro exI[of _ n']) (simp add: split_beta split: option.split)
qed

lemma serving_call:
  assumes "serving send n" and "append_entry cbs send now c d (n, a) = (x, (n', a'))"
  shows "serving send n'" "a' = snd (run_callbacks cbs (new_entry n c d) a)"
    "fst (run_callbacks cbs (new_entry n c d) a) = None \<Longrightarrow> x = Inr True" "x \<noteq> Inr False"
  using serving_append[OF assms(1), of c d cbs now a] assms(2) by (auto simp: split_beta split: option.splits if_splits)

lemma run_callback_single: "run_callbacks [cb] e a = cb e a"
  by (auto split: prod.split option.split)

lemma served_call:
  assumes "serving send n" and "append_entry [cb] send now c d (n, a) = (x, (n', a'))"
  shows "serving send n'" "a' = snd (cb (new_entry n c d) a)"
    "fst (cb (new_entry n c d) a) = None \<Longrightarrow> x = Inr True" "x \<noteq> Inr False"
  using serving_call[OF assms] unfolding run_callback_single by blast+

interpretation served: direct_append "append_entry [cb] send now" cb "serving send" UNIV for cb send now
proof (unfold_locales, goal_cases)
  case (1 n c d s s')
  then have "run_callbacks [cb] (new_entry n c d) s = (None, s')" by simp
  with serving_append[OF 1(1), of c d "[cb]" now s] show ?case by (auto simp del: run_callbacks.simps)
qed

text \<open>On a node without peers \<open>append_entry\<close> does not even suspend: no other task runs before the entry is applied.\<close>

lemma settled_call:
  assumes "settled n" and "append_entry [cb] send now c d (n, a) = (x, (n', a'))"
  shows "settled n'" "a' = snd (cb (new_entry n c d) a)"
  using settled_after[OF assms(1)] assms(2) served_call(2)[OF settled_serving[OF assms(1)] assms(2)]
  by (auto simp: settled_append[OF assms(1)] Let_def split: prod.splits)

interpretation alone: direct_append "append_entry [cb] send now" cb settled UNIV for cb send now
proof (unfold_locales, goal_cases)
  case (1 n c d s s')
  obtain r' where r: "append_entry [cb] send now c d (n, s) = (Inr True, (r', s'))"
    using served.direct[of send n c d cb s s' now] settled_serving[OF 1(1)] 1(3) by auto
  then show ?case using settled_call(1)[OF 1(1) r] by blast
qed

section \<open>A follower in step acknowledges\<close>

text \<open>A follower whose log has the entry before the requested position acknowledges the request (when its
  callbacks do not fail), and then holds the leader's whole log. So it also acknowledges the next one.\<close>

lemma follower_in_step_acknowledges:
  assumes "append_entries_request now L p = Inr (prev, es, m)" and "map_of (next_index L) p = Some ni"
    and "0 \<le> ni" and "ni \<le> int (length (raft_log L))" and "take (nat ni) (raft_log F) = take (nat ni) (raft_log L)"
    and "log_matching (raft_log F) (raft_log L)" and "handle_message cbs now' m F a = (Inr r, F', a')"
  shows "success_flag r \<and> take (length (raft_log L)) (raft_log F') = raft_log L"
proof -
  note d = request_data[OF assms(1-4)]
  have p: "-1 \<le> prev" using d(1) assms(3) by simp
  have len: "nat ni \<le> length (raft_log F)"
    using arg_cong[OF assms(5), of length] assms(3,4) by (simp add: min_def split: if_splits)
  have same: "raft_log F ! nat (ni - 1) = raft_log L ! nat (ni - 1)" if "0 < ni"
    using arg_cong[OF assms(5), of "\<lambda>xs. xs ! nat (ni - 1)"] that by simp
  have "success_flag r"
  proof (cases rule: message_append_cases[OF assms(7) d(3,6) p d(7,8)])
    case 1
    then show ?thesis using d(1) len same assms(3) by (auto split: if_splits)
  next
    case 2
    then show ?thesis by (auto simp: append_response_def success_flag_def truthy_def)
  qed
  with accepted_copies[OF assms(1-4,6,7)] show ?thesis by blast
qed

section \<open>A serving leader with peers\<close>

definition always_yes :: "string \<Rightarrow> message \<Rightarrow> message option" where
  "always_yes p m = (if p = ''b'' then Some \<lparr>message_type = APPEND_RESPONSE, sender_id = p, msg_term = msg_term m,
     msg_data = [(''success'', JBool True)], msg_timestamp = 0\<rparr> else None)"

definition serving_leader :: raft_node where
  "serving_leader = (init_node ''a'' [''b'', ''c''])\<lparr>raft_state := LEADER, current_term := 1, voted_for := Some ''a'', leader_id := Some ''a''\<rparr>"

lemma serving_leader_serving: "serving always_yes serving_leader"
proof -
  have "acking always_yes ''b''" "silent always_yes ''c''" "\<not> acking always_yes ''c''"
    using not_acking_silent[of always_yes "''c''"]
    by (auto simp: acking_def silent_def always_yes_def success_flag_def truthy_def)
  then show ?thesis by (simp add: serving_def serving_leader_def init_node_def per_peer_def quorum_size_def)
qed

text \<open>C7: Commands take effect with a quorum: on a leader with peers that has applied its log and that a quorum
  acknowledges, the others being unreachable, \<open>append_entry\<close> returns true with the entry appended, committed
  and handed to the service, also where the service's callback raises; and the leader is as ready for the next command.\<close>

theorem quorum_append_commits:
  assumes "serving send n" and "peers n \<noteq> []" and "append_entry [cb] send now c d (n, a) = (x, (n', a'))"
  shows "x = Inr True \<and> a' = snd (cb (new_entry n c d) a) \<and> serving send n'
     \<and> raft_log n' = raft_log n @ [new_entry n c d]
     \<and> commit_index n' = int (length (raft_log n)) \<and> last_applied n' = int (length (raft_log n))"
proof -
  obtain m where m: "serving send m" "raft_log m = raft_log n @ [new_entry n c d]"
    and app: "append_entry [cb] send now c d (n, a) = (let (x, a') = cb (new_entry n c d) a in
      (case x of Some y \<Rightarrow> if peers n = [] then Inl y else Inr True | None \<Rightarrow> Inr True, (m, a')))"
    using serving_append[OF assms(1), of c d "[cb]" now a] unfolding run_callback_single by blast
  have "x = Inr True" "a' = snd (cb (new_entry n c d) a)" "n' = m"
    using app assms(2,3) by (auto simp: split_beta split: option.splits)
  then show ?thesis using m by (simp add: serving_def)
qed

theorem quorum_append_commits_witness:
  "fst (append_entry [\<lambda>e xs. (None, le_command e # xs)] always_yes 0 ''PUT'' [] (serving_leader, [])) = Inr True
   \<and> snd (snd (append_entry [\<lambda>e xs. (None, le_command e # xs)] always_yes 0 ''PUT'' [] (serving_leader, []))) = [''PUT'']"
proof -
  have "peers serving_leader \<noteq> []" by (simp add: serving_leader_def init_node_def)
  from quorum_append_commits[OF serving_leader_serving this, of "\<lambda>e xs. (None, le_command e # xs)" 0 "''PUT''" "[]" "[]"]
  show ?thesis by (metis new_entry_fields(1) prod.collapse snd_conv)
qed

end
