(* ===== verification/Lock_Manager.thy ===== *)
theory Lock_Manager
  imports Wait_Graph Raft_Serving
begin

text \<open>
  \<^verbatim>\<open>src/services/lock_manager.py\<close>, class \<open>DistributedLockManager\<close>.

  Operations that await the Raft node take its \<open>append_entry\<close> as the argument \<open>raft_append\<close>: a function on
  the rest of the node \<open>'r\<close> and the manager's state, which stands for everything that happens until
  the await returns. \<open>env k\<close> is what other tasks do during the \<open>k\<close>-th sleep of a waiting client and
  \<open>clock k\<close> the time it reads at its \<open>k\<close>-th check. A lock identifier (\<open>uuid4\<close>) is an argument.
  The callback lists of the manager (none is registered in the program) are recorded in the ghost
  lists \<open>acquired_events\<close> and \<open>deadlock_events\<close>.
\<close>

type_synonym waiter = "string \<times> lock_type \<times> string"

record lock_manager =
  locks :: "(string, lock) dict"
  lock_queue :: "(string, waiter list) dict"
  lm_wait_graph :: "string wait_graph"
  acquired_events :: "lock list"
  deadlock_events :: "string list list"

definition init_lock_manager :: lock_manager where
  "init_lock_manager = \<lparr>locks = [], lock_queue = [], lm_wait_graph = [],
     acquired_events = [], deadlock_events = []\<rparr>"

section \<open>Queries\<close>

definition get_locks_for_resource :: "string \<Rightarrow> lock_manager \<Rightarrow> lock list" where
  "get_locks_for_resource res lm = filter (\<lambda>l. lk_resource l = res) (dict_values (locks lm))"

definition try_acquire :: "string \<Rightarrow> lock_type \<Rightarrow> lock_manager \<Rightarrow> bool" where
  "try_acquire res lt lm =
     (let current_locks = get_locks_for_resource res lm in
      if current_locks = [] then True
      else if lt = LOCK_EXCLUSIVE then False
      else if lt = LOCK_SHARED \<and> (\<exists>l\<in>set current_locks. lk_lock_type l = LOCK_EXCLUSIVE) then False
      else True)"

definition get_lock_holder :: "string \<Rightarrow> lock_manager \<Rightarrow> string option" where
  "get_lock_holder res lm =
     map_option lk_owner
       (find (\<lambda>l. lk_resource l = res \<and> lk_lock_type l = LOCK_EXCLUSIVE) (dict_values (locks lm)))"

record lock_stats =
  total_locks :: nat
  total_waiting :: nat
  stat_resources :: nat
  deadlock_cycles :: nat

definition lm_get_stats :: "lock_manager \<Rightarrow> lock_stats" where
  "lm_get_stats lm = \<lparr>total_locks = length (locks lm),
     total_waiting = sum_list (map length (dict_values (lock_queue lm))),
     stat_resources = length (lock_queue lm), deadlock_cycles = 0\<rparr>"

section \<open>The commit callback\<close>

definition acquire_data :: "string \<Rightarrow> string \<Rightarrow> string \<Rightarrow> lock_type \<Rightarrow> rat \<Rightarrow> jdict" where
  "acquire_data lid res owner lt ttl =
     [(''lock_id'', JStr lid), (''resource'', JStr res), (''owner'', JStr owner),
      (''lock_type'', JStr (lock_type_value lt)), (''ttl'', JFloat ttl)]"

definition decode_lock :: "rat \<Rightarrow> jdict \<Rightarrow> lock result" where
  "decode_lock now data =
     (case item_str data ''lock_id'' of Inl x \<Rightarrow> Inl x | Inr lid \<Rightarrow>
      case item_str data ''resource'' of Inl x \<Rightarrow> Inl x | Inr res \<Rightarrow>
      case item_str data ''owner'' of Inl x \<Rightarrow> Inl x | Inr owner \<Rightarrow>
      case item_str data ''lock_type'' of Inl x \<Rightarrow> Inl x | Inr ts \<Rightarrow>
      case lock_type_of ts of Inl x \<Rightarrow> Inl x | Inr lt \<Rightarrow>
      case item_num data ''ttl'' of Inl x \<Rightarrow> Inl x | Inr ttl \<Rightarrow>
      Inr \<lparr>lk_lock_id = lid, lk_resource = res, lk_owner = owner, lk_lock_type = lt,
           lk_acquired_at = now, lk_ttl = ttl\<rparr>)"

definition remove_waiter :: "string \<Rightarrow> string \<Rightarrow> lock_manager \<Rightarrow> lock_manager" where
  "remove_waiter res lid lm =
     (case map_of (lock_queue lm) res of None \<Rightarrow> lm
      | Some q \<Rightarrow> lm\<lparr>lock_queue := dict_set (lock_queue lm) res (filter (\<lambda>(c, t, l). l \<noteq> lid) q)\<rparr>)"

definition lm_handle_commit :: "rat \<Rightarrow> lock_manager callback" where
  "lm_handle_commit now entry lm =
     (if le_command entry = ''LOCK_ACQUIRE'' then
        (case decode_lock now (le_data entry) of Inl x \<Rightarrow> (Some x, lm)
         | Inr l \<Rightarrow>
            (let lm1 = lm\<lparr>locks := dict_set (locks lm) (lk_lock_id l) l\<rparr>;
                 lm2 = remove_waiter (lk_resource l) (lk_lock_id l) lm1
             in (None, lm2\<lparr>acquired_events := acquired_events lm2 @ [l]\<rparr>)))
      else if le_command entry = ''LOCK_RELEASE'' then
        (case item_str (le_data entry) ''lock_id'' of Inl x \<Rightarrow> (Some x, lm)
         | Inr lid \<Rightarrow>
            (None, if dict_has (locks lm) lid then lm\<lparr>locks := dict_del (locks lm) lid\<rparr> else lm))
      else (None, lm))"

section \<open>Acquiring and releasing\<close>

definition enqueue_waiter :: "string \<Rightarrow> waiter \<Rightarrow> lock_manager \<Rightarrow> lock_manager" where
  "enqueue_waiter res wt lm =
     (let lm1 = (if dict_has (lock_queue lm) res then lm
                 else lm\<lparr>lock_queue := dict_set (lock_queue lm) res []\<rparr>);
          q = (case map_of (lock_queue lm1) res of None \<Rightarrow> [] | Some q \<Rightarrow> q)
      in lm1\<lparr>lock_queue := dict_set (lock_queue lm1) res (q @ [wt])\<rparr>)"

definition register_wait :: "string \<Rightarrow> lock_type \<Rightarrow> string \<Rightarrow> string \<Rightarrow> lock_manager \<Rightarrow> lock_manager" where
  "register_wait res lt client lid lm =
     (let lm1 = enqueue_waiter res (client, lt, lid) lm in
      case get_lock_holder res lm1 of None \<Rightarrow> lm1
      | Some h \<Rightarrow> if h \<noteq> [] then lm1\<lparr>lm_wait_graph := add_edge (lm_wait_graph lm1) client h\<rparr> else lm1)"

text \<open>
  The loop of a waiting client: \<open>None\<close> when the fuel runs out, otherwise \<open>Some\<close> of the returned
  value (\<open>Some lock_id\<close>, or \<open>None\<close> on a timeout or an exception, which the \<open>except\<close> clause catches).
\<close>

fun wait_loop ::
  "(string \<Rightarrow> jdict \<Rightarrow> 'r \<times> lock_manager \<Rightarrow> bool result \<times> ('r \<times> lock_manager))
   \<Rightarrow> (nat \<Rightarrow> 'r \<times> lock_manager \<Rightarrow> 'r \<times> lock_manager) \<Rightarrow> (nat \<Rightarrow> rat) \<Rightarrow> rat
   \<Rightarrow> string \<Rightarrow> lock_type \<Rightarrow> string \<Rightarrow> string \<Rightarrow> rat \<Rightarrow> nat \<Rightarrow> nat \<Rightarrow> 'r \<times> lock_manager
   \<Rightarrow> string option option \<times> ('r \<times> lock_manager)" where
  "wait_loop raft_append env clock start res lt client lid timeout 0 k w = (None, w)"
| "wait_loop raft_append env clock start res lt client lid timeout (Suc fuel) k w =
     (case (if try_acquire res lt (snd w)
            then raft_append ''LOCK_ACQUIRE'' (acquire_data lid res client lt timeout) w
            else (Inr False, w)) of
        (Inl x, w1) \<Rightarrow> (Some None, w1)
      | (Inr True, w1) \<Rightarrow>
          (Some (Some lid),
           (fst w1, (snd w1)\<lparr>lm_wait_graph := remove_edges (lm_wait_graph (snd w1)) client\<rparr>))
      | (Inr False, w1) \<Rightarrow>
          if clock k - start > timeout then (Some None, w1)
          else wait_loop raft_append env clock start res lt client lid timeout fuel (Suc k) (env k w1))"

definition acquire_lock ::
  "(string \<Rightarrow> jdict \<Rightarrow> 'r \<times> lock_manager \<Rightarrow> bool result \<times> ('r \<times> lock_manager))
   \<Rightarrow> (nat \<Rightarrow> 'r \<times> lock_manager \<Rightarrow> 'r \<times> lock_manager) \<Rightarrow> (nat \<Rightarrow> rat) \<Rightarrow> rat \<Rightarrow> nat
   \<Rightarrow> string \<Rightarrow> lock_type \<Rightarrow> string \<Rightarrow> string \<Rightarrow> rat \<Rightarrow> 'r \<times> lock_manager
   \<Rightarrow> string option option \<times> ('r \<times> lock_manager)" where
  "acquire_lock raft_append env clock start fuel res lt client lid timeout w =
     (if try_acquire res lt (snd w) then
        (case raft_append ''LOCK_ACQUIRE'' (acquire_data lid res client lt timeout) w of
           (Inl x, w1) \<Rightarrow> (Some None, w1)
         | (Inr b, w1) \<Rightarrow> (Some (if b then Some lid else None), w1))
      else
        wait_loop raft_append env clock start res lt client lid timeout fuel 0
          (fst w, register_wait res lt client lid (snd w)))"

definition release_lock ::
  "(string \<Rightarrow> jdict \<Rightarrow> 'r \<times> lock_manager \<Rightarrow> bool result \<times> ('r \<times> lock_manager))
   \<Rightarrow> string \<Rightarrow> 'r \<times> lock_manager \<Rightarrow> bool result \<times> ('r \<times> lock_manager)" where
  "release_lock raft_append lid w =
     (if \<not> dict_has (locks (snd w)) lid then (Inr False, w)
      else raft_append ''LOCK_RELEASE'' [(''lock_id'', JStr lid)] w)"

text \<open>One turn of \<open>_deadlock_detection_loop\<close>, after its sleep. An exception ends the loop.\<close>

definition deadlock_check ::
  "(string \<Rightarrow> jdict \<Rightarrow> 'r \<times> lock_manager \<Rightarrow> bool result \<times> ('r \<times> lock_manager))
   \<Rightarrow> 'r \<times> lock_manager \<Rightarrow> exn option \<times> ('r \<times> lock_manager)" where
  "deadlock_check raft_append w =
     (case detect_cycle (lm_wait_graph (snd w)) of
        None \<Rightarrow> (None, w)
      | Some cycle \<Rightarrow>
          (let w1 = (fst w, (snd w)\<lparr>deadlock_events := deadlock_events (snd w) @ [cycle]\<rparr>);
               victim = hd cycle
           in case find (\<lambda>(lid, l). lk_owner l = victim) (locks (snd w1)) of
                None \<Rightarrow> (None, w1)
              | Some (lid, l) \<Rightarrow>
                  (case release_lock raft_append lid w1 of (Inl x, w2) \<Rightarrow> (Some x, w2)
                   | (Inr _, w2) \<Rightarrow> (None, w2))))"

end
