(* ===== verification/Lock_Props.thy ===== *)
theory Lock_Props
  imports Lock_Manager
begin

text \<open>
  What the lock manager guarantees. The locale \<open>lock_service\<close> states what the manager needs of the
  Raft node to keep an invariant of the whole node: an acquire entry may be appended when the check
  allows it, a release entry always, and bookkeeping does not matter. It is interpreted for every
  network with the well-formedness of the lock table, and for a leader without peers with mutual
  exclusion under any interleaving of clients (\<open>lock_activity\<close>).
\<close>

section \<open>The lock table\<close>

definition lm_wf :: "lock_manager \<Rightarrow> bool" where
  "lm_wf lm \<longleftrightarrow> dict_ok (locks lm) \<and> (\<forall>(k, l)\<in>set (locks lm). lk_lock_id l = k)"

definition lock_safe :: "lock_manager \<Rightarrow> bool" where
  "lock_safe lm \<longleftrightarrow> (\<forall>k1 l1 k2 l2. map_of (locks lm) k1 = Some l1 \<and> map_of (locks lm) k2 = Some l2
     \<and> k1 \<noteq> k2 \<and> lk_resource l1 = lk_resource l2
     \<longrightarrow> lk_lock_type l1 = LOCK_SHARED \<and> lk_lock_type l2 = LOCK_SHARED)"

lemma lock_type_not [simp]:
  "t \<noteq> LOCK_EXCLUSIVE \<longleftrightarrow> t = LOCK_SHARED" "t \<noteq> LOCK_SHARED \<longleftrightarrow> t = LOCK_EXCLUSIVE"
  by (cases t; simp)+

lemma try_acquire_iff:
  assumes "dict_ok (locks lm)"
  shows "try_acquire res lt lm \<longleftrightarrow>
    (\<forall>k l. map_of (locks lm) k = Some l \<and> lk_resource l = res
       \<longrightarrow> lt = LOCK_SHARED \<and> lk_lock_type l = LOCK_SHARED)"
proof -
  have cur: "l \<in> set (get_locks_for_resource res lm)
      \<longleftrightarrow> (\<exists>k. map_of (locks lm) k = Some l) \<and> lk_resource l = res" for l
    using dict_values_iff[OF assms, of l] by (simp add: get_locks_for_resource_def)
  show ?thesis
  proof (cases "get_locks_for_resource res lm")
    case Nil
    then show ?thesis using cur by (auto simp: try_acquire_def)
  next
    case (Cons l ls)
    then have "\<exists>k l. map_of (locks lm) k = Some l \<and> lk_resource l = res" using cur[of l] by auto
    moreover have "try_acquire res lt lm \<longleftrightarrow> lt = LOCK_SHARED
        \<and> (\<forall>l\<in>set (get_locks_for_resource res lm). lk_lock_type l = LOCK_SHARED)"
      using Cons by (cases lt) (auto simp: try_acquire_def Let_def)
    ultimately show ?thesis using cur by auto
  qed
qed

lemma remove_waiter_locks [simp]:
  "locks (remove_waiter res lid lm) = locks lm"
  "lm_wait_graph (remove_waiter res lid lm) = lm_wait_graph lm"
  by (simp_all add: remove_waiter_def split: option.split)

lemma decode_acquire_data [simp]:
  "decode_lock now (acquire_data lid res owner lt ttl) = Inr \<lparr>lk_lock_id = lid, lk_resource = res,
     lk_owner = owner, lk_lock_type = lt, lk_acquired_at = now, lk_ttl = ttl\<rparr>"
  by (simp add: decode_lock_def acquire_data_def item_defs)

lemma commit_locks:
  "locks (snd (lm_handle_commit now e lm)) =
     (if le_command e = ''LOCK_ACQUIRE'' then
        (case decode_lock now (le_data e) of Inl x \<Rightarrow> locks lm
         | Inr l \<Rightarrow> dict_set (locks lm) (lk_lock_id l) l)
      else if le_command e = ''LOCK_RELEASE'' then
        (case item_str (le_data e) ''lock_id'' of Inl x \<Rightarrow> locks lm
         | Inr lid \<Rightarrow> dict_del (locks lm) lid)
      else locks lm)"
proof -
  have "\<not> dict_has (locks lm) k \<Longrightarrow> dict_del (locks lm) k = locks lm" for k
    by (simp add: dict_has_iff)
  then show ?thesis by (auto simp: lm_handle_commit_def Let_def split: sum.split)
qed

lemma lm_wf_ok: "lm_wf lm \<Longrightarrow> dict_ok (locks lm)"
  by (simp add: lm_wf_def)

lemma lm_wf_cong: "locks lm' = locks lm \<Longrightarrow> lm_wf lm' = lm_wf lm"
  by (simp add: lm_wf_def)

lemma lock_safe_cong: "locks lm' = locks lm \<Longrightarrow> lock_safe lm' = lock_safe lm"
  by (simp add: lock_safe_def)

lemma lm_commit_wf: "lm_wf lm \<Longrightarrow> lm_wf (snd (lm_handle_commit now e lm))"
  by (auto simp: lm_wf_def commit_locks distinct_update distinct_delete
      dest!: subsetD[OF dict_set_items] subsetD[OF dict_del_items] split: sum.split)

lemma commit_release_safe:
  "le_command e \<noteq> ''LOCK_ACQUIRE'' \<Longrightarrow> lock_safe lm \<Longrightarrow> lock_safe (snd (lm_handle_commit now e lm))"
  unfolding lock_safe_def commit_locks
  by (auto simp: delete_conv' split: sum.split if_splits)

lemma commit_acquire_safe:
  assumes "dict_ok (locks lm)" and "lock_safe lm" and "try_acquire res lt lm"
    and "le_command e = ''LOCK_ACQUIRE''" and "le_data e = acquire_data lid res owner lt ttl"
  shows "lock_safe (snd (lm_handle_commit now e lm))"
  using assms(2,3) unfolding lock_safe_def commit_locks try_acquire_iff[OF assms(1)] assms(4,5)
  by (auto simp: update_conv')

interpretation lm_table: commit_listener "lm_handle_commit now" lm_wf for now
  by unfold_locales (rule lm_commit_wf)

section \<open>What the manager needs of the node\<close>

locale lock_service =
  fixes raft_append :: "string \<Rightarrow> jdict \<Rightarrow> 'r \<times> lock_manager \<Rightarrow> bool result \<times> ('r \<times> lock_manager)"
    and inv :: "'r \<times> lock_manager \<Rightarrow> bool"
  assumes acquire_keeps:
      "inv w \<Longrightarrow> try_acquire res lt (snd w)
         \<Longrightarrow> inv (snd (raft_append ''LOCK_ACQUIRE'' (acquire_data lid res owner lt ttl) w))"
    and release_keeps: "inv w \<Longrightarrow> inv (snd (raft_append ''LOCK_RELEASE'' [(''lock_id'', JStr lid)] w))"
    and bookkeeping: "inv (r, lm) \<Longrightarrow> locks lm' = locks lm \<Longrightarrow> inv (r, lm')"
begin

lemma bookkeeping_pair: "inv w \<Longrightarrow> locks lm' = locks (snd w) \<Longrightarrow> inv (fst w, lm')"
  by (cases w) (auto intro: bookkeeping)

lemma wait_loop_keeps:
  assumes "\<And>k w. inv w \<Longrightarrow> inv (env k w)"
  shows "inv w \<Longrightarrow> inv (snd (wait_loop raft_append env clock start res lt client lid timeout fuel k w))"
proof (induction fuel arbitrary: k w)
  case 0
  then show ?case by simp
next
  case (Suc fuel)
  let ?att = "if try_acquire res lt (snd w)
     then raft_append ''LOCK_ACQUIRE'' (acquire_data lid res client lt timeout) w else (Inr False, w)"
  have w1: "inv (snd ?att)" using Suc.prems acquire_keeps by simp
  obtain x w1 where att: "?att = (x, w1)" by (rule prod.exhaust)
  have i: "inv w1" using w1 unfolding att by simp
  show ?case
  proof (cases x)
    case (Inl y)
    then show ?thesis using att i by simp
  next
    case (Inr b)
    then show ?thesis using att i Suc.IH[OF assms[OF i]] bookkeeping_pair[OF i]
      by (cases b) simp_all
  qed
qed

lemma register_wait_locks: "locks (register_wait res lt client lid lm) = locks lm"
  by (simp add: register_wait_def enqueue_waiter_def Let_def split: option.split)

lemma acquire_lock_keeps:
  assumes "\<And>k w. inv w \<Longrightarrow> inv (env k w)" and "inv w"
  shows "inv (snd (acquire_lock raft_append env clock start fuel res lt client lid timeout w))"
proof (cases "try_acquire res lt (snd w)")
  case True
  obtain x w1 where app:
    "raft_append ''LOCK_ACQUIRE'' (acquire_data lid res client lt timeout) w = (x, w1)"
    by (rule prod.exhaust)
  then have "inv w1" using acquire_keeps[OF assms(2) True, of lid client timeout] by simp
  then show ?thesis using True app by (cases x) (simp_all add: acquire_lock_def)
next
  case False
  then show ?thesis
    using wait_loop_keeps[OF assms(1)] bookkeeping_pair[OF assms(2) register_wait_locks]
    by (simp add: acquire_lock_def)
qed

lemma release_lock_keeps: "inv w \<Longrightarrow> inv (snd (release_lock raft_append lid w))"
  by (simp add: release_lock_def release_keeps)

lemma deadlock_check_keeps:
  assumes "inv w"
  shows "inv (snd (deadlock_check raft_append w))"
proof (cases "detect_cycle (lm_wait_graph (snd w))")
  case None
  then show ?thesis using assms by (simp add: deadlock_check_def)
next
  case (Some c)
  let ?w1 = "(fst w, (snd w)\<lparr>deadlock_events := deadlock_events (snd w) @ [c]\<rparr>)"
  have w1: "inv ?w1" using assms by (rule bookkeeping_pair) simp
  then show ?thesis using Some release_lock_keeps[OF w1]
    by (auto simp: deadlock_check_def Let_def split: option.split prod.split sum.split)
      (metis snd_conv)+
qed

end

section \<open>The node as the manager's client sees it\<close>

abbreviation lm_append ::
  "(string \<Rightarrow> message \<Rightarrow> message option) \<Rightarrow> rat \<Rightarrow> string \<Rightarrow> jdict
     \<Rightarrow> raft_node \<times> lock_manager \<Rightarrow> bool result \<times> (raft_node \<times> lock_manager)" where
  "lm_append send now \<equiv> append_entry [lm_handle_commit now] send now"

text \<open>Any network: the table stays well-formed.\<close>

interpretation lm_any: lock_service "lm_append send now" "\<lambda>w. lm_wf (snd w)" for send now
proof (unfold_locales, goal_cases)
  case (1 w res lt lid owner ttl)
  then show ?case by (intro lm_table.append_entry_inv)
next
  case (2 w d)
  then show ?case by (intro lm_table.append_entry_inv)
qed (simp add: lm_wf_def)

text \<open>On a leader without peers an append has no suspension point, so what runs between two sleeps of a task is one
  step, and exclusive locks stay exclusive.\<close>

definition single_inv :: "raft_node \<times> lock_manager \<Rightarrow> bool" where
  "single_inv w \<longleftrightarrow> settled (fst w) \<and> lm_wf (snd w) \<and> lock_safe (snd w)"

lemma single_append_snd:
  assumes "settled n"
  shows "settled (fst (snd (lm_append send now c d (n, lm))))"
    and "snd (snd (lm_append send now c d (n, lm))) = snd (lm_handle_commit now (new_entry n c d) lm)"
proof -
  obtain x n' lm' where app: "lm_append send now c d (n, lm) = (x, (n', lm'))" by (metis prod_cases3)
  show "settled (fst (snd (lm_append send now c d (n, lm))))" using settled_call(1)[OF assms app] app by simp
  show "snd (snd (lm_append send now c d (n, lm))) = snd (lm_handle_commit now (new_entry n c d) lm)"
    using settled_call(2)[OF assms app] app by simp
qed

lemma single_other:
  assumes "single_inv w" and "c \<noteq> ''LOCK_ACQUIRE''"
  shows "single_inv (snd (lm_append send now c d w))"
  using assms single_append_snd[where n = "fst w" and lm = "snd w" and send = send and now = now]
  by (auto simp: single_inv_def lm_commit_wf new_entry_def intro: commit_release_safe)

interpretation lm_single: lock_service "lm_append send now" single_inv for send now
proof (unfold_locales, goal_cases)
  case (1 w res lt lid owner ttl)
  then show ?case using single_append_snd[where n = "fst w" and lm = "snd w" and send = send and now = now]
    by (auto simp: single_inv_def lm_commit_wf new_entry_def
        intro: commit_acquire_safe[OF lm_wf_ok, of "snd w" res lt])
next
  case (2 w d)
  then show ?case by (intro single_other) simp_all
next
  case (3 r lm lm')
  then show ?case by (simp add: single_inv_def lm_wf_cong[of lm' lm] lock_safe_cong[of lm' lm])
qed

section \<open>What other tasks do\<close>

text \<open>
  The segments between two suspension points that touch the lock manager, for any clients: an attempt that
  appends, the end of a wait, the registration of a waiter, a release, the deadlock check, and the appends
  of the other services.
\<close>

inductive lock_activity :: "(string \<Rightarrow> message \<Rightarrow> message option) \<Rightarrow> raft_node \<times> lock_manager \<Rightarrow> raft_node \<times> lock_manager \<Rightarrow> bool"
  for send where
  la_attempt: "try_acquire res lt (snd w)
     \<Longrightarrow> lock_activity send w (snd (lm_append send now ''LOCK_ACQUIRE'' (acquire_data lid res client lt ttl) w))"
| la_granted: "lock_activity send (n, lm) (n, lm\<lparr>lm_wait_graph := remove_edges (lm_wait_graph lm) client\<rparr>)"
| la_wait: "lock_activity send (n, lm) (n, register_wait res lt client lid lm)"
| la_release: "lock_activity send w (snd (release_lock (lm_append send now) lid w))"
| la_deadlock: "lock_activity send w (snd (deadlock_check (lm_append send now) w))"
| la_other: "c \<noteq> ''LOCK_ACQUIRE'' \<Longrightarrow> lock_activity send w (snd (lm_append send now c d w))"

lemma activity_keeps: "lock_activity send w w' \<Longrightarrow> single_inv w \<Longrightarrow> single_inv w'"
proof (induction rule: lock_activity.induct)
  case (la_attempt res lt w now lid client ttl)
  then show ?case by (intro lm_single.acquire_keeps)
next
  case (la_granted n lm client)
  then show ?case by (rule lm_single.bookkeeping) simp
next
  case (la_wait n lm res lt client lid)
  then show ?case by (rule lm_single.bookkeeping) (rule lm_single.register_wait_locks)
next
  case (la_release w now lid)
  then show ?case by (rule lm_single.release_lock_keeps)
next
  case (la_deadlock w now)
  then show ?case by (rule lm_single.deadlock_check_keeps)
next
  case (la_other c w now d)
  then show ?case by (intro single_other)
qed

lemma activities_keep: "(lock_activity send)\<^sup>*\<^sup>* w w' \<Longrightarrow> single_inv w \<Longrightarrow> single_inv w'"
  by (induction rule: rtranclp_induct) (auto intro: activity_keeps)

section \<open>Properties\<close>

text \<open>Whatever the network, the peers and the clients do, every run of the node keeps the lock
  table well-formed: the identifiers are distinct and each lock is stored under its own.\<close>

theorem lock_table_well_formed:
  assumes "raft_run [lm_handle_commit now] (n, lm) (n', lm')" and "lm_wf lm"
  shows "lm_wf lm'"
  using lm_table.run_keeps_inv[OF assms(1)] assms(2) by simp

theorem lock_table_well_formed_witness:
  "lm_wf (snd (snd (lm_append (\<lambda>p m. None) 0 ''LOCK_ACQUIRE''
     (acquire_data ''id1'' ''r'' ''c1'' LOCK_EXCLUSIVE 30) (single_leader, init_lock_manager))))"
proof -
  let ?w = "lm_append (\<lambda>p m. None) 0 ''LOCK_ACQUIRE''
     (acquire_data ''id1'' ''r'' ''c1'' LOCK_EXCLUSIVE 30) (single_leader, init_lock_manager)"
  have "raft_run [lm_handle_commit 0] (single_leader, init_lock_manager) (fst (snd ?w), snd (snd ?w))"
    by (rule r_into_rtranclp, rule rs_client_single[where x = "fst ?w"])
      (simp_all only: prod.collapse single_leader_state)
  then show ?thesis
    by (rule lock_table_well_formed) (simp add: lm_wf_def init_lock_manager_def)
qed

lemma single_inv_init: "single_inv (single_leader, init_lock_manager)"
  by (simp add: single_inv_def single_leader_settled lm_wf_def lock_safe_def init_lock_manager_def)

lemma lm_append_acquire:
  assumes "serving send n"
  shows "lm_append send now ''LOCK_ACQUIRE'' (acquire_data lid res client lt ttl) (n, lm) = (x, (n', lm'))
    \<Longrightarrow> x = Inr True \<and> map_of (locks lm') lid = Some \<lparr>lk_lock_id = lid, lk_resource = res,
          lk_owner = client, lk_lock_type = lt, lk_acquired_at = now, lk_ttl = ttl\<rparr>"
  using served_call(2,3)[OF assms] by (fastforce simp: lm_handle_commit_def Let_def update_conv')

lemma wait_loop_records:
  assumes "\<And>k w. single_inv w \<Longrightarrow> single_inv (env k w)"
  shows "single_inv w \<Longrightarrow>
    wait_loop (lm_append send now) env clock start res lt client lid timeout fuel k w = (Some (Some l), (n', lm'))
    \<Longrightarrow> l = lid \<and> map_of (locks lm') lid = Some \<lparr>lk_lock_id = lid, lk_resource = res, lk_owner = client,
          lk_lock_type = lt, lk_acquired_at = now, lk_ttl = timeout\<rparr>"
proof (induction fuel arbitrary: k w)
  case 0
  then show ?case by simp
next
  case (Suc fuel)
  obtain n lm where w: "w = (n, lm)" by (cases w)
  have st: "serving send n" using Suc.prems(1) w settled_serving by (simp add: single_inv_def)
  show ?case
  proof (cases "try_acquire res lt lm")
    case False
    then show ?thesis using Suc.prems Suc.IH[OF assms[OF Suc.prems(1)]] w by (auto split: if_splits)
  next
    case True
    obtain x n1 lm1 where app:
      "lm_append send now ''LOCK_ACQUIRE'' (acquire_data lid res client lt timeout) (n, lm) = (x, (n1, lm1))"
      by (metis prod_cases3)
    from lm_append_acquire[OF st app] show ?thesis using True app Suc.prems(2) w by auto
  qed
qed

text \<open>C11: On a leader without peers \<open>acquire_lock\<close> keeps mutual exclusion (an exclusive lock is the only lock on its
  resource) through its whole wait, whatever any number of other clients, the deadlock detection and the
  other services do during its sleeps (\<open>lock_activity\<close>), and a returned identifier is stored in the table with
  the requested resource, owner, type and ttl. On such a node an append has no suspension point; with
  peers it has one, and then the statement is false (\<open>concurrent_acquires_both_granted\<close>).\<close>

theorem acquire_lock_mutual_exclusion:
  assumes "settled n" and "lm_wf lm" and "lock_safe lm" and "\<And>k w. (lock_activity send)\<^sup>*\<^sup>* w (env k w)"
    and "acquire_lock (lm_append send now) env clock start fuel res lt client lid timeout (n, lm)
           = (r, (n', lm'))"
  shows "lock_safe lm' \<and> (\<forall>l. r = Some (Some l) \<longrightarrow> l = lid \<and> map_of (locks lm') lid =
     Some \<lparr>lk_lock_id = lid, lk_resource = res, lk_owner = client, lk_lock_type = lt,
           lk_acquired_at = now, lk_ttl = timeout\<rparr>)"
proof -
  have inv: "single_inv (n, lm)" using assms(1-3) by (simp add: single_inv_def)
  have env: "single_inv (env k w)" if "single_inv w" for k w by (rule activities_keep[OF assms(4) that])
  have "single_inv (snd (acquire_lock (lm_append send now) env clock start fuel res lt client lid timeout (n, lm)))"
    by (rule lm_single.acquire_lock_keeps) (rule env, assumption, rule inv)
  then have "single_inv (n', lm')" using assms(5) by simp
  moreover have "r = Some (Some l) \<longrightarrow> l = lid \<and> map_of (locks lm') lid =
     Some \<lparr>lk_lock_id = lid, lk_resource = res, lk_owner = client, lk_lock_type = lt,
           lk_acquired_at = now, lk_ttl = timeout\<rparr>" for l
  proof (cases "try_acquire res lt lm")
    case True
    have st: "serving send n" by (rule settled_serving[OF assms(1)])
    obtain x n1 lm1 where app:
      "lm_append send now ''LOCK_ACQUIRE'' (acquire_data lid res client lt timeout) (n, lm) = (x, (n1, lm1))"
      by (metis prod_cases3)
    from lm_append_acquire[OF st app] show ?thesis using True app assms(5) by (auto simp: acquire_lock_def)
  next
    case False
    have reg: "single_inv (n, register_wait res lt client lid lm)"
      using lm_single.bookkeeping[OF inv lm_single.register_wait_locks] .
    show ?thesis using wait_loop_records[OF env reg] False assms(5)
      by (auto simp: acquire_lock_def)
  qed
  ultimately show ?thesis unfolding single_inv_def by auto
qed

text \<open>A client waits for the lock of another, which releases it during the first sleep.\<close>

definition held_manager :: lock_manager where
  "held_manager = init_lock_manager\<lparr>locks := [(''id0'', \<lparr>lk_lock_id = ''id0'', lk_resource = ''r'', lk_owner = ''c0'',
     lk_lock_type = LOCK_EXCLUSIVE, lk_acquired_at = 0, lk_ttl = 30\<rparr>)]\<rparr>"

theorem acquire_lock_mutual_exclusion_witness:
  "\<exists>n' lm'. acquire_lock (lm_append (\<lambda>p m. None) 0) (\<lambda>k w. snd (release_lock (lm_append (\<lambda>p m. None) 0) ''id0'' w))
      (\<lambda>k. 0) 0 2 ''r'' LOCK_EXCLUSIVE ''c1'' ''id1'' 30 (single_leader, held_manager) = (Some (Some ''id1''), (n', lm')) \<and> lock_safe lm'"
proof -
  let ?env = "\<lambda>k w. snd (release_lock (lm_append (\<lambda>p m. None) 0) ''id0'' w)"
  let ?a = "acquire_lock (lm_append (\<lambda>p m. None) 0) ?env (\<lambda>k. 0) 0 2 ''r'' LOCK_EXCLUSIVE ''c1'' ''id1'' 30 (single_leader, held_manager)"
  have "fst ?a = Some (Some ''id1'')" unfolding single_leader_def held_manager_def by code_simp
  then have a: "?a = (Some (Some ''id1''), (fst (snd ?a), snd (snd ?a)))" by (metis prod.collapse)
  have "lm_wf held_manager" "lock_safe held_manager"
    by (simp_all add: held_manager_def lm_wf_def lock_safe_def init_lock_manager_def)
  from acquire_lock_mutual_exclusion[OF single_leader_settled this _ a] have "lock_safe (snd (snd ?a))"
    using la_release by (metis r_into_rtranclp)
  with a show ?thesis by blast
qed

text \<open>C12: Mutual exclusion under interleaving: on a leader without peers, after any interleaving of attempts, waits,
  releases and deadlock checks of any number of clients and of appends of the other services, starting
  from an empty manager, an exclusive lock in the table is the only lock on its resource.\<close>

theorem interleaved_mutual_exclusion:
  assumes "settled n" and "(lock_activity send)\<^sup>*\<^sup>* (n, init_lock_manager) (n', lm)"
    and "map_of (locks lm) i = Some l" and "map_of (locks lm) j = Some l'"
    and "lk_resource l = lk_resource l'" and "lk_lock_type l = LOCK_EXCLUSIVE"
  shows "i = j"
proof -
  have "single_inv (n, init_lock_manager)"
    using assms(1) by (simp add: single_inv_def lm_wf_def lock_safe_def init_lock_manager_def)
  from activities_keep[OF assms(2) this] have "lock_safe lm" by (simp add: single_inv_def)
  then have "i \<noteq> j \<longrightarrow> lk_lock_type l = LOCK_SHARED" using assms(3-5) unfolding lock_safe_def by blast
  then show ?thesis using assms(6) by auto
qed

theorem interleaved_mutual_exclusion_witness:
  "let w1 = snd (lm_append (\<lambda>p m. None) 0 ''LOCK_ACQUIRE'' (acquire_data ''id1'' ''r'' ''c1'' LOCK_EXCLUSIVE 30) (single_leader, init_lock_manager));
       w2 = (fst w1, register_wait ''r'' LOCK_EXCLUSIVE ''c2'' ''id2'' (snd w1))
   in {i. \<exists>l. map_of (locks (snd w2)) i = Some l \<and> lk_resource l = ''r''} = {''id1''}"
proof -
  define w1 where "w1 = snd (lm_append (\<lambda>p m. None) 0 ''LOCK_ACQUIRE'' (acquire_data ''id1'' ''r'' ''c1'' LOCK_EXCLUSIVE 30) (single_leader, init_lock_manager))"
  let ?w2 = "(fst w1, register_wait ''r'' LOCK_EXCLUSIVE ''c2'' ''id2'' (snd w1))"
  have "lock_activity (\<lambda>p m. None) (single_leader, init_lock_manager) w1"
    unfolding w1_def by (rule la_attempt) (simp add: try_acquire_def get_locks_for_resource_def init_lock_manager_def)
  moreover have "lock_activity (\<lambda>p m. None) w1 ?w2" using la_wait[of _ "fst w1" "snd w1"] by simp
  ultimately have run: "(lock_activity (\<lambda>p m. None))\<^sup>*\<^sup>* (single_leader, init_lock_manager) ?w2" by simp
  have held: "map_of (locks (snd ?w2)) ''id1'' = Some \<lparr>lk_lock_id = ''id1'', lk_resource = ''r'', lk_owner = ''c1'',
      lk_lock_type = LOCK_EXCLUSIVE, lk_acquired_at = 0, lk_ttl = 30\<rparr>"
    using lm_append_acquire[OF single_leader_serving] unfolding w1_def
    by (simp add: lm_any.register_wait_locks) (metis prod.collapse)
  have "''id1'' = i" if "map_of (locks (snd ?w2)) i = Some l" "lk_resource l = ''r''" for i l
    by (rule interleaved_mutual_exclusion[OF single_leader_settled run held[unfolded snd_conv] that(1)[unfolded snd_conv]])
      (simp_all add: that(2))
  moreover have "\<exists>l. map_of (locks (snd ?w2)) ''id1'' = Some l \<and> lk_resource l = ''r''" using held by simp
  ultimately show ?thesis unfolding Let_def w1_def[symmetric] by blast
qed

lemma wait_loop_bounded:
  assumes "\<And>k. start + of_nat k / 10 \<le> clock k"
  shows "0 < fuel \<Longrightarrow> 10 * timeout < of_nat (fuel + k) - 1 \<Longrightarrow>
    fst (wait_loop raft_append env clock start res lt client lid timeout fuel k w) \<noteq> None"
proof (induction fuel arbitrary: k w)
  case 0
  then show ?case by simp
next
  case (Suc fuel)
  have rec: "fst (wait_loop raft_append env clock start res lt client lid timeout fuel (Suc k) w') \<noteq> None"
    if "\<not> clock k - start > timeout" for w'
  proof (rule Suc.IH)
    have "of_nat k \<le> 10 * timeout" using that assms[of k] by linarith
    then show "0 < fuel" using Suc.prems(2) by (cases fuel) simp_all
    show "10 * timeout < of_nat (fuel + Suc k) - 1" using Suc.prems(2) by simp
  qed
  show ?case using rec by (auto split: prod.split sum.split bool.split)
qed

text \<open>C24: \<open>acquire_lock\<close> terminates: if the clock advances by at least the 0.1 s of each sleep, the
  client returns (with the lock or without) after at most \<open>10 * timeout + 2\<close> checks, whatever the
  node and the other tasks do.\<close>

theorem acquire_lock_terminates:
  assumes "\<And>k. start + of_nat k / 10 \<le> clock k" and "10 * timeout + 1 < of_nat fuel" and "0 < fuel"
  shows "fst (acquire_lock raft_append env clock start fuel res lt client lid timeout w) \<noteq> None"
  using wait_loop_bounded[OF assms(1), where k = 0 and fuel = fuel and timeout = timeout] assms(2,3)
  by (auto simp: acquire_lock_def split: prod.split sum.split)

theorem acquire_lock_terminates_witness:
  "fst (acquire_lock (lm_append (\<lambda>p m. None) 0) (\<lambda>k w. w) (\<lambda>k. of_nat k / 10) 0 302 ''r'' LOCK_EXCLUSIVE ''c''
     ''id'' 30 (single_leader, init_lock_manager)) \<noteq> None"
  by (rule acquire_lock_terminates) simp_all

text \<open>Releasing a known lock on a serving leader returns true and removes exactly that lock;
  an unknown identifier returns false and changes nothing.\<close>

theorem release_lock_effect:
  assumes "serving send n"
  shows "\<exists>n'. serving send n' \<and> release_lock (lm_append send now) lid (n, lm) =
     (if dict_has (locks lm) lid then (Inr True, (n', lm\<lparr>locks := dict_del (locks lm) lid\<rparr>)) else (Inr False, (n, lm)))"
proof (cases "dict_has (locks lm) lid")
  case True
  have "lm_handle_commit now e lm = (None, lm\<lparr>locks := dict_del (locks lm) lid\<rparr>)"
    if "le_command e = ''LOCK_RELEASE''" "le_data e = [(''lock_id'', JStr lid)]" for e
    using that True by (simp add: lm_handle_commit_def item_defs)
  from served.direct[where send = send and now = now and cb = "lm_handle_commit now", OF assms UNIV_I this]
  show ?thesis using True by (auto simp: release_lock_def)
next
  case False
  then show ?thesis using assms by (auto simp: release_lock_def)
qed

theorem release_lock_effect_witness:
  "fst (release_lock (lm_append always_yes 0) ''id1'' (serving_leader, init_lock_manager)) = Inr False"
  using release_lock_effect[OF serving_leader_serving, where now = 0 and lid = "''id1''" and lm = init_lock_manager]
  by (auto simp: init_lock_manager_def dict_has_def)

text \<open>A client that starts to wait adds one edge to the wait-for graph, to the holder of an
  exclusive lock on the resource, and none when the resource is held by shared locks only.\<close>

theorem register_wait_edges:
  "edges (lm_wait_graph (register_wait res lt client lid lm)) =
     (case get_lock_holder res lm of None \<Rightarrow> edges (lm_wait_graph lm)
      | Some h \<Rightarrow> if h = [] then edges (lm_wait_graph lm)
                  else insert (client, h) (edges (lm_wait_graph lm)))"
proof -
  let ?q = "enqueue_waiter res (client, lt, lid) lm"
  have q: "locks ?q = locks lm" "lm_wait_graph ?q = lm_wait_graph lm"
    by (simp_all add: enqueue_waiter_def Let_def)
  then have "get_lock_holder res ?q = get_lock_holder res lm" by (simp add: get_lock_holder_def)
  then show ?thesis using q by (simp add: register_wait_def Let_def edges_add_edge split: option.split)
qed

lemma register_wait_queued:
  "\<exists>q. map_of (lock_queue (register_wait res lt client lid lm)) res = Some (q @ [(client, lt, lid)])"
  by (auto simp: register_wait_def enqueue_waiter_def Let_def update_conv' split: option.split)

text \<open>A client that gives up after its timeout stays in the wait queue of the resource and in
  the wait-for graph: nothing removes it.\<close>

theorem timed_out_waiter_remains:
  assumes "\<not> try_acquire res lt lm" and "get_lock_holder res lm = Some h" and "h \<noteq> []"
    and "timeout < clock 0 - start"
  shows "\<exists>lm'. acquire_lock raft_append env clock start (Suc fuel) res lt client lid timeout (r, lm)
            = (Some None, (r, lm'))
       \<and> (\<exists>q. map_of (lock_queue lm') res = Some q \<and> (client, lt, lid) \<in> set q)
       \<and> (client, h) \<in> edges (lm_wait_graph lm')"
proof -
  let ?lm = "register_wait res lt client lid lm"
  have "locks ?lm = locks lm" by (rule lm_single.register_wait_locks)
  then have "\<not> try_acquire res lt ?lm"
    using assms(1) by (simp add: try_acquire_def get_locks_for_resource_def)
  moreover have "(client, h) \<in> edges (lm_wait_graph ?lm)"
  proof -
    let ?q = "enqueue_waiter res (client, lt, lid) lm"
    have "locks ?q = locks lm" "lm_wait_graph ?q = lm_wait_graph lm"
      by (simp_all add: enqueue_waiter_def Let_def)
    then have "get_lock_holder res ?q = Some h" using assms(2) by (simp add: get_lock_holder_def)
    then show ?thesis using assms(3) by (simp add: register_wait_def Let_def edges_add_edge)
  qed
  ultimately show ?thesis
    using assms(1,4) register_wait_queued[of res lt client lid lm] by (auto simp: acquire_lock_def)
qed

definition sample_lock :: "string \<Rightarrow> string \<Rightarrow> string \<Rightarrow> lock_type \<Rightarrow> string \<times> lock" where
  "sample_lock lid res owner lt = (lid, \<lparr>lk_lock_id = lid, lk_resource = res, lk_owner = owner,
     lk_lock_type = lt, lk_acquired_at = 0, lk_ttl = 30\<rparr>)"

theorem timed_out_waiter_remains_witness:
  "\<exists>lm'. acquire_lock (lm_append (\<lambda>p m. None) 0) (\<lambda>k w. w) (\<lambda>k. 31) 0 1 ''r'' LOCK_SHARED ''c2'' ''id2'' 30
      (single_leader, init_lock_manager\<lparr>locks := [sample_lock ''id1'' ''r'' ''c1'' LOCK_EXCLUSIVE]\<rparr>)
      = (Some None, (single_leader, lm'))
    \<and> (\<exists>q. map_of (lock_queue lm') ''r'' = Some q \<and> (''c2'', LOCK_SHARED, ''id2'') \<in> set q)
    \<and> (''c2'', ''c1'') \<in> edges (lm_wait_graph lm')"
proof -
  let ?lm = "init_lock_manager\<lparr>locks := [sample_lock ''id1'' ''r'' ''c1'' LOCK_EXCLUSIVE]\<rparr>"
  have "\<not> try_acquire ''r'' LOCK_SHARED ?lm" "get_lock_holder ''r'' ?lm = Some ''c1''"
    by (simp_all add: try_acquire_def get_locks_for_resource_def get_lock_holder_def sample_lock_def)
  from timed_out_waiter_remains[OF this, where fuel = 0 and clock = "\<lambda>k. 31" and start = 0 and timeout = 30
      and raft_append = "lm_append (\<lambda>p m. None) 0" and env = "\<lambda>k w. w" and client = "''c2''"
      and lid = "''id2''" and r = single_leader]
  show ?thesis by simp
qed

text \<open>The commit callback does not repeat the check of \<open>_try_acquire\<close>: two clients that both
  passed it before either entry was committed both end up with an exclusive lock on the resource.\<close>

theorem concurrent_acquires_both_granted:
  "let lm0 = init_lock_manager;
       e = (\<lambda>lid c. \<lparr>le_term = 1, le_index = 0, le_command = ''LOCK_ACQUIRE'',
              le_data = acquire_data lid ''r'' c LOCK_EXCLUSIVE 30\<rparr>);
       lm2 = snd (lm_handle_commit 0 (e ''id2'' ''c2'') (snd (lm_handle_commit 0 (e ''id1'' ''c1'') lm0)))
   in try_acquire ''r'' LOCK_EXCLUSIVE lm0
      \<and> map (\<lambda>l. (lk_owner l, lk_lock_type l)) (get_locks_for_resource ''r'' lm2)
          = [(''c1'', LOCK_EXCLUSIVE), (''c2'', LOCK_EXCLUSIVE)]"
  by (simp add: lm_handle_commit_def try_acquire_def get_locks_for_resource_def init_lock_manager_def
      remove_waiter_def Let_def)

text \<open>The victim of a deadlock is the first node of the search path, which need not be part of
  the deadlock: with c1 waiting for c2, and c2 and c3 waiting for each other, the lock of c1, which is
  on no cycle, is released, and the graph still has the cycle.\<close>

theorem deadlock_victim_off_cycle:
  "let g = [(''c1'', [''c2'']), (''c2'', [''c3'']), (''c3'', [''c2''])];
       lm = init_lock_manager\<lparr>lm_wait_graph := g, locks := [sample_lock ''id1'' ''r1'' ''c1'' LOCK_EXCLUSIVE,
              sample_lock ''id2'' ''r2'' ''c2'' LOCK_EXCLUSIVE, sample_lock ''id3'' ''r3'' ''c3'' LOCK_EXCLUSIVE]\<rparr>;
       lm' = snd (snd (deadlock_check (lm_append (\<lambda>p m. None) 0) (single_leader, lm)))
   in detect_cycle g = Some [''c1'', ''c2'', ''c3'', ''c2'']
      \<and> (''c1'', ''c1'') \<notin> (edges g)\<^sup>+
      \<and> dict_keys (locks lm') = [''id2'', ''id3'']
      \<and> detect_cycle (lm_wait_graph lm') \<noteq> None"
proof -
  let ?g = "[(''c1'', [''c2'']), (''c2'', [''c3'']), (''c3'', [''c2''])] :: string wait_graph"
  have d: "detect_cycle ?g = Some [''c1'', ''c2'', ''c3'', ''c2'']"
    by (simp add: detect_cycle_def dfs_def neighbours_def)
  have "(x, y) \<in> (edges ?g)\<^sup>+ \<Longrightarrow> y \<noteq> ''c1''" for x y
    by (induction rule: trancl_induct) (auto simp: edges_def neighbours_def split: if_splits)
  then have n: "(''c1'', ''c1'') \<notin> (edges ?g)\<^sup>+" by blast
  show ?thesis
    using d n by (simp add: deadlock_check_def release_lock_def settled_append[OF single_leader_settled]
        sample_lock_def dict_has_def lm_handle_commit_def new_entry_def item_defs Let_def)
qed

end
