(* ===== verification/Hash_Ring.thy ===== *)
theory Hash_Ring
  imports Py_Prelude
begin

text \<open>
  \<^verbatim>\<open>src/services/queue_service.py\<close>, class \<open>ConsistentHashRing\<close>. The argument \<open>h\<close> is
  \<open>\<lambda>s. int(hashlib.md5(s.encode()).hexdigest(), 16)\<close>; every theorem holds for every function, so no
  property of MD5 is used and colliding virtual keys are covered.
\<close>

record hash_ring =
  hr_nodes :: "string list"
  virtual_nodes :: nat
  ring :: "(nat, string) dict"
  sorted_keys :: "nat list"

definition virtual_key :: "string \<Rightarrow> nat \<Rightarrow> string" where
  "virtual_key node i = node @ '':'' @ str_nat i"

definition put_node :: "(string \<Rightarrow> nat) \<Rightarrow> nat \<Rightarrow> string \<Rightarrow> (nat, string) dict \<Rightarrow> (nat, string) dict" where
  "put_node h v node r = fold (\<lambda>i r. dict_set r (h (virtual_key node i)) node) [0..<v] r"

definition ring_of :: "(string \<Rightarrow> nat) \<Rightarrow> string list \<Rightarrow> nat \<Rightarrow> (nat, string) dict" where
  "ring_of h nodes v = fold (put_node h v) nodes []"

definition build_ring :: "(string \<Rightarrow> nat) \<Rightarrow> hash_ring \<Rightarrow> hash_ring" where
  "build_ring h hr =
     (let r = ring_of h (hr_nodes hr) (virtual_nodes hr)
      in hr\<lparr>ring := r, sorted_keys := sort (dict_keys r)\<rparr>)"

definition init_ring :: "(string \<Rightarrow> nat) \<Rightarrow> string list \<Rightarrow> nat \<Rightarrow> hash_ring" where
  "init_ring h nodes v =
     build_ring h \<lparr>hr_nodes = nodes, virtual_nodes = v, ring = [], sorted_keys = []\<rparr>"

definition node_at :: "hash_ring \<Rightarrow> nat \<Rightarrow> string result" where
  "node_at hr k = (case map_of (ring hr) k of None \<Rightarrow> Inl (KeyError ''ring'') | Some n \<Rightarrow> Inr n)"

definition get_node :: "(string \<Rightarrow> nat) \<Rightarrow> hash_ring \<Rightarrow> string \<Rightarrow> string result" where
  "get_node h hr key =
     (case sorted_keys hr of [] \<Rightarrow> Inl (ValueError ''No nodes in ring'')
      | k0 # ks \<Rightarrow>
         (case find (\<lambda>k. h key \<le> k) (sorted_keys hr) of
            Some k \<Rightarrow> node_at hr k
          | None \<Rightarrow> node_at hr k0))"

text \<open>
  The two loops of \<open>get_replicas\<close>: they walk over keys, skip those that fail the test, and stop when
  the list is long enough. The local set \<open>seen\<close> is always the set of \<open>replicas\<close>.
\<close>

fun collect_nodes ::
  "hash_ring \<Rightarrow> (nat \<Rightarrow> bool) \<Rightarrow> int \<Rightarrow> nat list \<Rightarrow> string list \<Rightarrow> string list result" where
  "collect_nodes hr ok count [] replicas = Inr replicas"
| "collect_nodes hr ok count (k # ks) replicas =
     (if ok k then
        (case node_at hr k of Inl x \<Rightarrow> Inl x
         | Inr node \<Rightarrow>
            if node \<notin> set replicas then
              (if int (length (replicas @ [node])) \<ge> count then Inr (replicas @ [node])
               else collect_nodes hr ok count ks (replicas @ [node]))
            else collect_nodes hr ok count ks replicas)
      else collect_nodes hr ok count ks replicas)"

definition get_replicas :: "(string \<Rightarrow> nat) \<Rightarrow> hash_ring \<Rightarrow> string \<Rightarrow> int \<Rightarrow> string list result" where
  "get_replicas h hr key count =
     (case collect_nodes hr (\<lambda>k. h key \<le> k) count (sorted_keys hr @ sorted_keys hr) [] of
        Inl x \<Rightarrow> Inl x
      | Inr replicas \<Rightarrow>
         (case (if int (length replicas) < count
                then collect_nodes hr (\<lambda>k. True) count (sorted_keys hr) replicas
                else Inr replicas) of
            Inl x \<Rightarrow> Inl x
          | Inr replicas' \<Rightarrow> Inr (py_take count replicas')))"

definition ring_add_node :: "(string \<Rightarrow> nat) \<Rightarrow> string \<Rightarrow> hash_ring \<Rightarrow> hash_ring" where
  "ring_add_node h node hr =
     (if node \<notin> set (hr_nodes hr) then build_ring h (hr\<lparr>hr_nodes := hr_nodes hr @ [node]\<rparr>) else hr)"

definition ring_remove_node :: "(string \<Rightarrow> nat) \<Rightarrow> string \<Rightarrow> hash_ring \<Rightarrow> hash_ring" where
  "ring_remove_node h node hr =
     (if node \<in> set (hr_nodes hr) then build_ring h (hr\<lparr>hr_nodes := remove1 node (hr_nodes hr)\<rparr>) else hr)"

section \<open>What a built ring contains\<close>

definition virtual_keys :: "(string \<Rightarrow> nat) \<Rightarrow> nat \<Rightarrow> string \<Rightarrow> nat set" where
  "virtual_keys h v node = (\<lambda>i. h (virtual_key node i)) ` {0..<v}"

lemma put_node_lookup:
  "map_of (put_node h v node r) k = (if k \<in> virtual_keys h v node then Some node else map_of r k)"
proof -
  have "map_of (fold (\<lambda>i r. dict_set r (h (virtual_key node i)) node) is r) k
      = (if k \<in> (\<lambda>i. h (virtual_key node i)) ` set is then Some node else map_of r k)" for "is"
    by (induction "is" arbitrary: r) (auto simp: update_conv')
  then show ?thesis by (simp add: put_node_def virtual_keys_def)
qed

lemma put_node_ok: "dict_ok r \<Longrightarrow> dict_ok (put_node h v node r)"
proof -
  have "dict_ok r \<Longrightarrow> dict_ok (fold (\<lambda>i r. dict_set r (h (virtual_key node i)) node) is r)" for "is"
    by (induction "is" arbitrary: r) (auto intro: distinct_update)
  then show "dict_ok r \<Longrightarrow> dict_ok (put_node h v node r)" by (simp add: put_node_def)
qed

lemma ring_of_snoc: "ring_of h (nodes @ [n]) v = put_node h v n (ring_of h nodes v)"
  by (simp add: ring_of_def)

text \<open>The owner of a key is the last node in the list that has it among its virtual keys.\<close>

lemma ring_of_lookup:
  "map_of (ring_of h nodes v) k =
     (let ws = filter (\<lambda>n. k \<in> virtual_keys h v n) nodes in if ws = [] then None else Some (last ws))"
proof (induction nodes rule: rev_induct)
  case Nil
  then show ?case by (simp add: ring_of_def)
next
  case (snoc n nodes)
  then show ?case by (simp add: ring_of_snoc put_node_lookup Let_def)
qed

lemma ring_of_ok: "dict_ok (ring_of h nodes v)"
  by (induction nodes rule: rev_induct) (simp_all add: ring_of_snoc put_node_ok, simp add: ring_of_def)

definition ring_keys :: "(string \<Rightarrow> nat) \<Rightarrow> string list \<Rightarrow> nat \<Rightarrow> nat set" where
  "ring_keys h nodes v = (\<Union>n\<in>set nodes. virtual_keys h v n)"

lemma finite_ring_keys [simp]: "finite (ring_keys h nodes v)"
  by (simp add: ring_keys_def virtual_keys_def)

lemma ring_of_dom: "fst ` set (ring_of h nodes v) = ring_keys h nodes v"
proof -
  have "k \<in> fst ` set (ring_of h nodes v) \<longleftrightarrow> map_of (ring_of h nodes v) k \<noteq> None" for k
    by (simp add: map_of_eq_None_iff)
  moreover have "map_of (ring_of h nodes v) k \<noteq> None \<longleftrightarrow> k \<in> ring_keys h nodes v" for k
    by (simp add: ring_of_lookup Let_def ring_keys_def filter_empty_conv)
  ultimately show ?thesis by blast
qed

definition ring_built :: "(string \<Rightarrow> nat) \<Rightarrow> hash_ring \<Rightarrow> bool" where
  "ring_built h hr \<longleftrightarrow> ring hr = ring_of h (hr_nodes hr) (virtual_nodes hr)
     \<and> sorted_keys hr = sort (dict_keys (ring hr))"

lemma build_ring_built [simp]: "ring_built h (build_ring h hr)"
  by (simp add: ring_built_def build_ring_def Let_def)

lemma init_ring_built [simp]: "ring_built h (init_ring h nodes v)"
  by (simp add: init_ring_def)

lemma add_node_built: "ring_built h hr \<Longrightarrow> ring_built h (ring_add_node h n hr)"
  by (simp add: ring_add_node_def)

lemma remove_node_built: "ring_built h hr \<Longrightarrow> ring_built h (ring_remove_node h n hr)"
  by (simp add: ring_remove_node_def)

lemma sorted_keys_props:
  assumes "ring_built h hr"
  shows "sorted (sorted_keys hr)" "set (sorted_keys hr) = ring_keys h (hr_nodes hr) (virtual_nodes hr)"
  using assms by (auto simp: ring_built_def ring_of_dom[symmetric])

lemma node_at_built:
  assumes "ring_built h hr" "k \<in> set (sorted_keys hr)"
  shows "\<exists>n\<in>set (hr_nodes hr). node_at hr k = Inr n"
proof -
  let ?ws = "filter (\<lambda>n. k \<in> virtual_keys h (virtual_nodes hr) n) (hr_nodes hr)"
  have "?ws \<noteq> []" using assms sorted_keys_props(2)[OF assms(1)] by (auto simp: ring_keys_def filter_empty_conv)
  then have "last ?ws \<in> set (hr_nodes hr)" using last_in_set[of ?ws] by auto
  moreover have "node_at hr k = Inr (last ?ws)"
    using assms(1) \<open>?ws \<noteq> []\<close> by (simp add: node_at_def ring_built_def ring_of_lookup Let_def)
  ultimately show ?thesis by blast
qed

section \<open>The first key clockwise\<close>

definition clock_first :: "nat set \<Rightarrow> nat \<Rightarrow> nat" where
  "clock_first K x = (if \<exists>k\<in>K. x \<le> k then Min {k \<in> K. x \<le> k} else Min K)"

lemma clock_first_in: "finite K \<Longrightarrow> K \<noteq> {} \<Longrightarrow> clock_first K x \<in> K"
proof -
  assume K: "finite K" "K \<noteq> {}"
  show ?thesis
  proof (cases "\<exists>k\<in>K. x \<le> k")
    case True
    then have "Min {k \<in> K. x \<le> k} \<in> {k \<in> K. x \<le> k}" using K by (intro Min_in) auto
    then show ?thesis using True by (simp add: clock_first_def)
  qed (use K in \<open>auto simp: clock_first_def\<close>)
qed

lemma clock_first_sub:
  assumes "finite K'" "K \<subseteq> K'" "clock_first K' x \<in> K"
  shows "clock_first K x = clock_first K' x"
proof (cases "\<exists>k\<in>K'. x \<le> k")
  case True
  let ?S' = "{k \<in> K'. x \<le> k}" and ?S = "{k \<in> K. x \<le> k}"
  have m: "clock_first K' x = Min ?S'" using True by (simp add: clock_first_def)
  have "Min ?S' \<in> ?S'" using True assms(1) by (intro Min_in) auto
  then have inS: "Min ?S' \<in> ?S" using assms(3) m by simp
  have "Min ?S = Min ?S'"
    by (rule Min_eqI) (use assms inS in \<open>auto intro: finite_subset\<close>)
  then show ?thesis using m inS by (auto simp: clock_first_def)
next
  case False
  then have "\<not> (\<exists>k\<in>K. x \<le> k)" using assms(2) by blast
  moreover have "Min K = Min K'"
    by (rule Min_eqI) (use assms False in \<open>auto simp: clock_first_def intro: finite_subset\<close>)
  ultimately show ?thesis using False by (simp add: clock_first_def)
qed

lemma find_first_sorted:
  "sorted ks \<Longrightarrow> find (\<lambda>k. x \<le> k) ks = (if \<exists>k\<in>set ks. x \<le> k then Some (Min {k \<in> set ks. x \<le> k}) else None)"
proof (induction ks)
  case (Cons k ks)
  show ?case
  proof (cases "x \<le> k")
    case True
    then have "Min {k' \<in> set (k # ks). x \<le> k'} = k"
      using Cons.prems by (intro Min_eqI) auto
    then show ?thesis using True by auto
  next
    case False
    then have "{k' \<in> set (k # ks). x \<le> k'} = {k' \<in> set ks. x \<le> k'}" by auto
    then show ?thesis using Cons False by auto
  qed
qed simp

lemma Min_sorted_hd: "sorted (k # ks) \<Longrightarrow> Min (set (k # ks)) = (k::nat)"
  by (intro Min_eqI) auto

lemma get_node_clock:
  assumes "ring_built h hr"
  shows "get_node h hr key =
     (if ring_keys h (hr_nodes hr) (virtual_nodes hr) = {} then Inl (ValueError ''No nodes in ring'')
      else node_at hr (clock_first (ring_keys h (hr_nodes hr) (virtual_nodes hr)) (h key)))"
proof (cases "sorted_keys hr")
  case Nil
  then show ?thesis using sorted_keys_props(2)[OF assms] by (simp add: get_node_def)
next
  case (Cons k ks)
  note s = sorted_keys_props[OF assms]
  let ?K = "set (sorted_keys hr)"
  have m: "Min ?K = k" using Min_sorted_hd s(1) Cons by metis
  have "get_node h hr key = node_at hr (clock_first ?K (h key))"
  proof (cases "\<exists>k\<in>?K. h key \<le> k")
    case True
    then have "find (\<lambda>k. h key \<le> k) (sorted_keys hr) = Some (clock_first ?K (h key))"
      using find_first_sorted[OF s(1), of "h key"] by (simp add: clock_first_def)
    then show ?thesis by (simp add: get_node_def Cons)
  next
    case False
    then have "find (\<lambda>k. h key \<le> k) (sorted_keys hr) = None"
      by (simp only: find_first_sorted[OF s(1)] if_False)
    moreover have "clock_first ?K (h key) = k" using False m by (simp only: clock_first_def if_False)
    ultimately show ?thesis by (simp add: get_node_def Cons)
  qed
  moreover have "?K \<noteq> {}" by (simp add: Cons)
  ultimately show ?thesis by (simp only: s(2) if_False)
qed

end
