(* ===== verification/Hash_Props.thy ===== *)
theory Hash_Props
  imports Hash_Ring
begin

text \<open>
  What the ring promises its clients: which node a key belongs to, how little moves when a node joins
  or leaves, and that the replica list is the list of the first distinct owners clockwise of the key.
\<close>

definition owner :: "(string \<Rightarrow> nat) \<Rightarrow> string list \<Rightarrow> nat \<Rightarrow> nat \<Rightarrow> string" where
  "owner h nodes v k = last (filter (\<lambda>n. k \<in> virtual_keys h v n) nodes)"

lemma owner_in:
  assumes "k \<in> ring_keys h nodes v"
  shows "owner h nodes v k \<in> set nodes \<and> k \<in> virtual_keys h v (owner h nodes v k)"
proof -
  let ?ws = "filter (\<lambda>n. k \<in> virtual_keys h v n) nodes"
  have "?ws \<noteq> []" using assms by (simp add: ring_keys_def filter_empty_conv)
  then have "last ?ws \<in> set ?ws" by (rule last_in_set)
  then show ?thesis by (simp add: owner_def)
qed

lemma node_at_owner:
  assumes "ring_built h hr" "k \<in> ring_keys h (hr_nodes hr) (virtual_nodes hr)"
  shows "node_at hr k = Inr (owner h (hr_nodes hr) (virtual_nodes hr) k)"
  using assms
  by (simp add: node_at_def ring_built_def ring_of_lookup Let_def owner_def ring_keys_def filter_empty_conv)

text \<open>The reference: the owner of the first key at or after the hash of the argument, clockwise.\<close>

definition node_for :: "(string \<Rightarrow> nat) \<Rightarrow> string list \<Rightarrow> nat \<Rightarrow> string \<Rightarrow> string" where
  "node_for h nodes v key = owner h nodes v (clock_first (ring_keys h nodes v) (h key))"

lemma get_node_node_for:
  assumes "ring_built h hr"
  shows "get_node h hr key =
     (if ring_keys h (hr_nodes hr) (virtual_nodes hr) = {} then Inl (ValueError ''No nodes in ring'')
      else Inr (node_for h (hr_nodes hr) (virtual_nodes hr) key))"
  using get_node_clock[OF assms] node_at_owner[OF assms] clock_first_in[OF finite_ring_keys]
  by (simp add: node_for_def)

lemma node_for_member: "ring_keys h nodes v \<noteq> {} \<Longrightarrow> node_for h nodes v key \<in> set nodes"
  using owner_in clock_first_in[OF finite_ring_keys] by (simp add: node_for_def)

lemma ring_keys_append: "ring_keys h (nodes @ [n]) v = ring_keys h nodes v \<union> virtual_keys h v n"
  by (auto simp: ring_keys_def)

lemma node_for_add:
  "node_for h (nodes @ [n]) v key = node_for h nodes v key \<or> node_for h (nodes @ [n]) v key = n"
proof (cases "clock_first (ring_keys h (nodes @ [n]) v) (h key) \<in> virtual_keys h v n")
  case True
  then show ?thesis by (simp add: node_for_def owner_def)
next
  case False
  let ?K' = "ring_keys h (nodes @ [n]) v"
  show ?thesis
  proof (cases "?K' = {}")
    case True
    then have "ring_keys h nodes v = {}" "virtual_keys h v n = {}" by (simp_all add: ring_keys_append)
    then show ?thesis using True by (simp add: node_for_def owner_def)
  next
    case K': False
    have "clock_first ?K' (h key) \<in> ring_keys h nodes v"
      using clock_first_in[OF finite_ring_keys K', of "h key"] False unfolding ring_keys_append by blast
    from clock_first_sub[OF finite_ring_keys _ this]
    have "clock_first (ring_keys h nodes v) (h key) = clock_first ?K' (h key)"
      by (simp add: ring_keys_append)
    then show ?thesis using False by (simp add: node_for_def owner_def)
  qed
qed

lemma last_filter_neq:
  assumes "xs \<noteq> []" "last xs \<noteq> n"
  shows "last (filter (\<lambda>x. x \<noteq> n) xs) = last xs"
  using assms by (induction xs rule: rev_induct) auto

lemma node_for_remove:
  assumes "distinct nodes" "ring_keys h nodes v \<noteq> {}" "node_for h nodes v key \<noteq> n"
  shows "ring_keys h (remove1 n nodes) v \<noteq> {} \<and> node_for h (remove1 n nodes) v key = node_for h nodes v key"
proof -
  let ?K = "ring_keys h nodes v" and ?ns = "remove1 n nodes"
  let ?k = "clock_first ?K (h key)"
  have ns: "?ns = filter (\<lambda>x. x \<noteq> n) nodes" using assms(1) by (simp add: distinct_remove1_removeAll removeAll_filter_not_eq eq_commute)
  have k: "?k \<in> ?K" by (rule clock_first_in[OF finite_ring_keys assms(2)])
  have o: "owner h nodes v ?k \<noteq> n" using assms(3) by (simp add: node_for_def)
  have in_K': "?k \<in> ring_keys h ?ns v" using owner_in[OF k] o by (auto simp: ring_keys_def ns)
  have same: "clock_first (ring_keys h ?ns v) (h key) = ?k"
    by (rule clock_first_sub[OF finite_ring_keys _ in_K']) (auto simp: ring_keys_def ns)
  have ne: "filter (\<lambda>m. ?k \<in> virtual_keys h v m) nodes \<noteq> []"
    using k by (simp add: ring_keys_def filter_empty_conv)
  have "filter (\<lambda>m. ?k \<in> virtual_keys h v m) ?ns
      = filter (\<lambda>x. x \<noteq> n) (filter (\<lambda>m. ?k \<in> virtual_keys h v m) nodes)"
    unfolding ns by (simp add: conj_commute)
  then have "owner h ?ns v ?k = owner h nodes v ?k"
    using last_filter_neq[OF ne] o by (simp add: owner_def)
  then show ?thesis using in_K' same by (auto simp: node_for_def)
qed

text \<open>\<open>get_node\<close> on a built ring fails exactly when the ring has no virtual node, and otherwise
  returns a member of \<open>nodes\<close>, the owner of the first key clockwise of the hash.\<close>

theorem get_node_correct:
  assumes "ring_built h hr"
  shows "get_node h hr key =
     (if ring_keys h (hr_nodes hr) (virtual_nodes hr) = {} then Inl (ValueError ''No nodes in ring'')
      else Inr (node_for h (hr_nodes hr) (virtual_nodes hr) key))
   \<and> (\<forall>n. get_node h hr key \<noteq> Inr n \<or> n \<in> set (hr_nodes hr))"
  using get_node_node_for[OF assms] node_for_member by auto

text \<open>C19: consistency. When a node joins, a key keeps its node or moves to the new one; when a node
  leaves, only the keys it had move.\<close>

theorem consistent_hashing:
  assumes "ring_built h hr" "distinct (hr_nodes hr)" "get_node h hr key = Inr a"
  shows "get_node h (ring_add_node h n hr) key \<in> {Inr a, Inr n}
   \<and> (a = n \<or> get_node h (ring_remove_node h n hr) key = Inr a)"
proof -
  let ?ns = "hr_nodes hr" and ?v = "virtual_nodes hr"
  have K: "ring_keys h ?ns ?v \<noteq> {}" and a: "a = node_for h ?ns ?v key"
    using assms(3) get_node_node_for[OF assms(1), of key] by (auto split: if_splits)
  have "get_node h (ring_add_node h n hr) key \<in> {Inr a, Inr n}"
    using node_for_add[of h ?ns n ?v key] K a assms(3) get_node_node_for[OF add_node_built[OF assms(1)], of n key]
    by (auto simp: ring_add_node_def build_ring_def Let_def ring_keys_append)
  moreover have "a = n \<or> get_node h (ring_remove_node h n hr) key = Inr a"
    using node_for_remove[OF assms(2) K, of key n] a assms(3) get_node_node_for[OF remove_node_built[OF assms(1)], of n key]
    by (auto simp: ring_remove_node_def build_ring_def Let_def)
  ultimately show ?thesis by blast
qed

section \<open>The replica list\<close>

fun uniq :: "'a list \<Rightarrow> 'a list \<Rightarrow> 'a list" where
  "uniq seen [] = []"
| "uniq seen (x # xs) = (if x \<in> set seen then uniq seen xs else x # uniq (seen @ [x]) xs)"

lemma set_uniq: "set (uniq seen xs) = set xs - set seen"
  by (induction seen xs rule: uniq.induct) auto

lemma distinct_uniq: "distinct (uniq seen xs)"
  by (induction seen xs rule: uniq.induct) (auto simp: set_uniq)

lemma uniq_append: "uniq seen (xs @ ys) = uniq seen xs @ uniq (seen @ uniq seen xs) ys"
  by (induction seen xs rule: uniq.induct) auto

lemma uniq_seen: "set xs \<subseteq> set seen \<Longrightarrow> uniq seen xs = []"
  by (induction seen xs rule: uniq.induct) auto

lemma hd_uniq: "xs \<noteq> [] \<Longrightarrow> uniq [] xs \<noteq> [] \<and> hd (uniq [] xs) = hd xs"
  by (cases xs) auto

lemma collect_nodes_uniq:
  assumes "\<forall>k\<in>set ks. node_at hr k = Inr (own k)" "int (length rs) < count"
  shows "collect_nodes hr ok count ks rs
       = Inr (take (nat count) (rs @ uniq rs (map own (filter ok ks))))"
  using assms
proof (induction ks arbitrary: rs)
  case (Cons k ks)
  have c: "nat count = Suc (length rs)" if "int (length (rs @ [own k])) \<ge> count"
    using that Cons.prems(2) by simp
  show ?case
  proof (cases "ok k \<and> own k \<notin> set rs \<and> int (length (rs @ [own k])) \<ge> count")
    case True
    then show ?thesis using Cons.prems(1) c by simp
  next
    case False
    have room: "nat count - length rs = Suc (nat count - Suc (length rs))" using Cons.prems(2) by simp
    show ?thesis using False Cons room by auto
  qed
qed simp

lemma collect_nodes_nonpos:
  assumes "\<forall>k\<in>set ks. node_at hr k = Inr (own k)" "count \<le> 0"
  shows "\<exists>rs. collect_nodes hr ok count ks [] = Inr rs \<and> length rs \<le> 1"
  using assms by (induction ks) auto

definition clockwise :: "nat list \<Rightarrow> nat \<Rightarrow> nat list" where
  "clockwise ks x = filter (\<lambda>k. x \<le> k) ks @ filter (\<lambda>k. k < x) ks"

lemma set_clockwise [simp]: "set (clockwise ks x) = set ks"
  by (auto simp: clockwise_def)

lemma uniq_wrap:
  "uniq (uniq [] (map f (filter P ks))) (map f ks) = uniq (uniq [] (map f (filter P ks))) (map f (filter (\<lambda>k. \<not> P k) ks))"
proof -
  let ?S = "uniq [] (map f (filter P ks))"
  have "uniq seen (map f ks) = uniq seen (map f (filter Q ks))"
    if "\<forall>k\<in>set ks. \<not> Q k \<longrightarrow> f k \<in> set seen" for seen Q ks
    using that by (induction ks arbitrary: seen) auto
  from this[of ks "\<lambda>k. \<not> P k" ?S] show ?thesis by (simp add: set_uniq)
qed

lemma get_replicas_uniq:
  assumes b: "ring_built h hr"
  shows "get_replicas h hr key count =
     Inr (take (nat count) (uniq [] (map (owner h (hr_nodes hr) (virtual_nodes hr)) (clockwise (sorted_keys hr) (h key)))))"
proof -
  let ?own = "owner h (hr_nodes hr) (virtual_nodes hr)" and ?sk = "sorted_keys hr"
  let ?F = "map ?own (filter (\<lambda>k. h key \<le> k) ?sk)"
  let ?R = "uniq [] ?F" and ?G = "map ?own (filter (\<lambda>k. k < h key) ?sk)"
  have own: "\<forall>k\<in>set ?sk. node_at hr k = Inr (?own k)"
    using node_at_owner[OF b] sorted_keys_props(2)[OF b] by simp
  have own2: "\<forall>k\<in>set (?sk @ ?sk). node_at hr k = Inr (?own k)" using own by simp
  have all: "uniq [] (map ?own (clockwise ?sk (h key))) = ?R @ uniq ?R ?G"
    by (simp add: clockwise_def uniq_append)
  show ?thesis
  proof (cases "count \<le> 0")
    case True
    obtain rs where rs: "collect_nodes hr (\<lambda>k. h key \<le> k) count (?sk @ ?sk) [] = Inr rs" "length rs \<le> 1"
      using collect_nodes_nonpos[OF own2 True] by blast
    have "py_take count rs = []" using True rs(2) by (auto simp: py_take_def)
    then show ?thesis using rs(1) True by (simp add: get_replicas_def)
  next
    case False
    then have pos: "int (length ([]::string list)) < count" by simp
    have first: "collect_nodes hr (\<lambda>k. h key \<le> k) count (?sk @ ?sk) [] = Inr (take (nat count) ?R)"
      unfolding collect_nodes_uniq[OF own2 pos] by (simp add: uniq_append uniq_seen set_uniq)
    show ?thesis
    proof (cases "int (length ?R) < count")
      case True
      then have t: "take (nat count) ?R = ?R" by simp
      have "uniq ?R (map ?own ?sk) = uniq ?R ?G" using uniq_wrap[of ?own "\<lambda>k. h key \<le> k" ?sk] by (simp add: not_le)
      then have "collect_nodes hr (\<lambda>k. True) count ?sk ?R = Inr (take (nat count) (?R @ uniq ?R ?G))"
        using collect_nodes_uniq[OF own True, of "\<lambda>k. True"] by simp
      then show ?thesis using first t True False
        by (simp add: get_replicas_def all py_take_def del: map_append take_append)
    next
      case large: False
      then show ?thesis using first False by (simp add: get_replicas_def all py_take_def)
    qed
  qed
qed

lemma hd_sorted_Min: "sorted ks \<Longrightarrow> ks \<noteq> [] \<Longrightarrow> hd ks = Min (set ks)" for ks :: "nat list"
  using Min_sorted_hd by (cases ks) force+

lemma hd_clockwise:
  assumes "sorted ks" "ks \<noteq> []"
  shows "hd (clockwise ks x) = clock_first (set ks) x"
proof (cases "\<exists>k\<in>set ks. x \<le> k")
  case True
  then have ne: "filter (\<lambda>k. x \<le> k) ks \<noteq> []" by (simp add: filter_empty_conv)
  have "hd (filter (\<lambda>k. x \<le> k) ks) = Min (set (filter (\<lambda>k. x \<le> k) ks))"
    by (rule hd_sorted_Min[OF _ ne]) (simp add: assms(1) sorted_wrt_filter)
  then show ?thesis using True ne by (simp add: clockwise_def clock_first_def)
next
  case False
  then have "filter (\<lambda>k. x \<le> k) ks = []" "filter (\<lambda>k. k < x) ks = ks"
    by (auto simp: filter_empty_conv filter_id_conv not_le)
  then show ?thesis using False hd_sorted_Min[OF assms] by (auto simp: clockwise_def clock_first_def)
qed

lemma clockwise_empty [simp]: "clockwise ks x = [] \<longleftrightarrow> ks = []"
  by (metis set_clockwise set_empty)

text \<open>C29: \<open>get_replicas\<close> lists the first \<open>count\<close> distinct owners met when walking clockwise from the
  hash: the two passes of the code over the sorted keys, with their early exits, amount to one walk.
  It has no duplicates, names members only, is as long as the owners allow, and its head is the node
  \<open>get_node\<close> returns.\<close>

theorem replicas_correct:
  assumes "ring_built h hr" "ring_keys h (hr_nodes hr) (virtual_nodes hr) \<noteq> {}" "0 < count"
  shows "\<exists>rs. get_replicas h hr key count = Inr rs
      \<and> rs = take (nat count) (uniq [] (map (owner h (hr_nodes hr) (virtual_nodes hr)) (clockwise (sorted_keys hr) (h key))))
      \<and> distinct rs \<and> set rs \<subseteq> set (hr_nodes hr)
      \<and> length rs = min (nat count)
           (card (owner h (hr_nodes hr) (virtual_nodes hr) ` ring_keys h (hr_nodes hr) (virtual_nodes hr)))
      \<and> get_node h hr key = Inr (hd rs)"
proof -
  let ?own = "owner h (hr_nodes hr) (virtual_nodes hr)" and ?K = "ring_keys h (hr_nodes hr) (virtual_nodes hr)"
  let ?walk = "map ?own (clockwise (sorted_keys hr) (h key))"
  note sk = sorted_keys_props[OF assms(1)]
  have ne: "sorted_keys hr \<noteq> []" using sk(2) assms(2) by auto
  then have walk: "?walk \<noteq> []" by simp
  have setw: "set (uniq [] ?walk) = ?own ` ?K" by (simp add: set_uniq sk(2))
  then have "length (uniq [] ?walk) = card (?own ` ?K)" by (metis distinct_card distinct_uniq)
  moreover have own_sub: "?own ` ?K \<subseteq> set (hr_nodes hr)" using owner_in by blast
  moreover have "set (take (nat count) (uniq [] ?walk)) \<subseteq> set (hr_nodes hr)"
    using order_trans[OF set_take_subset own_sub[folded setw]] .
  moreover have "hd (take (nat count) (uniq [] ?walk)) = ?own (clock_first ?K (h key))"
    using assms(3) hd_uniq[OF walk] hd_clockwise[OF sk(1) ne] sk(2) ne by (simp add: hd_map)
  moreover have "get_node h hr key = Inr (?own (clock_first ?K (h key)))"
    using get_node_node_for[OF assms(1), of key] assms(2) by (simp add: node_for_def)
  ultimately show ?thesis
    unfolding get_replicas_uniq[OF assms(1)]
    by (intro exI[of _ "take (nat count) (uniq [] ?walk)"])
      (simp only: sum.inject conj_commute length_take distinct_take[OF distinct_uniq] min.commute simp_thms)
qed

section \<open>Instances\<close>

definition sample_hash :: "string \<Rightarrow> nat" where
  "sample_hash s = foldl (\<lambda>a c. (a * 31 + of_char c) mod 97) 7 s"

definition sample_ring :: hash_ring where
  "sample_ring = init_ring sample_hash [''a'', ''b'', ''c''] 2"

lemma sample_ring_built: "ring_built sample_hash sample_ring"
  by (simp add: sample_ring_def)

lemma sample_ring_fields [simp]: "hr_nodes sample_ring = [''a'', ''b'', ''c'']" "virtual_nodes sample_ring = 2"
  by (simp_all add: sample_ring_def init_ring_def build_ring_def Let_def)

lemma sample_get_node: "get_node sample_hash sample_ring ''orders'' = Inr ''c''"
  by code_simp

lemma sample_ring_keys: "ring_keys sample_hash [''a'', ''b'', ''c''] 2 \<noteq> {}"
  by (simp add: ring_keys_def virtual_keys_def)

theorem get_node_correct_witness:
  "get_node sample_hash sample_ring ''orders'' = Inr (node_for sample_hash [''a'', ''b'', ''c''] 2 ''orders'')"
  using get_node_correct[OF sample_ring_built, of "''orders''"] sample_ring_keys by simp

theorem consistent_hashing_witness:
  "get_node sample_hash (ring_add_node sample_hash ''d'' sample_ring) ''orders'' \<in> {Inr ''c'', Inr ''d''}
   \<and> get_node sample_hash (ring_remove_node sample_hash ''a'' sample_ring) ''orders'' = Inr ''c''"
  using consistent_hashing[OF sample_ring_built _ sample_get_node, of "''d''"]
    consistent_hashing[OF sample_ring_built _ sample_get_node, of "''a''"] by simp

theorem replicas_correct_witness:
  "\<exists>rs. get_replicas sample_hash sample_ring ''orders'' 2 = Inr rs \<and> distinct rs
      \<and> get_node sample_hash sample_ring ''orders'' = Inr (hd rs)"
  using replicas_correct[OF sample_ring_built, of 2 "''orders''"] sample_ring_keys by auto

end
