(* ===== verification/Queue_Service.thy ===== *)
theory Queue_Service
  imports Hash_Props Raft_Serving
begin

text \<open>
  \<^verbatim>\<open>src/services/queue_service.py\<close>, class \<open>DistributedQueue\<close>.

  \<open>h\<close> is the MD5 hash as in \<open>Hash_Ring\<close>, \<open>isoformat\<close> and \<open>fromisoformat\<close> are the datetime codec, a
  message identifier (\<open>uuid4\<close>) is an argument. Redis is outside the program: the tasks that write to it are
  collected in \<open>store_tasks\<close> in the order they are scheduled, \<open>run_store_task\<close> gives the command such
  a task sends when it runs, and loading takes the stored values as an argument.

  A message object is referenced by its partition and its position there (a partition only grows),
  so a scheduled task sees later changes of its message, as in the code. The ring shares its list of
  nodes with \<open>all_nodes\<close> in the code; here it is only in the ring.
\<close>

datatype store_task = PersistTask int nat | DeleteTask string

datatype store_command = HSet string jdict | HDel string

record distributed_queue =
  dq_node_id :: string
  dq_ring :: hash_ring
  partitions :: "(int, queue_message list) dict"
  message_acks :: "(string, string list) dict"
  pending_messages :: "string list"
  has_redis :: bool
  store_tasks :: "store_task list"
  replication_factor :: int
  persistence_enabled :: bool

definition init_queue ::
  "(string \<Rightarrow> nat) \<Rightarrow> string \<Rightarrow> string list \<Rightarrow> int \<Rightarrow> bool \<Rightarrow> distributed_queue" where
  "init_queue h nid peer_nodes factor persistence =
     \<lparr>dq_node_id = nid, dq_ring = init_ring h (nid # peer_nodes) 160, partitions = [],
      message_acks = [], pending_messages = [], has_redis = False, store_tasks = [],
      replication_factor = factor, persistence_enabled = persistence\<rparr>"

definition partition_of :: "distributed_queue \<Rightarrow> int \<Rightarrow> queue_message list" where
  "partition_of q pid = (case map_of (partitions q) pid of None \<Rightarrow> [] | Some ms \<Rightarrow> ms)"

definition get_partition :: "(string \<Rightarrow> nat) \<Rightarrow> string \<Rightarrow> int" where
  "get_partition h topic = int (h topic) mod 10"

definition str_int :: "int \<Rightarrow> string" where
  "str_int i = (if i < 0 then ''-'' @ str_nat (nat (- i)) else str_nat (nat i))"

section \<open>Persistence\<close>

definition schedule_persist :: "int \<Rightarrow> nat \<Rightarrow> distributed_queue \<Rightarrow> distributed_queue" where
  "schedule_persist pid i q =
     (if \<not> has_redis q then q else q\<lparr>store_tasks := store_tasks q @ [PersistTask pid i]\<rparr>)"

definition schedule_delete :: "string \<Rightarrow> distributed_queue \<Rightarrow> distributed_queue" where
  "schedule_delete mid q =
     (if \<not> has_redis q then q else q\<lparr>store_tasks := store_tasks q @ [DeleteTask mid]\<rparr>)"

definition persist_payload :: "(rat \<Rightarrow> string) \<Rightarrow> queue_message \<Rightarrow> jdict" where
  "persist_payload isoformat m =
     [(''msg_id'', JStr (qm_msg_id m)), (''payload'', qm_payload m),
      (''partition_id'', JInt (qm_partition_id m)), (''timestamp'', JStr (isoformat (qm_timestamp m))),
      (''acked'', JBool (qm_acked m)), (''delivery_count'', JInt (qm_delivery_count m))]"

definition persist_message ::
  "(rat \<Rightarrow> string) \<Rightarrow> distributed_queue \<Rightarrow> queue_message \<Rightarrow> store_command option" where
  "persist_message isoformat q m =
     (if \<not> has_redis q then None else Some (HSet (qm_msg_id m) (persist_payload isoformat m)))"

definition delete_persisted_message :: "distributed_queue \<Rightarrow> string \<Rightarrow> store_command option" where
  "delete_persisted_message q mid = (if has_redis q then Some (HDel mid) else None)"

fun run_store_task ::
  "(rat \<Rightarrow> string) \<Rightarrow> distributed_queue \<Rightarrow> store_task \<Rightarrow> store_command option" where
  "run_store_task isoformat q (PersistTask pid i) =
     (if i < length (partition_of q pid) then persist_message isoformat q (partition_of q pid ! i) else None)"
| "run_store_task isoformat q (DeleteTask mid) = delete_persisted_message q mid"

definition stored_timestamp ::
  "(string \<Rightarrow> rat result) \<Rightarrow> rat \<Rightarrow> jdict \<Rightarrow> rat result" where
  "stored_timestamp fromisoformat now data =
     (case map_of data ''timestamp'' of None \<Rightarrow> Inr now
      | Some v \<Rightarrow> if truthy v then (case as_str v of Inl x \<Rightarrow> Inl x | Inr s \<Rightarrow> fromisoformat s) else Inr now)"

definition stored_message ::
  "(string \<Rightarrow> rat result) \<Rightarrow> rat \<Rightarrow> jdict \<Rightarrow> queue_message result" where
  "stored_message fromisoformat now data =
     (case item_str data ''msg_id'' of Inl x \<Rightarrow> Inl x | Inr mid \<Rightarrow>
      case item data ''payload'' of Inl x \<Rightarrow> Inl x | Inr payload \<Rightarrow>
      case item_int data ''partition_id'' of Inl x \<Rightarrow> Inl x | Inr pid \<Rightarrow>
      case stored_timestamp fromisoformat now data of Inl x \<Rightarrow> Inl x | Inr ts \<Rightarrow>
      case get_int data ''delivery_count'' 0 of Inl x \<Rightarrow> Inl x | Inr n \<Rightarrow>
      Inr \<lparr>qm_msg_id = mid, qm_payload = payload, qm_partition_id = pid, qm_timestamp = ts,
           qm_acked = False, qm_delivery_count = n\<rparr>)"

definition restore_message :: "queue_message \<Rightarrow> distributed_queue \<Rightarrow> distributed_queue" where
  "restore_message m q =
     (let ms = partition_of q (qm_partition_id m) in
      if qm_msg_id m \<in> qm_msg_id ` set ms then q
      else q\<lparr>partitions := dict_set (partitions q) (qm_partition_id m) (ms @ [m])\<rparr>)"

fun load_persisted_messages ::
  "(string \<Rightarrow> rat result) \<Rightarrow> rat \<Rightarrow> jdict list \<Rightarrow> distributed_queue \<Rightarrow> exn option \<times> distributed_queue" where
  "load_persisted_messages fromisoformat now [] q = (None, q)"
| "load_persisted_messages fromisoformat now (data # raws) q =
     (if (case map_of data ''acked'' of None \<Rightarrow> False | Some v \<Rightarrow> truthy v)
      then load_persisted_messages fromisoformat now raws q
      else (case stored_message fromisoformat now data of
              Inl x \<Rightarrow> (Some x, q)
            | Inr m \<Rightarrow> load_persisted_messages fromisoformat now raws (restore_message m q)))"

text \<open>\<open>stored\<close> is the decoded content of the store, \<open>None\<close> when no client is given.\<close>

definition set_persistence_store ::
  "(string \<Rightarrow> rat result) \<Rightarrow> rat \<Rightarrow> jdict list option \<Rightarrow> distributed_queue
     \<Rightarrow> exn option \<times> distributed_queue" where
  "set_persistence_store fromisoformat now stored q =
     (let q1 = q\<lparr>has_redis := stored \<noteq> None\<rparr> in
      case stored of
        Some raws \<Rightarrow> if persistence_enabled q1 then load_persisted_messages fromisoformat now raws q1
                     else (None, q1)
      | None \<Rightarrow> (None, q1))"

section \<open>The commit callback\<close>

definition decode_message :: "rat \<Rightarrow> jdict \<Rightarrow> queue_message result" where
  "decode_message now data =
     (case item_int data ''partition_id'' of Inl x \<Rightarrow> Inl x | Inr pid \<Rightarrow>
      case item_str data ''msg_id'' of Inl x \<Rightarrow> Inl x | Inr mid \<Rightarrow>
      case item data ''payload'' of Inl x \<Rightarrow> Inl x | Inr payload \<Rightarrow>
      Inr \<lparr>qm_msg_id = mid, qm_payload = payload, qm_partition_id = pid, qm_timestamp = now,
           qm_acked = False, qm_delivery_count = 0\<rparr>)"

definition store_message :: "queue_message \<Rightarrow> distributed_queue \<Rightarrow> distributed_queue" where
  "store_message m q =
     (let pid = qm_partition_id m; ms = partition_of q pid;
          q1 = q\<lparr>partitions := dict_set (partitions q) pid (ms @ [m])\<rparr>
      in if persistence_enabled q1
         then schedule_persist pid (length ms)
                (q1\<lparr>pending_messages := pending_messages q1 @ [qm_msg_id m]\<rparr>)
         else q1)"

definition mark_acked :: "string \<Rightarrow> queue_message \<Rightarrow> queue_message" where
  "mark_acked mid m = (if qm_msg_id m = mid then m\<lparr>qm_acked := True\<rparr> else m)"

definition ack_message :: "string \<Rightarrow> distributed_queue \<Rightarrow> distributed_queue" where
  "ack_message mid q =
     schedule_delete mid
       (q\<lparr>partitions := map (\<lambda>(pid, ms). (pid, map (mark_acked mid) ms)) (partitions q),
          pending_messages := filter (\<lambda>i. i \<noteq> mid) (pending_messages q)\<rparr>)"

definition dq_handle_commit :: "rat \<Rightarrow> distributed_queue callback" where
  "dq_handle_commit now entry q =
     (if le_command entry = ''QUEUE_PUBLISH'' then
        (case decode_message now (le_data entry) of Inl x \<Rightarrow> (Some x, q)
         | Inr m \<Rightarrow> (None, store_message m q))
      else if le_command entry = ''QUEUE_ACK'' then
        (case item_str (le_data entry) ''msg_id'' of Inl x \<Rightarrow> (Some x, q)
         | Inr mid \<Rightarrow> (None, ack_message mid q))
      else (None, q))"

section \<open>Client operations\<close>

text \<open>A payload that is not a JSON-able value is turned into its \<open>str\<close>; of the JSON values this is
  only \<open>None\<close>.\<close>

definition wire_payload :: "json \<Rightarrow> json" where
  "wire_payload v = (if v = JNull then JStr ''None'' else v)"

definition publish_data :: "string \<Rightarrow> string \<Rightarrow> int \<Rightarrow> json \<Rightarrow> string list \<Rightarrow> jdict" where
  "publish_data mid topic pid payload replicas =
     [(''msg_id'', JStr mid), (''topic'', JStr topic), (''partition_id'', JInt pid),
      (''payload'', wire_payload payload), (''replicas'', JArr (map JStr replicas))]"

definition publish ::
  "(string \<Rightarrow> nat)
   \<Rightarrow> (string \<Rightarrow> jdict \<Rightarrow> 'r \<times> distributed_queue \<Rightarrow> bool result \<times> ('r \<times> distributed_queue))
   \<Rightarrow> string \<Rightarrow> string \<Rightarrow> json \<Rightarrow> 'r \<times> distributed_queue
   \<Rightarrow> string option result \<times> ('r \<times> distributed_queue)" where
  "publish h raft_append mid topic payload w =
     (let pid = get_partition h topic; q = snd w in
      case get_replicas h (dq_ring q) (topic @ '':'' @ str_int pid) (replication_factor q) of
        Inl x \<Rightarrow> (Inl x, w)
      | Inr replicas \<Rightarrow>
         (case raft_append ''QUEUE_PUBLISH'' (publish_data mid topic pid payload replicas) w of
            (Inl x, w1) \<Rightarrow> (Inl x, w1)
          | (Inr ok, w1) \<Rightarrow> (Inr (if ok then Some mid else None), w1)))"

text \<open>The loop of \<open>consume\<close>: one message of the batch, given by its position.\<close>

definition deliver :: "int \<Rightarrow> nat \<Rightarrow> distributed_queue \<Rightarrow> distributed_queue" where
  "deliver pid i q =
     (let ms = partition_of q pid; m = ms ! i;
          q1 = q\<lparr>partitions := dict_set (partitions q) pid
                   (ms[i := m\<lparr>qm_delivery_count := qm_delivery_count m + 1\<rparr>])\<rparr>;
          q2 = (if dict_has (message_acks q1) (qm_msg_id m) then q1
                else q1\<lparr>message_acks := dict_set (message_acks q1) (qm_msg_id m) []\<rparr>)
      in if persistence_enabled q2 then schedule_persist pid i q2 else q2)"

definition unacked_positions :: "queue_message list \<Rightarrow> nat list" where
  "unacked_positions ms = filter (\<lambda>i. \<not> qm_acked (ms ! i)) [0..<length ms]"

definition consume ::
  "(string \<Rightarrow> nat) \<Rightarrow> string \<Rightarrow> int \<Rightarrow> distributed_queue \<Rightarrow> queue_message list \<times> distributed_queue" where
  "consume h topic batch_size q =
     (let pid = get_partition h topic in
      if dict_has (partitions q) pid then
        (let picked = py_take batch_size (unacked_positions (partition_of q pid));
             q1 = fold (deliver pid) picked q
         in (map (\<lambda>i. partition_of q1 pid ! i) picked, q1))
      else ([], q))"

definition note_ack :: "string \<Rightarrow> string \<Rightarrow> distributed_queue \<Rightarrow> distributed_queue" where
  "note_ack mid consumer q =
     (let acks = (case map_of (message_acks q) mid of None \<Rightarrow> [] | Some a \<Rightarrow> a)
      in q\<lparr>message_acks := dict_set (message_acks q) mid
             (if consumer \<in> set acks then acks else acks @ [consumer])\<rparr>)"

definition acknowledge ::
  "(string \<Rightarrow> jdict \<Rightarrow> 'r \<times> distributed_queue \<Rightarrow> bool result \<times> ('r \<times> distributed_queue))
   \<Rightarrow> string \<Rightarrow> string \<Rightarrow> 'r \<times> distributed_queue \<Rightarrow> bool result \<times> ('r \<times> distributed_queue)" where
  "acknowledge raft_append mid consumer w =
     raft_append ''QUEUE_ACK'' [(''msg_id'', JStr mid), (''consumer_id'', JStr consumer)]
       (fst w, note_ack mid consumer (snd w))"

text \<open>\<open>recover_from_failure\<close> takes the failed node off the ring and looks up the new replicas of each
  unacknowledged message; what it does with them is a log message.\<close>

fun first_error :: "'a result list \<Rightarrow> exn option" where
  "first_error [] = None"
| "first_error (Inl x # rs) = Some x"
| "first_error (Inr y # rs) = first_error rs"

definition recover_from_failure ::
  "(string \<Rightarrow> nat) \<Rightarrow> string \<Rightarrow> distributed_queue \<Rightarrow> exn option \<times> distributed_queue" where
  "recover_from_failure h failed q =
     (let q1 = q\<lparr>dq_ring := ring_remove_node h failed (dq_ring q)\<rparr>;
          pids = concat (map (\<lambda>(pid, ms). map (\<lambda>m. pid) (filter (\<lambda>m. \<not> qm_acked m) ms)) (partitions q1))
      in (first_error (map (\<lambda>pid. get_replicas h (dq_ring q1) (''partition_'' @ str_int pid)
                                    (replication_factor q1)) pids), q1))"

definition get_queue_depth :: "(string \<Rightarrow> nat) \<Rightarrow> string \<Rightarrow> distributed_queue \<Rightarrow> nat" where
  "get_queue_depth h topic q =
     (let pid = get_partition h topic in
      if \<not> dict_has (partitions q) pid then 0
      else length (filter (\<lambda>m. \<not> qm_acked m) (partition_of q pid)))"

record queue_stats =
  total_partitions :: nat
  total_messages :: nat
  unacked_messages :: nat
  pending_persistence :: nat

definition dq_get_stats :: "distributed_queue \<Rightarrow> queue_stats" where
  "dq_get_stats q = \<lparr>total_partitions = length (partitions q),
     total_messages = sum_list (map length (dict_values (partitions q))),
     unacked_messages = sum_list (map (\<lambda>ms. length (filter (\<lambda>m. \<not> qm_acked m) ms)) (dict_values (partitions q))),
     pending_persistence = length (pending_messages q)\<rparr>"

end
