(* ===== verification/Queue_Props.thy ===== *)
theory Queue_Props
  imports Queue_Service Raft_Steps
begin

text \<open>
  What the queue guarantees. Its abstract specification \<open>spec_entry\<close> says what a log entry does to
  the visible content of the partitions; the commit callback refines it, so the content of a node's
  queue is a function of the log prefix it has applied. Delivery, acknowledgement and recovery are
  then stated over the concrete operations.
\<close>

section \<open>The abstract queue\<close>

type_synonym queue_spec = "int \<Rightarrow> (string \<times> json \<times> bool) list"

definition queue_view :: "distributed_queue \<Rightarrow> queue_spec" where
  "queue_view q pid = map (\<lambda>m. (qm_msg_id m, qm_payload m, qm_acked m)) (partition_of q pid)"

definition published :: "log_entry \<Rightarrow> (int \<times> string \<times> json) option" where
  "published e =
     (if le_command e = ''QUEUE_PUBLISH'' then
        (case (item_int (le_data e) ''partition_id'', item_str (le_data e) ''msg_id'', item (le_data e) ''payload'') of
           (Inr p, Inr i, Inr b) \<Rightarrow> Some (p, i, b) | _ \<Rightarrow> None)
      else None)"

definition acked_id :: "log_entry \<Rightarrow> string option" where
  "acked_id e =
     (if le_command e = ''QUEUE_ACK'' then
        (case item_str (le_data e) ''msg_id'' of Inr i \<Rightarrow> Some i | Inl x \<Rightarrow> None)
      else None)"

definition spec_entry :: "log_entry \<Rightarrow> queue_spec \<Rightarrow> queue_spec" where
  "spec_entry e V =
     (case published e of
        Some (p, i, b) \<Rightarrow> V(p := V p @ [(i, b, False)])
      | None \<Rightarrow> (case acked_id e of
                   Some i \<Rightarrow> (\<lambda>p. map (\<lambda>(j, b, a). (j, b, a \<or> j = i)) (V p))
                 | None \<Rightarrow> V))"

lemma partition_of_set [simp]:
  "partition_of (q\<lparr>partitions := dict_set (partitions q) pid ms\<rparr>) p = (if p = pid then ms else partition_of q p)"
  by (simp add: partition_of_def update_conv')

lemma partition_of_cong: "partitions q' = partitions q \<Longrightarrow> partition_of q' p = partition_of q p"
  by (simp add: partition_of_def)

lemma schedule_frame [simp]:
  "partitions (schedule_persist pid i q) = partitions q" "partitions (schedule_delete mid q) = partitions q"
  "dq_ring (schedule_persist pid i q) = dq_ring q" "dq_ring (schedule_delete mid q) = dq_ring q"
  "has_redis (schedule_persist pid i q) = has_redis q"
  by (simp_all add: schedule_persist_def schedule_delete_def)

lemma store_message_partitions:
  "partitions (store_message m q)
     = dict_set (partitions q) (qm_partition_id m) (partition_of q (qm_partition_id m) @ [m])"
  by (simp add: store_message_def Let_def)

lemma partition_store:
  "partition_of (store_message m q) p
     = (if p = qm_partition_id m then partition_of q p @ [m] else partition_of q p)"
  using partition_of_cong[OF trans[OF store_message_partitions]] partition_of_set
  by (simp add: partition_of_def store_message_partitions update_conv')

lemma partition_ack: "partition_of (ack_message mid q) p = map (mark_acked mid) (partition_of q p)"
  by (simp add: partition_of_def ack_message_def map_of_map split: option.split)

lemma frame_ring [simp]: "dq_ring (store_message m q) = dq_ring q" "dq_ring (ack_message mid q) = dq_ring q"
  by (simp_all add: store_message_def ack_message_def Let_def)

lemma commit_view: "queue_view (snd (dq_handle_commit now e q)) = spec_entry e (queue_view q)"
proof (rule ext)
  fix p
  consider (pub) "le_command e = ''QUEUE_PUBLISH''" | (ack) "le_command e = ''QUEUE_ACK''"
    | (other) "le_command e \<noteq> ''QUEUE_PUBLISH''" "le_command e \<noteq> ''QUEUE_ACK''" by blast
  then show "queue_view (snd (dq_handle_commit now e q)) p = spec_entry e (queue_view q) p"
  proof cases
    case pub
    then show ?thesis
      by (auto simp: dq_handle_commit_def spec_entry_def published_def acked_id_def decode_message_def
          queue_view_def partition_store split: sum.splits)
  next
    case ack
    then show ?thesis
      by (auto simp: dq_handle_commit_def spec_entry_def published_def acked_id_def
          queue_view_def partition_ack mark_acked_def split: sum.splits)
  next
    case other
    then show ?thesis by (simp add: dq_handle_commit_def spec_entry_def published_def acked_id_def)
  qed
qed

lemma run_queue_callback: "run_callbacks [dq_handle_commit now] e q = dq_handle_commit now e q"
  by (auto split: prod.split option.split)

lemma feed_view:
  "feed [dq_handle_commit now] es q = (x, k, q') \<Longrightarrow> queue_view q' = fold spec_entry (take k es) (queue_view q)"
proof (induction es arbitrary: q x k q')
  case (Cons e es)
  obtain y q1 where run: "dq_handle_commit now e q = (y, q1)" by (rule prod.exhaust)
  have v1: "queue_view q1 = spec_entry e (queue_view q)" using commit_view[of now e q] run by simp
  show ?case
  proof (cases y)
    case (Some z)
    then show ?thesis using Cons.prems run v1 by (auto simp: run_queue_callback simp del: run_callbacks.simps)
  next
    case None
    obtain x' k' q2 where f: "feed [dq_handle_commit now] es q1 = (x', k', q2)" by (rule prod_cases3)
    then show ?thesis using Cons.prems Cons.IH[OF f] run v1 None
      by (auto simp: run_queue_callback simp del: run_callbacks.simps)
  qed
qed simp

definition applied_prefix :: "raft_node \<Rightarrow> log_entry list" where
  "applied_prefix n = take (nat (last_applied n + 1)) (raft_log n)"

definition in_sync :: "raft_node \<Rightarrow> distributed_queue \<Rightarrow> bool" where
  "in_sync n q \<longleftrightarrow> queue_view q = fold spec_entry (applied_prefix n) (\<lambda>p. [])"

lemma applied_prefix_feed:
  assumes "-1 \<le> last_applied n" "k \<le> length (pending_entries n)"
  shows "applied_prefix (n\<lparr>last_applied := last_applied n + int k\<rparr>) = applied_prefix n @ take k (pending_entries n)"
proof -
  have "nat (last_applied n + int k + 1) = nat (last_applied n + 1) + k" using assms(1) by simp
  moreover have "take k (pending_entries n) = take k (drop (nat (last_applied n + 1)) (raft_log n))"
    using assms(2) by (simp add: pending_entries_def min_def split: if_splits)
  ultimately show ?thesis by (simp add: applied_prefix_def take_add)
qed

text \<open>C14: Applying committed entries keeps the queue equal, up to timestamps and delivery counts, to
  the specification run over the applied prefix of the log, also when a callback raises; so two
  nodes that have applied the same prefix hold the same messages in the same order with the same
  acknowledgements.\<close>

theorem queue_refines_log:
  assumes "apply_committed_entries [dq_handle_commit now] n q = (x, n', q')"
    and "-1 \<le> last_applied n" and "commit_index n < int (length (raft_log n))" and "in_sync n q"
  shows "in_sync n' q'"
proof -
  obtain k where f: "feed [dq_handle_commit now] (pending_entries n) q = (x, k, q')"
    and n': "n' = n\<lparr>last_applied := last_applied n + int k\<rparr>"
    using assms(1) apply_feed[OF assms(2,3), of "[dq_handle_commit now]" q] by (auto split: prod.splits)
  show ?thesis
    using feed_view[OF f] applied_prefix_feed[OF assms(2) feed_count_le[OF f]] assms(4)
    by (simp add: in_sync_def n')
qed

section \<open>Delivery\<close>

definition bump :: "queue_message \<Rightarrow> queue_message" where
  "bump m = m\<lparr>qm_delivery_count := qm_delivery_count m + 1\<rparr>"

abbreviation unacked :: "queue_message list \<Rightarrow> queue_message list" where
  "unacked ms \<equiv> filter (\<lambda>m. \<not> qm_acked m) ms"

lemma unacked_positions: "map (\<lambda>i. ms ! i) (unacked_positions ms) = unacked ms"
proof -
  have "unacked (map (\<lambda>i. ms ! i) [0..<length ms]) = map (\<lambda>i. ms ! i) (unacked_positions ms)"
    by (simp add: filter_map unacked_positions_def comp_def)
  then show ?thesis by (simp add: map_nth)
qed

lemma py_take_map [simp]: "py_take n (map f xs) = map f (py_take n xs)"
  by (simp add: py_take_def take_map)

lemma distinct_py_take: "distinct xs \<Longrightarrow> distinct (py_take n xs)"
  by (simp add: py_take_def)

lemma deliver_partition:
  "partition_of (deliver pid i q) p
     = (if p = pid then (partition_of q pid)[i := bump (partition_of q pid ! i)] else partition_of q p)"
  by (simp add: deliver_def Let_def bump_def partition_of_def update_conv' split: option.split)

lemma note_ack_frame [simp]:
  "partitions (note_ack mid c q) = partitions q" "dq_ring (note_ack mid c q) = dq_ring q"
  by (simp_all add: note_ack_def Let_def)

lemma partition_note_ack [simp]: "partition_of (note_ack mid c q) p = partition_of q p"
  by (rule partition_of_cong) simp

lemma mark_acked_fields [simp]:
  "qm_msg_id (mark_acked mid m) = qm_msg_id m" "qm_payload (mark_acked mid m) = qm_payload m"
  "qm_partition_id (mark_acked mid m) = qm_partition_id m"
  "qm_acked (mark_acked mid m) \<longleftrightarrow> qm_acked m \<or> qm_msg_id m = mid"
  by (simp_all add: mark_acked_def)

lemma deliver_ring [simp]: "dq_ring (deliver pid i q) = dq_ring q"
  by (simp add: deliver_def Let_def)

lemma fold_deliver_partition:
  assumes "distinct is" "\<forall>i\<in>set is. i < length (partition_of q pid)"
  shows "partition_of (fold (deliver pid) is q) p =
     (if p = pid then map (\<lambda>j. if j \<in> set is then bump (partition_of q pid ! j) else partition_of q pid ! j)
                        [0..<length (partition_of q pid)]
      else partition_of q p)"
  using assms
proof (induction "is" arbitrary: q)
  case Nil
  then show ?case by (simp add: map_nth)
next
  case (Cons i "is")
  have "\<forall>j\<in>set is. j < length (partition_of (deliver pid i q) pid)"
    using Cons.prems(2) by (simp add: deliver_partition)
  then show ?case using Cons.prems
    by (simp add: Cons.IH deliver_partition) (auto simp: nth_list_update intro!: nth_equalityI)
qed

lemma fold_deliver_ring [simp]: "dq_ring (fold (deliver pid) is q) = dq_ring q"
  by (induction "is" arbitrary: q) simp_all

lemma partition_absent: "\<not> dict_has (partitions q) pid \<Longrightarrow> partition_of q pid = []"
  by (simp add: partition_of_def dict_has_def)

lemma picked_ok:
  "distinct (py_take b (unacked_positions ms))"
  "i \<in> set (py_take b (unacked_positions ms)) \<Longrightarrow> i < length ms"
  using set_py_take by (fastforce intro: distinct_py_take simp: unacked_positions_def)+

lemma consume_partition:
  "consume h topic b q = (msgs, q') \<Longrightarrow> partition_of q' p =
     (if p = get_partition h topic then
        map (\<lambda>j. if j \<in> set (py_take b (unacked_positions (partition_of q p)))
                 then bump (partition_of q p ! j) else partition_of q p ! j)
          [0..<length (partition_of q p)]
      else partition_of q p)"
  by (auto simp: consume_def Let_def fold_deliver_partition[OF picked_ok(1)] picked_ok(2) partition_absent
      split: if_splits)

lemma consume_messages:
  assumes "consume h topic b q = (msgs, q')"
  shows "msgs = map bump (py_take b (unacked (partition_of q (get_partition h topic))))"
proof (cases "dict_has (partitions q) (get_partition h topic)")
  case True
  let ?ms = "partition_of q (get_partition h topic)"
  let ?picked = "py_take b (unacked_positions ?ms)"
  have "msgs = map (\<lambda>i. partition_of q' (get_partition h topic) ! i) ?picked"
    using assms True by (auto simp: consume_def Let_def)
  also have "\<dots> = map (\<lambda>i. bump (?ms ! i)) ?picked"
    unfolding consume_partition[OF assms] by (simp add: picked_ok(2))
  also have "\<dots> = map bump (py_take b (map (\<lambda>i. ?ms ! i) (unacked_positions ?ms)))" by simp
  finally show ?thesis by (simp only: unacked_positions)
next
  case False
  then show ?thesis using assms by (auto simp: consume_def partition_absent py_take_def)
qed

lemma bump_fields [simp]:
  "qm_msg_id (bump m) = qm_msg_id m" "qm_payload (bump m) = qm_payload m" "qm_acked (bump m) = qm_acked m"
  "qm_partition_id (bump m) = qm_partition_id m"
  by (simp_all add: bump_def)

lemma consume_keeps_positions:
  assumes "consume h topic b q = (msgs, q')"
  shows "unacked_positions (partition_of q' p) = unacked_positions (partition_of q p)"
  unfolding unacked_positions_def consume_partition[OF assms] by (auto intro!: filter_cong split: if_splits)

lemma consume_keeps_view:
  assumes "consume h topic b q = (msgs, q')"
  shows "queue_view q' = queue_view q"
proof (rule ext)
  fix p
  show "queue_view q' p = queue_view q p"
    unfolding queue_view_def consume_partition[OF assms] by (auto intro!: nth_equalityI)
qed

text \<open>C33: \<open>consume\<close> delivers the oldest unacknowledged messages of the topic's partition in the order
  of publication, each with its delivery count one higher, and takes nothing away: the visible
  content is unchanged, and the next \<open>consume\<close> of the same size delivers the same messages again.\<close>

theorem consume_fifo:
  assumes "consume h topic b q = (msgs, q')"
  shows "msgs = map bump (py_take b (unacked (partition_of q (get_partition h topic))))
   \<and> queue_view q' = queue_view q \<and> fst (consume h topic b q') = map bump msgs"
proof -
  let ?pid = "get_partition h topic"
  let ?picked = "py_take b (unacked_positions (partition_of q ?pid))"
  have m: "msgs = map bump (py_take b (unacked (partition_of q ?pid)))" by (rule consume_messages[OF assms])
  have "py_take b (unacked (partition_of q' ?pid)) = map (\<lambda>i. partition_of q' ?pid ! i) ?picked"
    unfolding unacked_positions[symmetric] consume_keeps_positions[OF assms] by simp
  also have "\<dots> = map (\<lambda>i. bump (partition_of q ?pid ! i)) ?picked"
    unfolding consume_partition[OF assms] by (simp add: picked_ok(2))
  also have "\<dots> = map bump (py_take b (unacked (partition_of q ?pid)))"
    by (simp add: unacked_positions[symmetric])
  finally have "py_take b (unacked (partition_of q' ?pid)) = msgs" using m by simp
  then have "fst (consume h topic b q') = map bump msgs"
    using consume_messages[of h topic b q'] by (metis prod.collapse)
  then show ?thesis using m consume_keeps_view[OF assms] by simp
qed

section \<open>Publishing and acknowledging on a serving leader\<close>

abbreviation dq_append ::
  "(string \<Rightarrow> message \<Rightarrow> message option) \<Rightarrow> rat \<Rightarrow> string \<Rightarrow> jdict
     \<Rightarrow> raft_node \<times> distributed_queue \<Rightarrow> bool result \<times> (raft_node \<times> distributed_queue)" where
  "dq_append send now \<equiv> append_entry [dq_handle_commit now] send now"

lemma get_queue_depth_unacked:
  "get_queue_depth h topic q = length (unacked (partition_of q (get_partition h topic)))"
  by (simp add: get_queue_depth_def Let_def partition_absent)

lemma decode_publish_data [simp]:
  "decode_message now (publish_data mid topic pid payload replicas) =
     Inr \<lparr>qm_msg_id = mid, qm_payload = wire_payload payload, qm_partition_id = pid, qm_timestamp = now,
          qm_acked = False, qm_delivery_count = 0\<rparr>"
  by (simp add: decode_message_def publish_data_def item_defs)

text \<open>Publishing and acknowledging where commits are synchronous.\<close>

locale direct_queue = direct_append raft_append "dq_handle_commit now" ok cmds
  for raft_append :: "string \<Rightarrow> jdict \<Rightarrow> 'r \<times> distributed_queue \<Rightarrow> bool result \<times> ('r \<times> distributed_queue)"
    and now :: rat and ok :: "'r \<Rightarrow> bool" and cmds :: "string set" +
  assumes commands: "{''QUEUE_PUBLISH'', ''QUEUE_ACK''} \<subseteq> cmds"
begin

lemma publish_result:
  assumes "ok r" and "ring_built h (dq_ring q)"
  shows "\<exists>r'. ok r' \<and> publish h raft_append mid topic payload (r, q) = (Inr (Some mid), (r', store_message
       \<lparr>qm_msg_id = mid, qm_payload = wire_payload payload, qm_partition_id = get_partition h topic,
         qm_timestamp = now, qm_acked = False, qm_delivery_count = 0\<rparr> q))"
proof -
  let ?m = "\<lparr>qm_msg_id = mid, qm_payload = wire_payload payload, qm_partition_id = get_partition h topic,
         qm_timestamp = now, qm_acked = False, qm_delivery_count = 0\<rparr>"
  obtain rs where rs: "get_replicas h (dq_ring q) (topic @ '':'' @ str_int (get_partition h topic))
      (replication_factor q) = Inr rs" using get_replicas_uniq[OF assms(2)] by blast
  let ?d = "publish_data mid topic (get_partition h topic) payload rs"
  have "dq_handle_commit now e q = (None, store_message ?m q)" if "le_command e = ''QUEUE_PUBLISH''" "le_data e = ?d" for e
    using that by (simp add: dq_handle_commit_def)
  from direct[OF assms(1) _ this] obtain r' where
    "ok r'" "raft_append ''QUEUE_PUBLISH'' ?d (r, q) = (Inr True, (r', store_message ?m q))" using commands by blast
  then show ?thesis using rs by (auto simp: publish_def Let_def)
qed

lemma ack_result:
  assumes "ok r"
  shows "\<exists>r'. ok r' \<and> acknowledge raft_append mid consumer (r, q)
     = (Inr True, (r', ack_message mid (note_ack mid consumer q)))"
proof -
  let ?d = "[(''msg_id'', JStr mid), (''consumer_id'', JStr consumer)]" and ?q = "note_ack mid consumer q"
  have "dq_handle_commit now e ?q = (None, ack_message mid ?q)" if "le_command e = ''QUEUE_ACK''" "le_data e = ?d" for e
    using that by (simp add: dq_handle_commit_def item_defs)
  from direct[OF assms(1) _ this] obtain r' where
    "ok r'" "raft_append ''QUEUE_ACK'' ?d (r, ?q) = (Inr True, (r', ack_message mid ?q))" using commands by blast
  then show ?thesis by (auto simp: acknowledge_def Let_def)
qed

end

interpretation dq_direct: direct_queue "dq_append send now" now "serving send" UNIV for send now
  by unfold_locales simp

text \<open>On a serving leader \<open>publish\<close> returns the identifier and has by then stored the
  message, unacknowledged and undelivered, behind the others of its partition and nowhere else, so
  the depth of the topic grows by one.\<close>

theorem publish_appends:
  assumes "serving send n" and "ring_built h (dq_ring q)"
    and "publish h (dq_append send now) mid topic payload (n, q) = (r, (n', q'))"
  shows "r = Inr (Some mid) \<and> serving send n'
   \<and> partition_of q' = (partition_of q)(get_partition h topic := partition_of q (get_partition h topic) @
       [\<lparr>qm_msg_id = mid, qm_payload = wire_payload payload, qm_partition_id = get_partition h topic,
         qm_timestamp = now, qm_acked = False, qm_delivery_count = 0\<rparr>])
   \<and> get_queue_depth h topic q' = Suc (get_queue_depth h topic q)"
proof -
  let ?m = "\<lparr>qm_msg_id = mid, qm_payload = wire_payload payload, qm_partition_id = get_partition h topic,
         qm_timestamp = now, qm_acked = False, qm_delivery_count = 0\<rparr>"
  have "r = Inr (Some mid) \<and> serving send n' \<and> q' = store_message ?m q"
    using dq_direct.publish_result[OF assms(1,2), of now mid topic payload] assms(3) by auto
  moreover have "partition_of (store_message ?m q) = (partition_of q)(qm_partition_id ?m := partition_of q (qm_partition_id ?m) @ [?m])"
    by (rule ext) (simp add: partition_store)
  ultimately show ?thesis by (simp add: get_queue_depth_unacked)
qed

text \<open>C34: On a leader that a quorum acknowledges (or that has no peers), with no other request running while the append waits,
  \<open>acknowledge\<close> returns true and marks exactly the messages with the
  identifier, in every partition; none of them is delivered again.\<close>

theorem acknowledge_effect:
  assumes "serving send n" and "acknowledge (dq_append send now) mid consumer (n, q) = (r, (n', q'))"
  shows "r = Inr True \<and> serving send n' \<and> (\<forall>p. partition_of q' p = map (mark_acked mid) (partition_of q p))
   \<and> mid \<notin> qm_msg_id ` set (fst (consume h topic b q'))"
proof -
  have q': "r = Inr True \<and> serving send n' \<and> q' = ack_message mid (note_ack mid consumer q)"
    using dq_direct.ack_result[OF assms(1), of now mid consumer q] assms(2) by auto
  then have part: "partition_of q' p = map (mark_acked mid) (partition_of q p)" for p
    by (simp add: partition_ack)
  have "m \<in> set (unacked (partition_of q' p)) \<Longrightarrow> qm_msg_id m \<noteq> mid" for m p
    unfolding part by auto
  then have "mid \<notin> qm_msg_id ` set (fst (consume h topic b q'))"
    using consume_messages[of h topic b q'] set_py_take[of b "unacked (partition_of q' (get_partition h topic))"]
    by (cases "consume h topic b q'") fastforce
  then show ?thesis using q' part by blast
qed

section \<open>At least once\<close>

lemma spec_entry_keeps:
  "(i, b, False) \<in> set (V p) \<Longrightarrow> acked_id e \<noteq> Some i \<Longrightarrow> (i, b, False) \<in> set (spec_entry e V p)"
  by (force simp: spec_entry_def split: option.split)

lemma spec_keeps:
  "(i, b, False) \<in> set (V p) \<Longrightarrow> \<forall>e\<in>set es. acked_id e \<noteq> Some i \<Longrightarrow> (i, b, False) \<in> set (fold spec_entry es V p)"
  by (induction es arbitrary: V) (simp_all add: spec_entry_keeps)

lemma spec_holds:
  assumes "j < length es" "published (es ! j) = Some (p, i, b)" "\<forall>k. j < k \<and> k < length es \<longrightarrow> acked_id (es ! k) \<noteq> Some i"
  shows "(i, b, False) \<in> set (fold spec_entry es V p)"
proof -
  have es: "es = take j es @ es ! j # drop (Suc j) es" using assms(1) by (rule id_take_nth_drop)
  have later: "\<forall>e\<in>set (drop (Suc j) es). acked_id e \<noteq> Some i"
    using assms(3) by (auto simp: in_set_conv_nth)
  have "(i, b, False) \<in> set (spec_entry (es ! j) (fold spec_entry (take j es) V) p)"
    by (simp add: spec_entry_def assms(2))
  from spec_keeps[where V = "spec_entry (es ! j) (fold spec_entry (take j es) V)", OF this later] show ?thesis
    by (subst es) simp
qed

text \<open>C32: No applied message is lost: on a node whose queue is in step with the entries the node has applied (which
  \<open>queue_refines_log\<close> keeps), a message whose publish entry the node has applied, with no acknowledgement of its
  identifier applied after it, is among the messages a large enough \<open>consume\<close> delivers. A publish that was
  answered but never committed is not covered.\<close>

theorem at_least_once:
  assumes "in_sync n q" and "j < length (applied_prefix n)"
    and "published (applied_prefix n ! j) = Some (get_partition h topic, i, payload)"
    and "\<forall>k. j < k \<and> k < length (applied_prefix n) \<longrightarrow> acked_id (applied_prefix n ! k) \<noteq> Some i"
    and "int (get_queue_depth h topic q) \<le> b"
  shows "\<exists>m\<in>set (fst (consume h topic b q)). qm_msg_id m = i \<and> qm_payload m = payload"
proof -
  let ?pid = "get_partition h topic"
  have "(i, payload, False) \<in> set (queue_view q ?pid)"
    using spec_holds[OF assms(2,3,4)] assms(1) by (simp add: in_sync_def)
  then obtain m where m: "m \<in> set (unacked (partition_of q ?pid))" "qm_msg_id m = i" "qm_payload m = payload"
    by (auto simp: queue_view_def)
  have "py_take b (unacked (partition_of q ?pid)) = unacked (partition_of q ?pid)"
    using assms(5) by (simp add: get_queue_depth_unacked py_take_def)
  then have "fst (consume h topic b q) = map bump (unacked (partition_of q ?pid))"
    using consume_messages[of h topic b q] by (metis prod.collapse)
  then show ?thesis using m by force
qed

text \<open>Topics are not separate queues: two topics with the same partition number are read from the
  same list, so a consumer of one receives the messages of the other, and among any eleven topics two
  are shared in this way.\<close>

theorem topics_share_partitions:
  assumes "finite T" and "10 < card T"
  shows "\<exists>t1\<in>T. \<exists>t2\<in>T. t1 \<noteq> t2 \<and> (\<forall>b q. consume h t1 b q = consume h t2 b q
     \<and> get_queue_depth h t1 q = get_queue_depth h t2 q)"
proof -
  have same: "consume h t1 b q = consume h t2 b q \<and> get_queue_depth h t1 q = get_queue_depth h t2 q"
    if "get_partition h t1 = get_partition h t2" for t1 t2 b q
    using that by (simp add: consume_def get_queue_depth_def Let_def)
  have "\<exists>t1\<in>T. \<exists>t2\<in>T. t1 \<noteq> t2 \<and> get_partition h t1 = get_partition h t2"
  proof (rule ccontr)
    assume "\<not> ?thesis"
    then have "inj_on (get_partition h) T" by (auto simp: inj_on_def)
    then have "card T = card (get_partition h ` T)" by (simp add: card_image)
    also have "\<dots> \<le> card {0..<10::int}" by (intro card_mono) (auto simp: get_partition_def)
    finally show False using assms(2) by simp
  qed
  then show ?thesis using same by blast
qed

section \<open>Failure recovery and persistence\<close>

lemma first_error_none: "(\<forall>r\<in>set rs. \<exists>x. r = Inr x) \<Longrightarrow> first_error rs = None"
  by (induction rs) auto

text \<open>\<open>recover_from_failure\<close> never fails on a built ring, and all it does is take the node off the
  ring: no message is moved, copied or dropped.\<close>

theorem recovery_moves_nothing:
  assumes "ring_built h (dq_ring q)"
  shows "recover_from_failure h failed q = (None, q\<lparr>dq_ring := ring_remove_node h failed (dq_ring q)\<rparr>)
   \<and> hr_nodes (ring_remove_node h failed (dq_ring q)) = remove1 failed (hr_nodes (dq_ring q))"
proof -
  have "\<exists>rs. get_replicas h (ring_remove_node h failed (dq_ring q)) k c = Inr rs" for k c
    using get_replicas_uniq[OF remove_node_built[OF assms]] by blast
  then have "first_error (map (\<lambda>pid. get_replicas h (ring_remove_node h failed (dq_ring q)) (f pid) c) pids) = None" for f c pids
    by (intro first_error_none) auto
  then show ?thesis
    by (auto simp: recover_from_failure_def Let_def ring_remove_node_def build_ring_def remove1_idem)
qed

lemma stored_persisted:
  assumes "fromisoformat (isoformat (qm_timestamp m)) = Inr (qm_timestamp m)" "isoformat (qm_timestamp m) \<noteq> []"
  shows "stored_message fromisoformat now (persist_payload isoformat m) = Inr (m\<lparr>qm_acked := False\<rparr>)"
  using assms by (cases m) (simp add: stored_message_def stored_timestamp_def persist_payload_def item_defs truthy_def)

lemma load_restores:
  assumes "\<forall>m\<in>set ms. fromisoformat (isoformat (qm_timestamp m)) = Inr (qm_timestamp m) \<and> isoformat (qm_timestamp m) \<noteq> []"
    and "distinct (map qm_msg_id ms)" and "\<forall>m\<in>set ms. \<forall>p. qm_msg_id m \<notin> qm_msg_id ` set (partition_of q p)"
  shows "\<exists>q'. load_persisted_messages fromisoformat now (map (persist_payload isoformat) ms) q = (None, q')
     \<and> (\<forall>p. partition_of q' p = partition_of q p @ filter (\<lambda>m. qm_partition_id m = p) (unacked ms))"
  using assms
proof (induction ms arbitrary: q)
  case (Cons m ms)
  have acked: "map_of (persist_payload isoformat m) ''acked'' = Some (JBool (qm_acked m))"
    by (simp add: persist_payload_def)
  show ?case
  proof (cases "qm_acked m")
    case True
    then show ?thesis using Cons acked by (simp add: truthy_def)
  next
    case False
    then have m: "m\<lparr>qm_acked := False\<rparr> = m" by simp
    have fresh: "qm_msg_id m \<notin> qm_msg_id ` set (partition_of q (qm_partition_id m))" using Cons.prems(3) by simp
    let ?q = "restore_message m q"
    have part: "partition_of ?q p = (if p = qm_partition_id m then partition_of q p @ [m] else partition_of q p)" for p
      using fresh by (simp add: restore_message_def Let_def)
    have "\<exists>q'. load_persisted_messages fromisoformat now (map (persist_payload isoformat) ms) ?q = (None, q')
     \<and> (\<forall>p. partition_of q' p = partition_of ?q p @ filter (\<lambda>m. qm_partition_id m = p) (unacked ms))"
      using Cons.prems by (intro Cons.IH) (auto simp: part image_iff)
    then show ?thesis
      using False acked stored_persisted[of fromisoformat isoformat m now] Cons.prems(1) m
      by (auto simp: part truthy_def)
  qed
qed simp

text \<open>C35: Recovery from the store after a restart: attaching a store whose values were written for the
  messages \<open>ms\<close> (with distinct identifiers, none known yet) restores exactly the unacknowledged ones,
  each complete with its delivery count, behind what the partitions already hold, in the order of the
  store; acknowledged ones stay out.\<close>

theorem persistence_roundtrip:
  assumes "\<forall>m\<in>set ms. fromisoformat (isoformat (qm_timestamp m)) = Inr (qm_timestamp m) \<and> isoformat (qm_timestamp m) \<noteq> []"
    and "distinct (map qm_msg_id ms)" and "\<forall>m\<in>set ms. \<forall>p. qm_msg_id m \<notin> qm_msg_id ` set (partition_of q p)"
    and "persistence_enabled q"
  shows "\<exists>q'. set_persistence_store fromisoformat now (Some (map (persist_payload isoformat) ms)) q = (None, q')
     \<and> (\<forall>p. partition_of q' p = partition_of q p @ filter (\<lambda>m. qm_partition_id m = p) (unacked ms))"
proof -
  have part: "partition_of (q\<lparr>has_redis := True\<rparr>) p = partition_of q p" for p by (simp add: partition_of_def)
  show ?thesis
    using load_restores[OF assms(1,2), of "q\<lparr>has_redis := True\<rparr>" now] assms(3,4)
    by (simp add: set_persistence_store_def part)
qed

section \<open>Well-formed queues\<close>

definition dq_wf :: "(string \<Rightarrow> nat) \<Rightarrow> distributed_queue \<Rightarrow> bool" where
  "dq_wf h q \<longleftrightarrow> dict_ok (partitions q) \<and> ring_built h (dq_ring q)
     \<and> (\<forall>p. \<forall>m\<in>set (partition_of q p). qm_partition_id m = p)"

lemma dq_wf_partitions:
  assumes "dq_wf h q" "dict_ok (partitions q')" "ring_built h (dq_ring q')"
    and "\<And>p m. m \<in> set (partition_of q' p) \<Longrightarrow> qm_partition_id m = p \<or> (\<exists>m'\<in>set (partition_of q p). qm_partition_id m = qm_partition_id m')"
  shows "dq_wf h q'"
  using assms unfolding dq_wf_def by metis

lemma dq_wf_commit:
  assumes "dq_wf h q"
  shows "dq_wf h (snd (dq_handle_commit now e q))"
proof -
  have "dq_wf h (store_message m q)" for m
    using assms by (intro dq_wf_partitions[OF assms])
      (auto simp: dq_wf_def store_message_partitions distinct_update partition_store split: if_splits)
  moreover have "map fst (partitions (ack_message mid q)) = map fst (partitions q)" for mid
    by (simp add: ack_message_def comp_def case_prod_beta)
  then have "dq_wf h (ack_message mid q)" for mid
    using assms by (intro dq_wf_partitions[OF assms])
      (auto simp: dq_wf_def partition_ack)
  ultimately show ?thesis using assms by (auto simp: dq_handle_commit_def split: sum.split)
qed

interpretation dq_table: commit_listener "dq_handle_commit now" "dq_wf h" for now h
  by unfold_locales (rule dq_wf_commit)

text \<open>What the operations that await the node need of it: that the entries they append keep the
  invariant, and that the bookkeeping of acknowledgements does not matter.\<close>

locale queue_host =
  fixes raft_append :: "string \<Rightarrow> jdict \<Rightarrow> 'r \<times> distributed_queue \<Rightarrow> bool result \<times> ('r \<times> distributed_queue)"
    and inv :: "'r \<times> distributed_queue \<Rightarrow> bool"
  assumes publish_request:
      "inv w \<Longrightarrow> inv (snd (raft_append ''QUEUE_PUBLISH'' (publish_data mid topic pid payload rs) w))"
    and ack_request:
      "inv w \<Longrightarrow> inv (snd (raft_append ''QUEUE_ACK'' [(''msg_id'', JStr mid), (''consumer_id'', JStr consumer)] w))"
    and note_inv: "inv (r, q) \<Longrightarrow> inv (r, note_ack mid consumer q)"
begin

lemma publish_keeps: "inv w \<Longrightarrow> inv (snd (publish h raft_append mid topic payload w))"
  using publish_request[of w mid topic "get_partition h topic" payload]
  by (auto simp: publish_def Let_def split: sum.split prod.split) (metis snd_conv)+

lemma acknowledge_keeps: "inv w \<Longrightarrow> inv (snd (acknowledge raft_append mid consumer w))"
  using ack_request[OF note_inv[of "fst w" "snd w"]] by (simp add: acknowledge_def)

end

interpretation dq_any: queue_host "dq_append send now" "\<lambda>w. dq_wf h (snd w)" for send now h
  by unfold_locales (simp_all add: dq_table.client.append_inv, simp add: dq_wf_def)

lemma deliver_dict_ok: "dict_ok (partitions q) \<Longrightarrow> dict_ok (partitions (deliver pid i q))"
  by (simp add: deliver_def Let_def distinct_update)

lemma fold_deliver_dict_ok: "dict_ok (partitions q) \<Longrightarrow> dict_ok (partitions (fold (deliver pid) is q))"
  by (induction "is" arbitrary: q) (simp_all add: deliver_dict_ok)

lemma consume_wf:
  assumes "dq_wf h q"
  shows "dq_wf h (snd (consume h' topic b q))"
proof -
  obtain msgs q' where c: "consume h' topic b q = (msgs, q')" by (rule prod.exhaust)
  have "dict_ok (partitions q') \<and> dq_ring q' = dq_ring q"
    using c assms by (auto simp: consume_def Let_def dq_wf_def fold_deliver_dict_ok split: if_splits)
  moreover have "qm_partition_id m = p \<or> (\<exists>m'\<in>set (partition_of q p). qm_partition_id m = qm_partition_id m')"
    if "m \<in> set (partition_of q' p)" for p m
    using that unfolding consume_partition[OF c] by (auto split: if_splits)
  ultimately have "dq_wf h q'" using assms by (intro dq_wf_partitions[OF assms]) (auto simp: dq_wf_def)
  then show ?thesis using c by simp
qed

lemma init_queue_wf: "dq_wf h (init_queue h nid ps f e)"
  by (simp add: dq_wf_def init_queue_def partition_of_def)

text \<open>Whatever the network and the peers do, a run of the node and the client operations keep the
  queue well formed: partition numbers are distinct, every message is stored under its own, and the
  ring matches its nodes.\<close>

theorem queue_well_formed:
  assumes "raft_run [dq_handle_commit now] (n, q) (n', q')" and "dq_wf h q"
  shows "dq_wf h q' \<and> dq_wf h (snd (consume h topic b q'))
    \<and> dq_wf h (snd (snd (publish h (dq_append send now) mid topic payload (n', q'))))
    \<and> dq_wf h (snd (snd (acknowledge (dq_append send now) mid consumer (n', q'))))"
proof -
  have "dq_wf h q'" using dq_table.run_keeps_inv[OF assms(1)] assms(2) by simp
  then show ?thesis
    using consume_wf dq_any.publish_keeps[of h "(n', q')"] dq_any.acknowledge_keeps[of h "(n', q')"] by simp
qed

section \<open>Instances\<close>

definition sample_queue :: distributed_queue where
  "sample_queue = init_queue sample_hash ''a'' [''b''] 2 True"

definition sample_message :: queue_message where
  "sample_message = \<lparr>qm_msg_id = ''m1'', qm_payload = JInt 7, qm_partition_id = get_partition sample_hash ''t'',
     qm_timestamp = 0, qm_acked = False, qm_delivery_count = 0\<rparr>"

definition sample_publish :: log_entry where
  "sample_publish = \<lparr>le_term = 1, le_index = 0, le_command = ''QUEUE_PUBLISH'',
     le_data = publish_data ''m1'' ''t'' (get_partition sample_hash ''t'') (JInt 7) [''a'']\<rparr>"

lemma sample_queue_ring: "ring_built sample_hash (dq_ring sample_queue)"
  by (simp add: sample_queue_def init_queue_def)

lemma sample_queue_empty: "partition_of sample_queue p = []" "persistence_enabled sample_queue"
  by (simp_all add: sample_queue_def init_queue_def partition_of_def)

lemma sample_in_sync: "in_sync (single_leader\<lparr>raft_log := l, commit_index := c\<rparr>) sample_queue"
  by (auto simp: in_sync_def applied_prefix_def queue_view_def sample_queue_empty single_leader_state)

theorem queue_refines_log_witness:
  "let w = apply_committed_entries [dq_handle_commit 0] (single_leader\<lparr>raft_log := [sample_publish], commit_index := 0\<rparr>) sample_queue
   in in_sync (fst (snd w)) (snd (snd w))"
proof -
  let ?n = "single_leader\<lparr>raft_log := [sample_publish], commit_index := 0\<rparr>"
  let ?w = "apply_committed_entries [dq_handle_commit 0] ?n sample_queue"
  have "in_sync (fst (snd ?w)) (snd (snd ?w))"
    by (rule queue_refines_log[of 0 ?n sample_queue "fst ?w"])
      (simp_all only: prod.collapse sample_in_sync, simp_all add: single_leader_state)
  then show ?thesis by (simp only: Let_def)
qed

theorem consume_fifo_witness:
  "let (msgs, q') = consume sample_hash ''t'' 1 (store_message sample_message sample_queue)
   in msgs = [bump sample_message] \<and> fst (consume sample_hash ''t'' 1 q') = [bump (bump sample_message)]"
  using consume_fifo[of sample_hash "''t''" 1 "store_message sample_message sample_queue"]
  by (cases "consume sample_hash ''t'' 1 (store_message sample_message sample_queue)")
    (simp add: partition_store sample_queue_empty sample_message_def py_take_def)

theorem publish_appends_witness:
  "fst (publish sample_hash (dq_append always_yes 0) ''m1'' ''t'' (JInt 7) (serving_leader, sample_queue)) = Inr (Some ''m1'')"
  using publish_appends[OF serving_leader_serving sample_queue_ring, where now = 0 and mid = "''m1''" and topic = "''t''" and payload = "JInt 7"]
  by (cases "publish sample_hash (dq_append always_yes 0) ''m1'' ''t'' (JInt 7) (serving_leader, sample_queue)") auto

theorem acknowledge_effect_witness:
  "fst (acknowledge (dq_append always_yes 0) ''m1'' ''c'' (serving_leader, store_message sample_message sample_queue)) = Inr True"
  using acknowledge_effect[OF serving_leader_serving, where now = 0 and mid = "''m1''"
      and consumer = "''c''" and q = "store_message sample_message sample_queue"]
  by (cases "acknowledge (dq_append always_yes 0) ''m1'' ''c'' (serving_leader, store_message sample_message sample_queue)") auto

theorem at_least_once_witness:
  "\<exists>m\<in>set (fst (consume sample_hash ''t'' 1 (store_message sample_message sample_queue))).
     qm_msg_id m = ''m1'' \<and> qm_payload m = JInt 7"
proof -
  let ?n = "single_leader\<lparr>raft_log := [sample_publish], last_applied := 0\<rparr>"
  let ?q = "store_message sample_message sample_queue"
  have prefix: "applied_prefix ?n = [sample_publish]" by (simp add: applied_prefix_def)
  have pub: "published sample_publish = Some (get_partition sample_hash ''t'', ''m1'', JInt 7)"
    by (simp add: published_def sample_publish_def publish_data_def item_defs wire_payload_def)
  have part: "partition_of ?q p = (if p = get_partition sample_hash ''t'' then [sample_message] else [])" for p
    by (simp add: partition_store sample_queue_empty sample_message_def)
  have "queue_view ?q = (\<lambda>p. [])(get_partition sample_hash ''t'' := [(''m1'', JInt 7, False)])"
    unfolding queue_view_def[abs_def] part by (auto simp: sample_message_def)
  then have "in_sync ?n ?q" by (simp add: in_sync_def prefix spec_entry_def pub)
  moreover have "get_queue_depth sample_hash ''t'' ?q = 1"
    unfolding get_queue_depth_unacked part by (simp add: sample_message_def)
  ultimately show ?thesis
    using at_least_once[where j = 0 and n = ?n and q = ?q and h = sample_hash and topic = "''t''" and b = 1]
    by (simp add: prefix pub)
qed

theorem topics_share_partitions_witness:
  "\<exists>t1\<in>set [''a'', ''b'', ''c'', ''d'', ''e'', ''f'', ''g'', ''h'', ''i'', ''j'', ''k''].
   \<exists>t2\<in>set [''a'', ''b'', ''c'', ''d'', ''e'', ''f'', ''g'', ''h'', ''i'', ''j'', ''k''].
     t1 \<noteq> t2 \<and> (\<forall>b q. consume sample_hash t1 b q = consume sample_hash t2 b q
       \<and> get_queue_depth sample_hash t1 q = get_queue_depth sample_hash t2 q)"
  by (rule topics_share_partitions) simp_all

theorem recovery_moves_nothing_witness:
  "fst (recover_from_failure sample_hash ''b'' sample_queue) = None"
  using recovery_moves_nothing[OF sample_queue_ring, of "''b''"] by simp

theorem persistence_roundtrip_witness:
  "\<exists>q'. set_persistence_store (\<lambda>s. Inr 0) 9 (Some (map (persist_payload (\<lambda>t. ''t'')) [sample_message])) sample_queue = (None, q')
     \<and> partition_of q' (qm_partition_id sample_message) = [sample_message]"
  using persistence_roundtrip[of "[sample_message]" "\<lambda>s. Inr 0" "\<lambda>t. ''t''" sample_queue 9] sample_queue_empty
  by (auto simp: sample_message_def)

theorem queue_well_formed_witness:
  "dq_wf sample_hash (snd (consume sample_hash ''t'' 1 sample_queue))"
  using queue_well_formed[OF rtranclp.rtrancl_refl init_queue_wf[where h = sample_hash], where topic = "''t''" and b = 1]
  unfolding sample_queue_def by blast

end
