(* ===== verification/Cache_Service.thy ===== *)
theory Cache_Service
  imports Raft_Serving
begin

text \<open>
  \<^verbatim>\<open>src/services/cache_service.py\<close>: the LRU policy and the cache with its MOESI states. As in the
  other services \<open>raft_append\<close> is the node's \<open>append_entry\<close> and \<open>now\<close> the clock, read once per operation. \<open>JNull\<close> is Python's
  \<open>None\<close>, so a \<open>get\<close> that returns \<open>None\<close> gives \<open>JNull\<close>. The formatting of the hit rate is not modelled.
\<close>

record moesi_cache =
  mc_node_id :: string
  cache :: "(string, cache_block) dict"
  access_times :: "(string, rat) dict"
  hits :: nat
  misses :: nat
  invalidations :: nat
  pending_invalidations :: "string list"
  max_size :: int
  default_ttl :: rat

definition init_cache :: "string \<Rightarrow> int \<Rightarrow> rat \<Rightarrow> moesi_cache" where
  "init_cache nid limit ttl = \<lparr>mc_node_id = nid, cache = [], access_times = [], hits = 0, misses = 0,
     invalidations = 0, pending_invalidations = [], max_size = limit, default_ttl = ttl\<rparr>"

section \<open>The eviction policy\<close>

definition lru_access :: "rat \<Rightarrow> string \<Rightarrow> moesi_cache \<Rightarrow> moesi_cache" where
  "lru_access now key mc = mc\<lparr>access_times := dict_set (access_times mc) key now\<rparr>"

definition access_time :: "(string, rat) dict \<Rightarrow> string \<Rightarrow> rat" where
  "access_time ats key = (case map_of ats key of None \<Rightarrow> 0 | Some t \<Rightarrow> t)"

text \<open>The loop starts from an infinite time, so it takes the first key and then every strictly older one.\<close>

definition lru_evict :: "(string, rat) dict \<Rightarrow> (string, cache_block) dict \<Rightarrow> string option" where
  "lru_evict ats c =
     (case dict_keys c of [] \<Rightarrow> None | k # ks \<Rightarrow> Some (min_by (access_time ats) k ks))"

section \<open>Blocks and log entries\<close>

definition new_block :: "string \<Rightarrow> rat \<Rightarrow> string \<Rightarrow> json \<Rightarrow> cache_state \<Rightarrow> rat \<Rightarrow> cache_block" where
  "new_block nid now key v st ttl = \<lparr>cb_key = key, cb_value = v, cb_state = st, cb_owner_node = nid,
     cb_last_modified = now, cb_ttl = ttl, cb_sharers = []\<rparr>"

definition wire_value :: "json \<Rightarrow> json" where
  "wire_value v = (if v = JNull then JStr ''None'' else v)"

definition put_data :: "string \<Rightarrow> json \<Rightarrow> cache_state \<Rightarrow> string \<Rightarrow> rat \<Rightarrow> jdict" where
  "put_data key v st owner ttl =
     [(''key'', JStr key), (''value'', wire_value v), (''state'', JStr (cache_state_value st)),
      (''owner'', JStr owner), (''ttl'', JFloat ttl)]"

definition decode_block :: "rat \<Rightarrow> jdict \<Rightarrow> cache_block result" where
  "decode_block now data =
     (case item_str data ''key'' of Inl x \<Rightarrow> Inl x | Inr key \<Rightarrow>
      case item data ''value'' of Inl x \<Rightarrow> Inl x | Inr v \<Rightarrow>
      case item_str data ''state'' of Inl x \<Rightarrow> Inl x | Inr s \<Rightarrow>
      case cache_state_index (py_upper s) of Inl x \<Rightarrow> Inl x | Inr st \<Rightarrow>
      case item_str data ''owner'' of Inl x \<Rightarrow> Inl x | Inr owner \<Rightarrow>
      case item_num data ''ttl'' of Inl x \<Rightarrow> Inl x | Inr ttl \<Rightarrow>
      Inr (new_block owner now key v st ttl))"

definition drop_key :: "string \<Rightarrow> moesi_cache \<Rightarrow> moesi_cache" where
  "drop_key key mc = mc\<lparr>cache := dict_del (cache mc) key, invalidations := invalidations mc + 1\<rparr>"

definition mc_handle_commit :: "rat \<Rightarrow> moesi_cache callback" where
  "mc_handle_commit now entry mc =
     (if le_command entry = ''CACHE_PUT'' then
        (case decode_block now (le_data entry) of Inl x \<Rightarrow> (Some x, mc)
         | Inr b \<Rightarrow> (None, mc\<lparr>cache := dict_set (cache mc) (cb_key b) b\<rparr>))
      else if le_command entry = ''CACHE_INVALIDATE'' then
        (case item_str (le_data entry) ''key'' of Inl x \<Rightarrow> (Some x, mc)
         | Inr key \<Rightarrow> (None, if dict_has (cache mc) key then drop_key key mc else mc))
      else if le_command entry = ''CACHE_INVALIDATE_ALL'' then
        (case item_str (le_data entry) ''key'' of Inl x \<Rightarrow> (Some x, mc)
         | Inr key \<Rightarrow>
             (None, if map_of (le_data entry) ''except_node'' \<noteq> Some (JStr (mc_node_id mc)) \<and> dict_has (cache mc) key
                    then drop_key key mc else mc))
      else (None, mc))"

section \<open>Invalidation\<close>

definition set_state :: "string \<Rightarrow> cache_state \<Rightarrow> moesi_cache \<Rightarrow> moesi_cache" where
  "set_state key st mc =
     (case map_of (cache mc) key of None \<Rightarrow> mc
      | Some b \<Rightarrow> mc\<lparr>cache := dict_set (cache mc) key (b\<lparr>cb_state := st\<rparr>)\<rparr>)"

text \<open>After a successful append the code deletes the key again: \<open>del\<close> on a missing key raises.\<close>

definition invalidate_block ::
  "(string \<Rightarrow> jdict \<Rightarrow> 'r \<times> moesi_cache \<Rightarrow> bool result \<times> ('r \<times> moesi_cache))
   \<Rightarrow> string \<Rightarrow> 'r \<times> moesi_cache \<Rightarrow> exn option \<times> ('r \<times> moesi_cache)" where
  "invalidate_block raft_append key w =
     (if dict_has (cache (snd w)) key then
        (case raft_append ''CACHE_INVALIDATE'' [(''key'', JStr key)] (fst w, set_state key INVALID (snd w)) of
           (Inl x, w1) \<Rightarrow> (Some x, w1)
         | (Inr False, w1) \<Rightarrow> (None, w1)
         | (Inr True, w1) \<Rightarrow>
             if dict_has (cache (snd w1)) key then (None, (fst w1, drop_key key (snd w1)))
             else (Some (KeyError key), w1))
      else (None, w))"

definition evict_one ::
  "(string \<Rightarrow> jdict \<Rightarrow> 'r \<times> moesi_cache \<Rightarrow> bool result \<times> ('r \<times> moesi_cache))
   \<Rightarrow> 'r \<times> moesi_cache \<Rightarrow> exn option \<times> ('r \<times> moesi_cache)" where
  "evict_one raft_append w =
     (case lru_evict (access_times (snd w)) (cache (snd w)) of
        None \<Rightarrow> (None, w)
      | Some key \<Rightarrow> if key \<noteq> [] then invalidate_block raft_append key w else (None, w))"

definition broadcast_invalidation ::
  "(string \<Rightarrow> jdict \<Rightarrow> 'r \<times> moesi_cache \<Rightarrow> bool result \<times> ('r \<times> moesi_cache))
   \<Rightarrow> string \<Rightarrow> 'r \<times> moesi_cache \<Rightarrow> exn option \<times> ('r \<times> moesi_cache)" where
  "broadcast_invalidation raft_append key w =
     (case raft_append ''CACHE_INVALIDATE_ALL''
             [(''key'', JStr key), (''except_node'', JStr (mc_node_id (snd w)))] w of
        (Inl x, w1) \<Rightarrow> (Some x, w1)
      | (Inr False, w1) \<Rightarrow> (None, w1)
      | (Inr True, (r1, mc1)) \<Rightarrow>
          (None, (r1, mc1\<lparr>pending_invalidations :=
             (if key \<in> set (pending_invalidations mc1) then pending_invalidations mc1
              else pending_invalidations mc1 @ [key])\<rparr>)))"

definition invalidated_state :: "bool \<Rightarrow> cache_state \<Rightarrow> cache_state" where
  "invalidated_state own st =
     (case st of EXCLUSIVE \<Rightarrow> if own then st else INVALID
      | MODIFIED \<Rightarrow> if own then st else INVALID
      | SHARED \<Rightarrow> INVALID | OWNED \<Rightarrow> INVALID | INVALID \<Rightarrow> st)"

definition handle_invalidation :: "string \<Rightarrow> string \<Rightarrow> moesi_cache \<Rightarrow> moesi_cache" where
  "handle_invalidation key from_node mc =
     (case map_of (cache mc) key of None \<Rightarrow> mc
      | Some b \<Rightarrow>
          (let st = invalidated_state (from_node = mc_node_id mc) (cb_state b);
               mc1 = set_state key st mc
           in if st = INVALID then drop_key key mc1 else mc1))"

section \<open>Reading and writing\<close>

definition expired :: "rat \<Rightarrow> cache_block \<Rightarrow> bool" where
  "expired now b \<longleftrightarrow> 0 < cb_ttl b \<and> cb_ttl b < now - cb_last_modified b"

definition cache_get ::
  "(string \<Rightarrow> jdict \<Rightarrow> 'r \<times> moesi_cache \<Rightarrow> bool result \<times> ('r \<times> moesi_cache))
   \<Rightarrow> rat \<Rightarrow> string \<Rightarrow> 'r \<times> moesi_cache \<Rightarrow> json result \<times> ('r \<times> moesi_cache)" where
  "cache_get raft_append now key w =
     (let mc = snd w; missed = mc\<lparr>misses := misses mc + 1\<rparr> in
      case map_of (cache mc) key of
        None \<Rightarrow> (Inr JNull, (fst w, missed))
      | Some b \<Rightarrow>
          if cb_state b = INVALID then
            (Inr JNull, (fst w, missed\<lparr>cache := dict_del (cache missed) key\<rparr>))
          else if expired now b then
            (case invalidate_block raft_append key (fst w, missed) of
               (Some x, w1) \<Rightarrow> (Inl x, w1) | (None, w1) \<Rightarrow> (Inr JNull, w1))
          else
            (let mc1 = lru_access now key mc in
             (Inr (cb_value b), (fst w, mc1\<lparr>hits := hits mc1 + 1\<rparr>))))"

text \<open>Taking ownership: \<open>Inr (Some block)\<close>, or \<open>Inr None\<close> when \<open>put\<close> returns \<open>False\<close>.\<close>

definition acquire_block ::
  "(string \<Rightarrow> jdict \<Rightarrow> 'r \<times> moesi_cache \<Rightarrow> bool result \<times> ('r \<times> moesi_cache))
   \<Rightarrow> rat \<Rightarrow> string \<Rightarrow> json \<Rightarrow> rat \<Rightarrow> 'r \<times> moesi_cache
   \<Rightarrow> cache_block option result \<times> ('r \<times> moesi_cache)" where
  "acquire_block raft_append now key v ttl w =
     (let nid = mc_node_id (snd w) in
      if (case map_of (cache (snd w)) key of None \<Rightarrow> False
          | Some b \<Rightarrow> cb_state b \<in> {MODIFIED, OWNED})
      then (Inr (Some (new_block nid now key v MODIFIED ttl)), w)
      else
        (case raft_append ''CACHE_ACQUIRE_EXCLUSIVE'' [(''key'', JStr key), (''owner'', JStr nid)] w of
           (Inl x, w1) \<Rightarrow> (Inl x, w1)
         | (Inr False, w1) \<Rightarrow> (Inr None, w1)
         | (Inr True, w1) \<Rightarrow>
             (case broadcast_invalidation raft_append key w1 of
                (Some x, w2) \<Rightarrow> (Inl x, w2)
              | (None, w2) \<Rightarrow> (Inr (Some (new_block nid now key v EXCLUSIVE ttl)), w2))))"

definition cache_put ::
  "(string \<Rightarrow> jdict \<Rightarrow> 'r \<times> moesi_cache \<Rightarrow> bool result \<times> ('r \<times> moesi_cache))
   \<Rightarrow> rat \<Rightarrow> string \<Rightarrow> json \<Rightarrow> rat option \<Rightarrow> 'r \<times> moesi_cache \<Rightarrow> bool result \<times> ('r \<times> moesi_cache)" where
  "cache_put raft_append now key v ttl_arg w =
     (let ttl = (case ttl_arg of None \<Rightarrow> default_ttl (snd w) | Some t \<Rightarrow> t) in
      case acquire_block raft_append now key v ttl w of
        (Inl x, w1) \<Rightarrow> (Inl x, w1)
      | (Inr None, w1) \<Rightarrow> (Inr False, w1)
      | (Inr (Some b), w1) \<Rightarrow>
          (case raft_append ''CACHE_PUT'' (put_data key v (cb_state b) (mc_node_id (snd w1)) ttl) w1 of
             (Inl x, w2) \<Rightarrow> (Inl x, w2)
           | (Inr False, w2) \<Rightarrow> (Inr False, w2)
           | (Inr True, (r2, mc2)) \<Rightarrow>
               (let mc3 = lru_access now key (mc2\<lparr>cache := dict_set (cache mc2) key b\<rparr>) in
                if int (length (cache mc3)) > max_size mc3 then
                  (case evict_one raft_append (r2, mc3) of
                     (Some x, w4) \<Rightarrow> (Inl x, w4) | (None, w4) \<Rightarrow> (Inr True, w4))
                else (Inr True, (r2, mc3)))))"

section \<open>Statistics\<close>

record cache_stats =
  cache_size :: nat
  stat_max_size :: int
  stat_hits :: nat
  stat_misses :: nat
  hit_rate :: rat
  stat_invalidations :: nat
  stat_pending :: nat

definition mc_get_stats :: "moesi_cache \<Rightarrow> cache_stats" where
  "mc_get_stats mc =
     (let total = hits mc + misses mc;
          rate = (if total > 0 then rat_of_nat (hits mc) / rat_of_nat total * 100 else 0)
      in \<lparr>cache_size = length (cache mc), stat_max_size = max_size mc, stat_hits = hits mc,
          stat_misses = misses mc, hit_rate = rate, stat_invalidations = invalidations mc,
          stat_pending = length (pending_invalidations mc)\<rparr>)"

definition clear_cache :: "moesi_cache \<Rightarrow> moesi_cache" where
  "clear_cache mc = mc\<lparr>cache := []\<rparr>"

end
