(* ===== verification/Cache_Props.thy ===== *)
theory Cache_Props
  imports Cache_Service Raft_Steps
begin

text \<open>
  What the cache guarantees. The locale \<open>cache_host\<close> states what the cache needs of the node to keep
  an invariant; it is interpreted for every network (blocks are stored under their keys) and for a node
  that serves (only two of the five MOESI states ever occur). The exact results of \<open>get\<close> and \<open>put\<close>
  are then given for a serving leader, where every awaited call is known.
\<close>

section \<open>Well-formed caches\<close>

definition blocks_in :: "cache_state set \<Rightarrow> moesi_cache \<Rightarrow> bool" where
  "blocks_in S mc \<longleftrightarrow> dict_ok (cache mc) \<and> (\<forall>(k, b)\<in>set (cache mc). cb_key b = k \<and> cb_state b \<in> S)"

lemma blocks_in_lookup:
  "blocks_in S mc \<Longrightarrow> map_of (cache mc) k = Some b \<Longrightarrow> cb_key b = k \<and> cb_state b \<in> S"
  by (auto simp: blocks_in_def dest: map_of_SomeD)

lemma blocks_in_cong: "cache mc' = cache mc \<Longrightarrow> blocks_in S mc' = blocks_in S mc"
  by (simp add: blocks_in_def)

lemma blocks_in_del: "blocks_in S mc \<Longrightarrow> cache mc' = dict_del (cache mc) k \<Longrightarrow> blocks_in S mc'"
  using dict_del_items[of k "cache mc"] by (auto simp: blocks_in_def distinct_delete)

lemma blocks_in_set:
  "blocks_in S mc \<Longrightarrow> cb_state b \<in> S \<Longrightarrow> cache mc' = dict_set (cache mc) (cb_key b) b \<Longrightarrow> blocks_in S mc'"
  using dict_set_items[of "cb_key b" b "cache mc"] by (auto simp: blocks_in_def distinct_update)

lemma drop_key_cache [simp]: "cache (drop_key k mc) = dict_del (cache mc) k" "mc_node_id (drop_key k mc) = mc_node_id mc"
  by (simp_all add: drop_key_def)

lemma lru_access_cache [simp]: "cache (lru_access now k mc) = cache mc" "max_size (lru_access now k mc) = max_size mc"
  by (simp_all add: lru_access_def)

lemma decode_put_data [simp]:
  "decode_block now (put_data key v st owner ttl) = Inr (new_block owner now key (wire_value v) st ttl)"
  by (simp add: decode_block_def put_data_def item_defs)

lemma new_block_fields [simp]:
  "cb_key (new_block nid now key v st ttl) = key" "cb_state (new_block nid now key v st ttl) = st"
  "cb_value (new_block nid now key v st ttl) = v" "cb_owner_node (new_block nid now key v st ttl) = nid"
  "cb_last_modified (new_block nid now key v st ttl) = now" "cb_ttl (new_block nid now key v st ttl) = ttl"
  by (simp_all add: new_block_def)

lemma decode_block_key: "decode_block now data = Inr b \<Longrightarrow> b = new_block (cb_owner_node b) now (cb_key b) (cb_value b) (cb_state b) (cb_ttl b)"
  by (auto simp: decode_block_def split: sum.splits)

lemma mc_commit_blocks:
  assumes "blocks_in S mc"
    and "le_command e = ''CACHE_PUT'' \<Longrightarrow> \<forall>b. decode_block now (le_data e) = Inr b \<longrightarrow> cb_state b \<in> S"
  shows "blocks_in S (snd (mc_handle_commit now e mc))"
  using assms by (auto simp: mc_handle_commit_def split: sum.split intro: blocks_in_set blocks_in_del)

interpretation mc_table: commit_listener "mc_handle_commit now" "blocks_in UNIV" for now
  by unfold_locales (rule mc_commit_blocks, simp_all)

section \<open>What the cache needs of the node\<close>

text \<open>What the cache appends to the log, the replicated block apart.\<close>

inductive cache_request :: "string \<Rightarrow> jdict \<Rightarrow> bool" where
  invalidate_request: "cache_request ''CACHE_INVALIDATE'' [(''key'', JStr key)]"
| invalidate_all_request: "cache_request ''CACHE_INVALIDATE_ALL'' [(''key'', JStr key), (''except_node'', JStr nid)]"
| ownership_request: "cache_request ''CACHE_ACQUIRE_EXCLUSIVE'' [(''key'', JStr key), (''owner'', JStr nid)]"

inductive_cases cache_requestE: "cache_request c d"

lemma cache_request_not_put: "cache_request c d \<Longrightarrow> c \<noteq> ''CACHE_PUT''"
  by (auto elim: cache_requestE)

locale cache_host =
  fixes raft_append :: "string \<Rightarrow> jdict \<Rightarrow> 'r \<times> moesi_cache \<Rightarrow> bool result \<times> ('r \<times> moesi_cache)"
    and inv :: "'r \<times> moesi_cache \<Rightarrow> bool" and states :: "cache_state set"
  assumes states_used: "EXCLUSIVE \<in> states" "INVALID \<in> states" "OWNED \<in> states \<Longrightarrow> MODIFIED \<in> states"
    and inv_blocks: "inv w \<Longrightarrow> blocks_in states (snd w)"
    and inv_local: "inv (r, mc) \<Longrightarrow> blocks_in states mc' \<Longrightarrow> inv (r, mc')"
    and append_keeps: "inv w \<Longrightarrow> cache_request c d \<Longrightarrow> inv (snd (raft_append c d w))"
    and append_put_keeps:
      "inv w \<Longrightarrow> st \<in> states \<Longrightarrow> inv (snd (raft_append ''CACHE_PUT'' (put_data key v st nid ttl) w))"
begin

lemma append_keeps_eq: "raft_append c d w = (x, w1) \<Longrightarrow> inv w \<Longrightarrow> cache_request c d \<Longrightarrow> inv w1"
  using append_keeps[of w c d] by simp

lemma local_change: "inv w \<Longrightarrow> blocks_in states mc' \<Longrightarrow> inv (fst w, mc')"
  by (cases w) (auto intro: inv_local)

lemma set_state_blocks: "blocks_in states mc \<Longrightarrow> st \<in> states \<Longrightarrow> blocks_in states (set_state key st mc)"
proof (cases "map_of (cache mc) key")
  case (Some b)
  assume "blocks_in states mc" "st \<in> states"
  then show ?thesis
    using blocks_in_lookup[OF _ Some] blocks_in_set[of states mc "b\<lparr>cb_state := st\<rparr>" "set_state key st mc"]
    by (simp add: set_state_def Some)
qed (simp add: set_state_def)

lemma drop_key_blocks: "blocks_in states mc \<Longrightarrow> blocks_in states (drop_key key mc)"
  by (rule blocks_in_del) simp_all

lemma invalidate_keeps:
  assumes "inv w"
  shows "inv (snd (invalidate_block raft_append key w))"
proof -
  have s: "inv (fst w, set_state key INVALID (snd w))"
    using assms set_state_blocks[OF inv_blocks states_used(2)] by (intro local_change)
  obtain x w1 where app: "raft_append ''CACHE_INVALIDATE'' [(''key'', JStr key)] (fst w, set_state key INVALID (snd w)) = (x, w1)"
    by (rule prod.exhaust)
  have "inv w1" by (rule append_keeps_eq[OF app s invalidate_request])
  moreover from this have "inv (fst w1, drop_key key (snd w1))"
    using drop_key_blocks[OF inv_blocks] by (intro local_change)
  ultimately show ?thesis using assms app
    by (auto simp: invalidate_block_def split: sum.split bool.split)
qed

lemma evict_keeps: "inv w \<Longrightarrow> inv (snd (evict_one raft_append w))"
  by (simp add: evict_one_def invalidate_keeps split: option.split)

lemma broadcast_keeps:
  assumes "inv w"
  shows "inv (snd (broadcast_invalidation raft_append key w))"
proof -
  obtain x r1 mc1 where app: "raft_append ''CACHE_INVALIDATE_ALL''
      [(''key'', JStr key), (''except_node'', JStr (mc_node_id (snd w)))] w = (x, (r1, mc1))"
    by (metis prod_cases3)
  have i: "inv (r1, mc1)" by (rule append_keeps_eq[OF app assms invalidate_all_request])
  have "blocks_in states (mc1\<lparr>pending_invalidations := ps\<rparr>)" for ps
    using inv_blocks[OF i] blocks_in_cong[of "mc1\<lparr>pending_invalidations := ps\<rparr>" mc1] by simp
  then have "inv (r1, mc1\<lparr>pending_invalidations := ps\<rparr>)" for ps by (rule inv_local[OF i])
  then show ?thesis using app i by (auto simp: broadcast_invalidation_def split: sum.split bool.split)
qed

lemma handle_invalidation_keeps: "inv (r, mc) \<Longrightarrow> inv (r, handle_invalidation key from_node mc)"
proof -
  assume i: "inv (r, mc)"
  have "blocks_in states mc" using inv_blocks[OF i] by simp
  moreover have "invalidated_state own st \<in> states" if "st \<in> states" for own st
    using that states_used by (cases st) (auto simp: invalidated_state_def)
  ultimately have "blocks_in states (handle_invalidation key from_node mc)"
    using states_used(2) by (auto simp: handle_invalidation_def Let_def split: option.split
        intro!: set_state_blocks drop_key_blocks dest: blocks_in_lookup)
  then show ?thesis by (rule inv_local[OF i])
qed

lemma get_keeps:
  assumes "inv w"
  shows "inv (snd (cache_get raft_append now key w))"
proof -
  have b: "blocks_in states (snd w)" by (rule inv_blocks[OF assms])
  have "inv (fst w, (snd w)\<lparr>misses := k\<rparr>)" for k
    by (rule local_change[OF assms]) (use b blocks_in_cong[of "(snd w)\<lparr>misses := k\<rparr>" "snd w"] in simp)
  moreover have "inv (fst w, (snd w)\<lparr>misses := k, cache := dict_del (cache (snd w)) key\<rparr>)" for k
    by (rule local_change[OF assms]) (rule blocks_in_del[OF b], simp)
  moreover have "inv (fst w, (lru_access now key (snd w))\<lparr>hits := k\<rparr>)" for k
    by (rule local_change[OF assms])
      (use b blocks_in_cong[of "(lru_access now key (snd w))\<lparr>hits := k\<rparr>" "snd w"] in simp)
  ultimately show ?thesis using invalidate_keeps
    by (auto simp: cache_get_def Let_def split: option.split prod.split) (metis snd_conv)+
qed

lemma acquire_keeps:
  assumes "inv w" "acquire_block raft_append now key v ttl w = (x, w1)"
  shows "inv w1 \<and> (\<forall>b. x = Inr (Some b) \<longrightarrow> cb_key b = key \<and> cb_state b \<in> states)"
proof (cases "case map_of (cache (snd w)) key of None \<Rightarrow> False | Some b \<Rightarrow> cb_state b \<in> {MODIFIED, OWNED}")
  case True
  then obtain b where "map_of (cache (snd w)) key = Some b" "cb_state b \<in> {MODIFIED, OWNED}"
    by (auto split: option.splits)
  then have "MODIFIED \<in> states" using blocks_in_lookup[OF inv_blocks[OF assms(1)]] states_used(3) by fastforce
  then show ?thesis using True assms by (auto simp: acquire_block_def Let_def)
next
  case False
  obtain y w2 where app: "raft_append ''CACHE_ACQUIRE_EXCLUSIVE''
      [(''key'', JStr key), (''owner'', JStr (mc_node_id (snd w)))] w = (y, w2)" by (rule prod.exhaust)
  have w2: "inv w2" by (rule append_keeps_eq[OF app assms(1) ownership_request])
  obtain z w3 where br: "broadcast_invalidation raft_append key w2 = (z, w3)" by (rule prod.exhaust)
  have "inv w3" using broadcast_keeps[OF w2, of key] br by simp
  then show ?thesis using False assms app br w2 states_used(1)
    by (auto simp: acquire_block_def Let_def split: sum.splits bool.splits option.splits)
qed

lemma put_keeps:
  assumes "inv w"
  shows "inv (snd (cache_put raft_append now key v ttl_arg w))"
proof -
  let ?ttl = "case ttl_arg of None \<Rightarrow> default_ttl (snd w) | Some t \<Rightarrow> t"
  obtain x w1 where acq: "acquire_block raft_append now key v ?ttl w = (x, w1)" by (rule prod.exhaust)
  note a = acquire_keeps[OF assms acq]
  show ?thesis
  proof (cases "\<exists>b. x = Inr (Some b)")
    case False
    then show ?thesis using acq a by (auto simp: cache_put_def Let_def split: sum.split option.split)
  next
    case True
    then obtain b where x: "x = Inr (Some b)" by blast
    with a have b: "cb_key b = key" "cb_state b \<in> states" by auto
    obtain y r2 mc2 where app: "raft_append ''CACHE_PUT''
        (put_data key v (cb_state b) (mc_node_id (snd w1)) ?ttl) w1 = (y, (r2, mc2))" by (metis prod_cases3)
    have i2: "inv (r2, mc2)" using append_put_keeps[OF conjunct1[OF a] b(2)] app by (metis snd_conv)
    let ?mc3 = "lru_access now key (mc2\<lparr>cache := dict_set (cache mc2) key b\<rparr>)"
    have "blocks_in states ?mc3"
      by (rule blocks_in_set[of states mc2 b]) (use inv_blocks[OF i2] b in simp_all)
    then have i3: "inv (r2, ?mc3)" by (rule inv_local[OF i2])
    have "inv (snd (evict_one raft_append (r2, ?mc3)))" by (rule evict_keeps[OF i3])
    then show ?thesis using acq x app i2 i3
      by (auto simp: cache_put_def Let_def split: sum.split bool.split prod.split option.split)
  qed
qed

lemma clear_keeps: "inv (r, mc) \<Longrightarrow> inv (r, clear_cache mc)"
  by (rule inv_local) (simp_all add: clear_cache_def blocks_in_def)

end

section \<open>The node as the cache sees it\<close>

abbreviation mc_append ::
  "(string \<Rightarrow> message \<Rightarrow> message option) \<Rightarrow> rat \<Rightarrow> string \<Rightarrow> jdict
     \<Rightarrow> raft_node \<times> moesi_cache \<Rightarrow> bool result \<times> (raft_node \<times> moesi_cache)" where
  "mc_append send now \<equiv> append_entry [mc_handle_commit now] send now"

interpretation mc_any: cache_host "mc_append send now" "\<lambda>w. blocks_in UNIV (snd w)" UNIV for send now
  by unfold_locales (simp_all add: mc_table.append_entry_inv)

text \<open>The two states that a serving leader ever has.\<close>

definition mc_serving_inv :: "(string \<Rightarrow> message \<Rightarrow> message option) \<Rightarrow> raft_node \<times> moesi_cache \<Rightarrow> bool" where
  "mc_serving_inv send w \<longleftrightarrow> serving send (fst w) \<and> blocks_in {EXCLUSIVE, INVALID} (snd w)"

lemma single_step:
  assumes "mc_serving_inv send w" and "c = ''CACHE_PUT'' \<Longrightarrow> \<forall>b. decode_block now d = Inr b \<longrightarrow> cb_state b \<in> {EXCLUSIVE, INVALID}"
  shows "mc_serving_inv send (snd (mc_append send now c d w))"
proof -
  obtain n mc where w: "w = (n, mc)" by (cases w)
  obtain x n' mc' where app: "mc_append send now c d (n, mc) = (x, (n', mc'))" by (metis prod_cases3)
  have n: "serving send n" and b: "blocks_in {EXCLUSIVE, INVALID} mc" using assms(1) w by (simp_all add: mc_serving_inv_def)
  have "blocks_in {EXCLUSIVE, INVALID} (snd (mc_handle_commit now (new_entry n c d) mc))"
    by (rule mc_commit_blocks[OF b]) (use assms(2) in simp)
  then have "blocks_in {EXCLUSIVE, INVALID} mc'" using served_call(2)[OF n app] by simp
  then show ?thesis using served_call(1)[OF n app] w app by (simp add: mc_serving_inv_def)
qed

interpretation mc_served: cache_host "mc_append send now" "mc_serving_inv send" "{EXCLUSIVE, INVALID}" for send now
proof (unfold_locales, goal_cases)
  case (6 w c d)
  then show ?case using cache_request_not_put[OF 6(2)] by (intro single_step) simp_all
next
  case (7 w st key v nid ttl)
  then show ?case by (intro single_step) auto
qed (simp_all add: mc_serving_inv_def)

text \<open>Whatever the network and the peers do, a run of the node and every cache operation keep the
  cache well formed: keys are distinct and every block is stored under its own key.\<close>

theorem cache_well_formed:
  assumes "raft_run [mc_handle_commit now] (n, mc) (n', mc')" and "blocks_in UNIV mc"
  shows "blocks_in UNIV mc'
    \<and> blocks_in UNIV (snd (snd (cache_get (mc_append send now) now key (n', mc'))))
    \<and> blocks_in UNIV (snd (snd (cache_put (mc_append send now) now key v ttl (n', mc'))))
    \<and> blocks_in UNIV (handle_invalidation key from_node mc')"
proof -
  have "blocks_in UNIV mc'" using mc_table.run_keeps_inv[OF assms(1)] assms(2) by simp
  then show ?thesis
    using mc_any.get_keeps[of "(n', mc')"] mc_any.put_keeps[of "(n', mc')"]
      mc_any.handle_invalidation_keeps[of undefined mc'] by simp
qed

text \<open>On a serving leader the operations never produce a MODIFIED, OWNED or SHARED block, so the
  branches of the code for these states are dead: three of the five MOESI states do not occur.\<close>

theorem only_exclusive_or_invalid:
  assumes "serving send n" and "blocks_in {EXCLUSIVE, INVALID} mc"
  shows "blocks_in {EXCLUSIVE, INVALID} (snd (snd (cache_get (mc_append send now) now key (n, mc))))
    \<and> blocks_in {EXCLUSIVE, INVALID} (snd (snd (cache_put (mc_append send now) now key v ttl (n, mc))))
    \<and> blocks_in {EXCLUSIVE, INVALID} (handle_invalidation key from_node mc)"
proof -
  have i: "mc_serving_inv send (n, mc)" using assms by (simp add: mc_serving_inv_def)
  show ?thesis
    using mc_served.inv_blocks[OF mc_served.get_keeps[OF i]] mc_served.inv_blocks[OF mc_served.put_keeps[OF i]]
      mc_served.inv_blocks[OF mc_served.handle_invalidation_keeps[OF i]] by simp
qed

section \<open>Exact results on a serving leader\<close>

text \<open>
  What the operations do where commits are synchronous. The client's side is proved once, from the
  contract \<open>direct_append\<close>, and holds for a cache alone on its Raft node and for the composed node.
\<close>

lemma dict_set_same: "dict_set (dict_set d k v) k v' = dict_set d k v'"
  by (induction d) auto

lemma lru_evict_some: "c \<noteq> [] \<Longrightarrow> \<exists>k. lru_evict ats c = Some k \<and> dict_has c k"
  using min_by_in by (cases c) (fastforce simp: lru_evict_def dict_has_iff)+

locale direct_cache = direct_append raft_append "mc_handle_commit now" ok cmds
  for raft_append :: "string \<Rightarrow> jdict \<Rightarrow> 'r \<times> moesi_cache \<Rightarrow> bool result \<times> ('r \<times> moesi_cache)"
    and now :: rat and ok :: "'r \<Rightarrow> bool" and cmds :: "string set" +
  assumes commands: "{''CACHE_PUT'', ''CACHE_INVALIDATE'', ''CACHE_INVALIDATE_ALL'', ''CACHE_ACQUIRE_EXCLUSIVE''} \<subseteq> cmds"
begin

lemma cache_call:
  assumes "ok r" and "c \<in> {''CACHE_PUT'', ''CACHE_INVALIDATE'', ''CACHE_INVALIDATE_ALL'', ''CACHE_ACQUIRE_EXCLUSIVE''}"
    and "\<And>e. le_command e = c \<Longrightarrow> le_data e = d \<Longrightarrow> mc_handle_commit now e mc = (None, mc')"
  shows "\<exists>r'. ok r' \<and> raft_append c d (r, mc) = (Inr True, (r', mc'))"
  by (rule direct[OF assms(1) _ assms(3)]) (use assms(2) commands in auto)

lemma invalidate_single:
  assumes "ok n" and "dict_has (cache mc) key"
  shows "\<exists>n'. ok n' \<and> invalidate_block raft_append key (n, mc)
     = (Some (KeyError key), (n', mc\<lparr>cache := dict_del (cache mc) key, invalidations := invalidations mc + 1\<rparr>))"
proof -
  let ?mc = "set_state key INVALID mc"
  obtain b where b: "map_of (cache mc) key = Some b" using assms(2) by (auto simp: dict_has_def)
  have "mc_handle_commit now e ?mc = (None, drop_key key ?mc)" if "le_command e = ''CACHE_INVALIDATE''" "le_data e = [(''key'', JStr key)]" for e
    using that by (simp add: mc_handle_commit_def item_defs set_state_def b dict_has_set)
  from cache_call[OF assms(1) _ this] obtain n' where
    n': "ok n'" "raft_append ''CACHE_INVALIDATE'' [(''key'', JStr key)] (n, ?mc) = (Inr True, (n', drop_key key ?mc))"
    by blast
  then have "invalidate_block raft_append key (n, mc) = (Some (KeyError key), (n', drop_key key ?mc))"
    using assms(2) by (simp add: invalidate_block_def dict_has_del)
  then show ?thesis using n'(1) b by (auto simp: drop_key_def set_state_def delete_update_same)
qed

lemma get_result:
  assumes "ok n"
  shows "\<exists>n'. ok n' \<and> cache_get raft_append t key (n, mc) =
     (case map_of (cache mc) key of
        None \<Rightarrow> (Inr JNull, (n', mc\<lparr>misses := misses mc + 1\<rparr>))
      | Some b \<Rightarrow>
          if cb_state b = INVALID then
            (Inr JNull, (n', mc\<lparr>misses := misses mc + 1, cache := dict_del (cache mc) key\<rparr>))
          else if expired t b then
            (Inl (KeyError key), (n', mc\<lparr>misses := misses mc + 1, cache := dict_del (cache mc) key,
               invalidations := invalidations mc + 1\<rparr>))
          else (Inr (cb_value b), (n', mc\<lparr>access_times := dict_set (access_times mc) key t, hits := hits mc + 1\<rparr>)))"
proof (cases "map_of (cache mc) key")
  case None
  then show ?thesis using assms by (auto simp: cache_get_def Let_def)
next
  case (Some b)
  have has: "dict_has (cache (mc\<lparr>misses := misses mc + 1\<rparr>)) key" using Some by (simp add: dict_has_def)
  obtain n' where "ok n'" "invalidate_block raft_append key (n, mc\<lparr>misses := misses mc + 1\<rparr>)
     = (Some (KeyError key), (n', mc\<lparr>misses := misses mc + 1, cache := dict_del (cache mc) key,
         invalidations := invalidations mc + 1\<rparr>))"
    using invalidate_single[OF assms has] by auto
  then show ?thesis using assms Some by (auto simp: cache_get_def Let_def lru_access_def)
qed

lemma acquire_single:
  assumes "ok n"
  shows "\<exists>n' ps. ok n' \<and> acquire_block raft_append t key v ttl (n, mc) =
     (Inr (Some (new_block (mc_node_id mc) t key v
        (if \<exists>b. map_of (cache mc) key = Some b \<and> cb_state b \<in> {MODIFIED, OWNED} then MODIFIED else EXCLUSIVE) ttl)),
      (n', mc\<lparr>pending_invalidations := ps\<rparr>))"
proof (cases "\<exists>b. map_of (cache mc) key = Some b \<and> cb_state b \<in> {MODIFIED, OWNED}")
  case True
  then have "acquire_block raft_append t key v ttl (n, mc)
      = (Inr (Some (new_block (mc_node_id mc) t key v MODIFIED ttl)), (n, mc))"
    by (auto simp: acquire_block_def Let_def)
  then show ?thesis using True assms
    by (intro exI[of _ n] exI[of _ "pending_invalidations mc"]) simp
next
  case False
  let ?d1 = "[(''key'', JStr key), (''owner'', JStr (mc_node_id mc))]"
  let ?d2 = "[(''key'', JStr key), (''except_node'', JStr (mc_node_id mc))]"
  have "mc_handle_commit now e mc = (None, mc)" if "le_command e = ''CACHE_ACQUIRE_EXCLUSIVE''" "le_data e = ?d1" for e
    using that by (simp add: mc_handle_commit_def)
  from cache_call[OF assms _ this] obtain n1 where
    1: "ok n1" "raft_append ''CACHE_ACQUIRE_EXCLUSIVE'' ?d1 (n, mc) = (Inr True, (n1, mc))" by blast
  have "mc_handle_commit now e mc = (None, mc)" if "le_command e = ''CACHE_INVALIDATE_ALL''" "le_data e = ?d2" for e
    using that by (simp add: mc_handle_commit_def item_defs)
  from cache_call[OF 1(1) _ this] obtain n2 where
    2: "ok n2" "raft_append ''CACHE_INVALIDATE_ALL'' ?d2 (n1, mc) = (Inr True, (n2, mc))" by blast
  have "\<not> (case map_of (cache mc) key of None \<Rightarrow> False | Some b \<Rightarrow> cb_state b \<in> {MODIFIED, OWNED})"
    using False by (auto split: option.splits)
  then have "acquire_block raft_append t key v ttl (n, mc)
      = (Inr (Some (new_block (mc_node_id mc) t key v EXCLUSIVE ttl)), (n2, mc\<lparr>pending_invalidations :=
          (if key \<in> set (pending_invalidations mc) then pending_invalidations mc else pending_invalidations mc @ [key])\<rparr>))"
    using 1 2 by (simp only: acquire_block_def broadcast_invalidation_def Let_def snd_conv if_False sum.case prod.case bool.case option.case)
  then show ?thesis using 2(1) by (simp only: False if_False) blast
qed

lemma evict_single:
  assumes "ok n" and "cache mc \<noteq> []"
  shows "\<exists>n' mc' k. ok n' \<and> lru_evict (access_times mc) (cache mc) = Some k
     \<and> evict_one raft_append (n, mc) = (if k = [] then None else Some (KeyError k), (n', mc'))
     \<and> cache mc' = (if k = [] then cache mc else dict_del (cache mc) k) \<and> max_size mc' = max_size mc"
proof -
  obtain k where k: "lru_evict (access_times mc) (cache mc) = Some k" "dict_has (cache mc) k"
    using lru_evict_some[OF assms(2)] by blast
  obtain n' where "ok n'" "invalidate_block raft_append k (n, mc)
     = (Some (KeyError k), (n', mc\<lparr>cache := dict_del (cache mc) k, invalidations := invalidations mc + 1\<rparr>))"
    using invalidate_single[OF assms(1) k(2)] by auto
  then show ?thesis using assms(1) k by (cases "k = []") (auto simp: evict_one_def)
qed

lemma put_result:
  assumes "ok n"
  shows "\<exists>r n' mc'. ok n' \<and> max_size mc' = max_size mc \<and> cache_put raft_append t key v ttl_arg (n, mc) = (r, (n', mc')) \<and>
     (let b = new_block (mc_node_id mc) t key v
            (if \<exists>b. map_of (cache mc) key = Some b \<and> cb_state b \<in> {MODIFIED, OWNED} then MODIFIED else EXCLUSIVE)
            (case ttl_arg of None \<Rightarrow> default_ttl mc | Some s \<Rightarrow> s);
          c = dict_set (cache mc) key b
      in if int (length c) \<le> max_size mc then r = Inr True \<and> cache mc' = c
         else (case lru_evict (dict_set (access_times mc) key t) c of
                 None \<Rightarrow> False
               | Some k \<Rightarrow> if k = [] then r = Inr True \<and> cache mc' = c
                           else r = Inl (KeyError k) \<and> cache mc' = dict_del c k))"
proof -
  define ttl where "ttl = (case ttl_arg of None \<Rightarrow> default_ttl mc | Some s \<Rightarrow> s)"
  define st where "st = (if \<exists>b. map_of (cache mc) key = Some b \<and> cb_state b \<in> {MODIFIED, OWNED} then MODIFIED else EXCLUSIVE)"
  define b where "b = new_block (mc_node_id mc) t key v st ttl"
  define c where "c = dict_set (cache mc) key b"
  have b_state: "cb_state b = st" by (simp add: b_def)
  obtain n1 ps where 1: "ok n1" "acquire_block raft_append t key v ttl (n, mc)
      = (Inr (Some b), (n1, mc\<lparr>pending_invalidations := ps\<rparr>))"
    using acquire_single[OF assms, where ttl = ttl and t = t and v = v and key = key and mc = mc]
    unfolding st_def[symmetric] b_def[symmetric] by blast
  let ?mc1 = "mc\<lparr>pending_invalidations := ps\<rparr>"
  let ?mc2 = "?mc1\<lparr>cache := dict_set (cache mc) key (new_block (mc_node_id mc) now key (wire_value v) st ttl)\<rparr>"
  have "mc_handle_commit now e ?mc1 = (None, ?mc2)" if "le_command e = ''CACHE_PUT''" "le_data e = (put_data key v st (mc_node_id mc) ttl)" for e
    using that by (simp add: mc_handle_commit_def)
  from cache_call[OF 1(1) _ this] obtain n2 where 2: "ok n2"
    "raft_append ''CACHE_PUT'' (put_data key v st (mc_node_id mc) ttl) (n1, ?mc1) = (Inr True, (n2, ?mc2))" by blast
  define mc3 where "mc3 = lru_access t key (?mc2\<lparr>cache := c\<rparr>)"
  have mc3: "lru_access t key (?mc2\<lparr>cache := dict_set (cache ?mc2) key b\<rparr>) = mc3" "cache mc3 = c"
    "max_size mc3 = max_size mc" "access_times mc3 = dict_set (access_times mc) key t"
    by (simp_all add: mc3_def c_def dict_set_same lru_access_def)
  have "mc_node_id ?mc1 = mc_node_id mc" by simp
  then have put: "cache_put raft_append t key v ttl_arg (n, mc) =
     (if int (length c) > max_size mc then
        (case evict_one raft_append (n2, mc3) of (Some x, w4) \<Rightarrow> (Inl x, w4) | (None, w4) \<Rightarrow> (Inr True, w4))
      else (Inr True, (n2, mc3)))"
    by (simp only: cache_put_def snd_conv ttl_def[symmetric] Let_def 1(2) 2(2) b_state mc3
        sum.case option.case prod.case bool.case)
  have ne: "cache mc3 \<noteq> []" by (simp add: mc3(2) c_def)
  obtain n4 mc4 k where 4: "ok n4" "lru_evict (access_times mc3) (cache mc3) = Some k"
    "evict_one raft_append (n2, mc3) = (if k = [] then None else Some (KeyError k), (n4, mc4))"
    "cache mc4 = (if k = [] then cache mc3 else dict_del (cache mc3) k)" "max_size mc4 = max_size mc3"
    using evict_single[OF 2(1) ne] by blast
  show ?thesis
  proof (cases "int (length c) > max_size mc")
    case True
    then show ?thesis unfolding put ttl_def[symmetric] st_def[symmetric] b_def[symmetric] Let_def c_def[symmetric]
      using 4 mc3 by (cases "k = []") auto
  next
    case False
    then show ?thesis unfolding put ttl_def[symmetric] st_def[symmetric] b_def[symmetric] Let_def c_def[symmetric]
      using 2(1) mc3 by auto
  qed
qed

end

interpretation mc_direct: direct_cache "mc_append send now" now "serving send" UNIV for send now
  by unfold_locales simp

text \<open>C37: What \<open>get\<close> does on a serving leader, case by case: a miss, an invalid block that is
  removed, a fresh block that counts as a hit and is touched for the LRU policy, and an expired block,
  where the read raises \<open>KeyError\<close> (the commit of the invalidation has already deleted the key that
  the code then deletes again).\<close>

theorem cache_get_result:
  assumes "serving send n"
  shows "\<exists>n'. serving send n' \<and> cache_get (mc_append send now) t key (n, mc) =
     (case map_of (cache mc) key of
        None \<Rightarrow> (Inr JNull, (n', mc\<lparr>misses := misses mc + 1\<rparr>))
      | Some b \<Rightarrow>
          if cb_state b = INVALID then
            (Inr JNull, (n', mc\<lparr>misses := misses mc + 1, cache := dict_del (cache mc) key\<rparr>))
          else if expired t b then
            (Inl (KeyError key), (n', mc\<lparr>misses := misses mc + 1, cache := dict_del (cache mc) key,
               invalidations := invalidations mc + 1\<rparr>))
          else (Inr (cb_value b), (n', mc\<lparr>access_times := dict_set (access_times mc) key t, hits := hits mc + 1\<rparr>)))"
  by (rule mc_direct.get_result[OF assms])

text \<open>C36: What \<open>put\<close> does on a serving leader: the new block is stored, and if the cache is then
  over its limit the least recently used key is evicted; but the eviction makes \<open>put\<close> raise
  \<open>KeyError\<close> for the evicted key although value and eviction have taken effect.\<close>

theorem cache_put_result:
  assumes "serving send n"
  shows "\<exists>r n' mc'. serving send n' \<and> max_size mc' = max_size mc \<and> cache_put (mc_append send now) t key v ttl_arg (n, mc) = (r, (n', mc')) \<and>
     (let b = new_block (mc_node_id mc) t key v
            (if \<exists>b. map_of (cache mc) key = Some b \<and> cb_state b \<in> {MODIFIED, OWNED} then MODIFIED else EXCLUSIVE)
            (case ttl_arg of None \<Rightarrow> default_ttl mc | Some s \<Rightarrow> s);
          c = dict_set (cache mc) key b
      in if int (length c) \<le> max_size mc then r = Inr True \<and> cache mc' = c
         else (case lru_evict (dict_set (access_times mc) key t) c of
                 None \<Rightarrow> False
               | Some k \<Rightarrow> if k = [] then r = Inr True \<and> cache mc' = c
                           else r = Inl (KeyError k) \<and> cache mc' = dict_del c k))"
  by (rule mc_direct.put_result[OF assms])

text \<open>A value that \<open>put\<close> stored is what \<open>get\<close> returns until its time to live is over, on a leader
  whose quorum acknowledges: after a successful \<open>put\<close> that needed no eviction, a \<open>get\<close> of the key within the ttl
  returns the value and counts one hit; a ttl of zero never expires.\<close>

theorem put_get_roundtrip:
  assumes "serving send n" and "cache_put (mc_append send now) t key v ttl_arg (n, mc) = (Inr True, (n', mc'))"
    and "int (length (cache mc) + 1) \<le> max_size mc"
    and "ttl = (case ttl_arg of None \<Rightarrow> default_ttl mc | Some s \<Rightarrow> s)" and "ttl = 0 \<or> t' - t \<le> ttl"
  shows "\<exists>w. cache_get (mc_append send now') t' key (n', mc') = (Inr v, w)
     \<and> hits (snd w) = hits mc' + 1 \<and> misses (snd w) = misses mc' \<and> cache (snd w) = cache mc'"
proof -
  have len: "int (length (dict_set (cache mc) key b)) \<le> max_size mc" for b
    using assms(3) length_dict_set[where d = "cache mc" and k = key and v = b] by (auto split: if_splits)
  obtain st where st: "st \<noteq> INVALID" "serving send n'"
      "cache mc' = dict_set (cache mc) key (new_block (mc_node_id mc) t key v st ttl)"
    using mc_direct.put_result[OF assms(1), where now = now and t = t and key = key and v = v
        and ttl_arg = ttl_arg and mc = mc] assms(2,4) len
    by (auto simp: Let_def split: if_splits)
  have "map_of (cache mc') key = Some (new_block (mc_node_id mc) t key v st ttl)"
    by (simp add: st(3) update_conv')
  moreover have "\<not> expired t' (new_block (mc_node_id mc) t key v st ttl)"
    using assms(5) by (auto simp: expired_def)
  ultimately show ?thesis
    using mc_direct.get_result[OF st(2), where now = now' and t = t' and key = key and mc = mc'] st(1)
    by auto
qed

text \<open>The policy picks a least recently used key: nothing exactly when the cache is empty, otherwise
  a key of the cache with no other key accessed strictly earlier (a key never accessed counts as 0).\<close>

theorem lru_evict_minimal:
  "case lru_evict ats c of
     None \<Rightarrow> c = []
   | Some k \<Rightarrow> dict_has c k \<and> \<not> (\<exists>k'. dict_has c k' \<and> access_time ats k' < access_time ats k)"
proof (cases c)
  case (Cons x xs)
  let ?k = "min_by (access_time ats) (fst x) (map fst xs)"
  have "?k \<in> fst ` set c" using min_by_in[of "access_time ats" "fst x" "map fst xs"] Cons by auto
  moreover have "access_time ats ?k \<le> access_time ats k'" if "k' \<in> fst ` set c" for k'
    using min_by_le[of k' "fst x" "map fst xs" "access_time ats"] that Cons by auto
  ultimately show ?thesis using Cons by (auto simp: lru_evict_def dict_has_iff not_less)
qed (simp add: lru_evict_def)

text \<open>What an invalidation request does: nothing for an unknown key, nothing for an EXCLUSIVE or
  MODIFIED block when it names the node itself (so the HTTP endpoint, which passes the node's own
  name, cannot invalidate a block that \<open>put\<close> stored), and otherwise it removes the block and counts it.\<close>

theorem handle_invalidation_effect:
  "handle_invalidation key from_node mc =
     (case map_of (cache mc) key of None \<Rightarrow> mc
      | Some b \<Rightarrow> if from_node = mc_node_id mc \<and> cb_state b \<in> {EXCLUSIVE, MODIFIED} then mc
                  else mc\<lparr>cache := dict_del (cache mc) key, invalidations := invalidations mc + 1\<rparr>)"
proof (cases "map_of (cache mc) key")
  case (Some b)
  have same: "set_state key (cb_state b) mc = mc"
    using Some by (simp add: set_state_def update_triv)
  have drop: "drop_key key (set_state key st mc)
      = mc\<lparr>cache := dict_del (cache mc) key, invalidations := invalidations mc + 1\<rparr>" for st
    using Some by (simp add: set_state_def drop_key_def delete_update_same)
  show ?thesis
  proof (cases "from_node = mc_node_id mc \<and> cb_state b \<in> {EXCLUSIVE, MODIFIED}")
    case True
    then have "invalidated_state True (cb_state b) = cb_state b" "cb_state b \<noteq> INVALID"
      by (auto simp: invalidated_state_def)
    then show ?thesis using True Some same by (simp add: handle_invalidation_def Let_def)
  next
    case False
    then have "invalidated_state (from_node = mc_node_id mc) (cb_state b) = INVALID"
      by (cases "cb_state b") (auto simp: invalidated_state_def)
    then show ?thesis using False Some drop by (auto simp: handle_invalidation_def Let_def)
  qed
qed (simp add: handle_invalidation_def)

text \<open>Coherence: the entry that \<open>put\<close> replicates makes every node that applies it hold the key in
  state EXCLUSIVE with the writer as owner, whatever it held before; so two nodes hold one key
  exclusively at the same time.\<close>

theorem every_replica_exclusive:
  "\<exists>b. snd (mc_handle_commit now (new_entry n ''CACHE_PUT'' (put_data key v EXCLUSIVE owner ttl)) mc)
         = mc\<lparr>cache := dict_set (cache mc) key b\<rparr>
     \<and> cb_state b = EXCLUSIVE \<and> cb_owner_node b = owner \<and> cb_value b = wire_value v"
  by (auto simp: mc_handle_commit_def)

section \<open>Instances\<close>

definition sample_cache :: moesi_cache where
  "sample_cache = init_cache ''a'' 2 60"

lemma sample_cache_empty: "cache sample_cache = []" "blocks_in S sample_cache"
  "max_size sample_cache = 2" "default_ttl sample_cache = 60" "mc_node_id sample_cache = ''a''"
  by (simp_all add: sample_cache_def init_cache_def blocks_in_def)

theorem cache_well_formed_witness:
  "blocks_in UNIV (snd (snd (cache_put (mc_append (\<lambda>p m. None) 0) 0 ''k'' (JInt 1) None (single_leader, sample_cache))))"
  using cache_well_formed[OF rtranclp.rtrancl_refl sample_cache_empty(2)] by blast

theorem only_exclusive_or_invalid_witness:
  "blocks_in {EXCLUSIVE, INVALID}
     (snd (snd (cache_put (mc_append always_yes 0) 0 ''k'' (JInt 1) None (serving_leader, sample_cache))))"
  using only_exclusive_or_invalid[OF serving_leader_serving sample_cache_empty(2)] by blast

theorem cache_get_result_witness:
  "fst (cache_get (mc_append always_yes 0) 100 ''k''
     (serving_leader, sample_cache\<lparr>cache := [(''k'', new_block ''a'' 0 ''k'' (JInt 1) EXCLUSIVE 60)]\<rparr>)) = Inl (KeyError ''k'')"
  using cache_get_result[OF serving_leader_serving, where now = 0 and t = 100 and key = "''k''"
      and mc = "sample_cache\<lparr>cache := [(''k'', new_block ''a'' 0 ''k'' (JInt 1) EXCLUSIVE 60)]\<rparr>"]
  by (auto simp: expired_def)

lemma sample_put:
  "\<exists>n' mc'. cache_put (mc_append always_yes 0) 0 ''k'' (JInt 1) None (serving_leader, sample_cache) = (Inr True, (n', mc'))"
  using mc_direct.put_result[OF serving_leader_serving, where now = 0 and t = 0 and key = "''k''"
      and v = "JInt 1" and ttl_arg = None and mc = sample_cache]
  by (auto simp: sample_cache_empty Let_def)

theorem cache_put_result_witness:
  "fst (cache_put (mc_append always_yes 0) 9 ''k'' (JInt 1) None (serving_leader, sample_cache\<lparr>
     max_size := 1, cache := [(''old'', new_block ''a'' 0 ''old'' (JInt 1) EXCLUSIVE 60)]\<rparr>)) = Inl (KeyError ''old'')"
  using cache_put_result[OF serving_leader_serving, where now = 0 and t = 9 and key = "''k''"
      and v = "JInt 1" and ttl_arg = None and mc = "sample_cache\<lparr>max_size := 1,
        cache := [(''old'', new_block ''a'' 0 ''old'' (JInt 1) EXCLUSIVE 60)]\<rparr>"]
  by (auto simp: Let_def lru_evict_def access_time_def sample_cache_def init_cache_def)

theorem put_get_roundtrip_witness:
  "\<exists>w w'. cache_put (mc_append always_yes 0) 0 ''k'' (JInt 1) None (serving_leader, sample_cache) = (Inr True, w)
     \<and> cache_get (mc_append always_yes 0) 60 ''k'' w = (Inr (JInt 1), w')"
proof -
  obtain n' mc' where p: "cache_put (mc_append always_yes 0) 0 ''k'' (JInt 1) None (serving_leader, sample_cache)
      = (Inr True, (n', mc'))" using sample_put by blast
  have "\<exists>w. cache_get (mc_append always_yes 0) 60 ''k'' (n', mc') = (Inr (JInt 1), w)
     \<and> hits (snd w) = hits mc' + 1 \<and> misses (snd w) = misses mc' \<and> cache (snd w) = cache mc'"
    by (rule put_get_roundtrip[OF serving_leader_serving p, where ttl = 60]) (simp_all add: sample_cache_empty)
  then show ?thesis using p by blast
qed

end
