(* ===== verification/App_Services.thy ===== *)
theory App_Services
  imports Lock_Props Queue_Props Cache_Props
begin

text \<open>
  \<^verbatim>\<open>src/app.py\<close>, the composition of a node: one Raft node whose commit callbacks are those of the lock
  manager, the queue and the cache, in the order the constructors register them. Each service is
  shown to work inside the node as it does alone: the interfaces \<open>lock_service\<close>, \<open>queue_client\<close> and
  \<open>cache_host\<close> are interpreted on the composed node.
\<close>

record services =
  sv_locks :: lock_manager
  sv_queue :: distributed_queue
  sv_cache :: moesi_cache

definition on_locks :: "lock_manager callback \<Rightarrow> services callback" where
  "on_locks cb e s = (case cb e (sv_locks s) of (x, l) \<Rightarrow> (x, s\<lparr>sv_locks := l\<rparr>))"

definition on_queue :: "distributed_queue callback \<Rightarrow> services callback" where
  "on_queue cb e s = (case cb e (sv_queue s) of (x, q) \<Rightarrow> (x, s\<lparr>sv_queue := q\<rparr>))"

definition on_cache :: "moesi_cache callback \<Rightarrow> services callback" where
  "on_cache cb e s = (case cb e (sv_cache s) of (x, c) \<Rightarrow> (x, s\<lparr>sv_cache := c\<rparr>))"

definition node_callbacks :: "rat \<Rightarrow> services callback list" where
  "node_callbacks now =
     [on_locks (lm_handle_commit now), on_queue (dq_handle_commit now), on_cache (mc_handle_commit now)]"

definition init_services ::
  "(string \<Rightarrow> nat) \<Rightarrow> string \<Rightarrow> string list \<Rightarrow> int \<Rightarrow> bool \<Rightarrow> int \<Rightarrow> rat \<Rightarrow> services" where
  "init_services h nid peer_nodes factor persistence limit ttl =
     \<lparr>sv_locks = init_lock_manager, sv_queue = init_queue h nid peer_nodes factor persistence,
      sv_cache = init_cache nid limit ttl\<rparr>"

text \<open>The node as one service sees it: the rest of the node on the left, its own state on the right.\<close>

definition lock_view :: "raft_node \<times> services \<Rightarrow> (raft_node \<times> distributed_queue \<times> moesi_cache) \<times> lock_manager" where
  "lock_view w = (case w of (n, s) \<Rightarrow> ((n, sv_queue s, sv_cache s), sv_locks s))"

definition lock_unview :: "(raft_node \<times> distributed_queue \<times> moesi_cache) \<times> lock_manager \<Rightarrow> raft_node \<times> services" where
  "lock_unview v = (case v of ((n, q, c), l) \<Rightarrow> (n, \<lparr>sv_locks = l, sv_queue = q, sv_cache = c\<rparr>))"

definition queue_view_of :: "raft_node \<times> services \<Rightarrow> (raft_node \<times> lock_manager \<times> moesi_cache) \<times> distributed_queue" where
  "queue_view_of w = (case w of (n, s) \<Rightarrow> ((n, sv_locks s, sv_cache s), sv_queue s))"

definition queue_unview :: "(raft_node \<times> lock_manager \<times> moesi_cache) \<times> distributed_queue \<Rightarrow> raft_node \<times> services" where
  "queue_unview v = (case v of ((n, l, c), q) \<Rightarrow> (n, \<lparr>sv_locks = l, sv_queue = q, sv_cache = c\<rparr>))"

definition cache_view :: "raft_node \<times> services \<Rightarrow> (raft_node \<times> lock_manager \<times> distributed_queue) \<times> moesi_cache" where
  "cache_view w = (case w of (n, s) \<Rightarrow> ((n, sv_locks s, sv_queue s), sv_cache s))"

definition cache_unview :: "(raft_node \<times> lock_manager \<times> distributed_queue) \<times> moesi_cache \<Rightarrow> raft_node \<times> services" where
  "cache_unview v = (case v of ((n, l, q), c) \<Rightarrow> (n, \<lparr>sv_locks = l, sv_queue = q, sv_cache = c\<rparr>))"

abbreviation node_append ::
  "(string \<Rightarrow> message \<Rightarrow> message option) \<Rightarrow> rat \<Rightarrow> string \<Rightarrow> jdict
     \<Rightarrow> raft_node \<times> services \<Rightarrow> bool result \<times> (raft_node \<times> services)" where
  "node_append send now \<equiv> append_entry (node_callbacks now) send now"

definition lock_append where
  "lock_append send now c d v = map_prod id lock_view (node_append send now c d (lock_unview v))"

definition queue_append where
  "queue_append send now c d v = map_prod id queue_view_of (node_append send now c d (queue_unview v))"

definition cache_append where
  "cache_append send now c d v = map_prod id cache_view (node_append send now c d (cache_unview v))"

lemma views [simp]:
  "lock_unview (lock_view w) = w" "lock_view (lock_unview v) = v"
  "queue_unview (queue_view_of w) = w" "queue_view_of (queue_unview v') = v'"
  "cache_unview (cache_view w) = w" "cache_view (cache_unview v'') = v''"
  by (simp_all add: lock_view_def lock_unview_def queue_view_of_def queue_unview_def cache_view_def
      cache_unview_def split: prod.split)

lemma views_snd [simp]:
  "snd (lock_view w) = sv_locks (snd w)" "snd (queue_view_of w) = sv_queue (snd w)"
  "snd (cache_view w) = sv_cache (snd w)"
  by (simp_all add: lock_view_def queue_view_of_def cache_view_def split: prod.split)

lemma unviews_snd [simp]:
  "sv_locks (snd (lock_unview v)) = snd v" "sv_queue (snd (queue_unview v')) = snd v'"
  "sv_cache (snd (cache_unview v'')) = snd v''"
  by (simp_all add: lock_unview_def queue_unview_def cache_unview_def split: prod.split)

section \<open>The services do not interfere\<close>

lemma other_commands:
  "le_command e \<noteq> ''LOCK_ACQUIRE'' \<Longrightarrow> le_command e \<noteq> ''LOCK_RELEASE'' \<Longrightarrow> lm_handle_commit now e l = (None, l)"
  "le_command e \<noteq> ''QUEUE_PUBLISH'' \<Longrightarrow> le_command e \<noteq> ''QUEUE_ACK'' \<Longrightarrow> dq_handle_commit now e q = (None, q)"
  "le_command e \<noteq> ''CACHE_PUT'' \<Longrightarrow> le_command e \<noteq> ''CACHE_INVALIDATE'' \<Longrightarrow> le_command e \<noteq> ''CACHE_INVALIDATE_ALL''
     \<Longrightarrow> mc_handle_commit now e c = (None, c)"
  by (simp_all add: lm_handle_commit_def dq_handle_commit_def mc_handle_commit_def)

lemma failed_commit:
  "lm_handle_commit now e l = (Some x, l') \<Longrightarrow> le_command e \<in> {''LOCK_ACQUIRE'', ''LOCK_RELEASE''}"
  "dq_handle_commit now e q = (Some x, q') \<Longrightarrow> le_command e \<in> {''QUEUE_PUBLISH'', ''QUEUE_ACK''}"
  using other_commands(1)[of e now l] other_commands(2)[of e now q] by auto

lemma run_node_callbacks:
  "snd (run_callbacks (node_callbacks now) e s) =
     s\<lparr>sv_locks := snd (lm_handle_commit now e (sv_locks s)),
       sv_queue := snd (dq_handle_commit now e (sv_queue s)),
       sv_cache := snd (mc_handle_commit now e (sv_cache s))\<rparr>"
proof -
  obtain xl l xq q xc c where r: "lm_handle_commit now e (sv_locks s) = (xl, l)"
    "dq_handle_commit now e (sv_queue s) = (xq, q)" "mc_handle_commit now e (sv_cache s) = (xc, c)"
    by (meson prod.exhaust)
  show ?thesis
  proof (cases xl)
    case (Some x)
    then have "le_command e \<in> {''LOCK_ACQUIRE'', ''LOCK_RELEASE''}" using failed_commit(1) r(1) by blast
    then have "q = sv_queue s" "c = sv_cache s" using r other_commands(2,3)[of e now] by auto
    then show ?thesis using r Some
      by (simp add: node_callbacks_def on_locks_def on_queue_def on_cache_def)
  next
    case None
    show ?thesis
    proof (cases xq)
      case (Some x)
      then have "le_command e \<in> {''QUEUE_PUBLISH'', ''QUEUE_ACK''}" using failed_commit(2) r(2) by blast
      then have "c = sv_cache s" using r other_commands(3)[of e now] by auto
      then show ?thesis using r None Some
        by (simp add: node_callbacks_def on_locks_def on_queue_def on_cache_def)
    next
      case xq: None
      show ?thesis using r None xq
        by (cases xc) (simp_all add: node_callbacks_def on_locks_def on_queue_def on_cache_def)
    qed
  qed
qed

text \<open>The commit of an entry acts on each service as if it were alone: the three callbacks in
  sequence give each service its own result, although the sequence stops at the first exception.\<close>

theorem services_independent:
  "snd (run_callbacks (node_callbacks now) e s) =
     s\<lparr>sv_locks := snd (lm_handle_commit now e (sv_locks s)),
       sv_queue := snd (dq_handle_commit now e (sv_queue s)),
       sv_cache := snd (mc_handle_commit now e (sv_cache s))\<rparr>"
  by (rule run_node_callbacks)

section \<open>Several callbacks as one\<close>

text \<open>The Raft node cannot tell a list of callbacks from the one callback that runs them in order, so
  what \<open>commit_listener\<close> says of one callback holds for the list.\<close>

lemma run_combined: "run_callbacks [run_callbacks cbs] e a = run_callbacks cbs e a"
  by (auto split: prod.split option.split)

lemma apply_combined: "apply_committed_entries [run_callbacks cbs] n a = apply_committed_entries cbs n a"
proof (induction cbs n a rule: apply_committed_entries.induct)
  case (1 cbs n a)
  show ?case
  proof (cases "last_applied n < commit_index n")
    case False
    then show ?thesis by (simp add: apply_committed_entries.simps)
  next
    case True
    let ?n = "n\<lparr>last_applied := last_applied n + 1\<rparr>"
    show ?thesis
      using "1.IH"[OF True refl]
      by (subst (1 2) apply_committed_entries.simps)
        (auto simp: True Let_def run_combined simp del: run_callbacks.simps split: sum.split prod.split option.split)
  qed
qed

lemma update_commit_combined: "update_commit_index [run_callbacks cbs] n a = update_commit_index cbs n a"
  unfolding update_commit_index_def apply_combined ..

lemma on_append_combined:
  "on_append_response [run_callbacks cbs] p i es r n a = on_append_response cbs p i es r n a"
  unfolding on_append_response_def update_commit_combined ..

lemma gather_combined: "gather_appends [run_callbacks cbs] send reqs n a = gather_appends cbs send reqs n a"
  by (induction cbs send reqs n a rule: gather_appends.induct) (simp_all add: on_append_combined split: prod.split)

lemma append_combined: "append_entry [run_callbacks cbs] send now c d w = append_entry cbs send now c d w"
  unfolding append_entry_def apply_combined send_append_entries_to_all_def gather_combined ..

lemma message_combined: "handle_message [run_callbacks cbs] now m n a = handle_message cbs now m n a"
  unfolding handle_message_def handle_append_entries_def accept_entries_def advance_commit_def apply_combined ..

lemma step_combined: "raft_step cbs w w' \<Longrightarrow> raft_step [run_callbacks cbs] w w'"
proof (induction rule: raft_step.induct)
  case (rs_response p i es r n a b n' a')
  then show ?case by (metis on_append_combined raft_step.rs_response)
next
  case (rs_message now m n a x n' a')
  then show ?case by (metis message_combined raft_step.rs_message)
next
  case (rs_client_single n send now c d a x w)
  then show ?case by (metis append_combined raft_step.rs_client_single)
qed (auto intro: raft_step.intros)

lemma run_combined_steps: "raft_run cbs w w' \<Longrightarrow> raft_run [run_callbacks cbs] w w'"
  by (induction rule: rtranclp_induct) (auto intro: rtranclp.rtrancl_into_rtrancl step_combined)

section \<open>The node keeps every service well formed\<close>

definition services_wf :: "(string \<Rightarrow> nat) \<Rightarrow> services \<Rightarrow> bool" where
  "services_wf h s \<longleftrightarrow> lm_wf (sv_locks s) \<and> dq_wf h (sv_queue s) \<and> blocks_in UNIV (sv_cache s)"

lemma services_commit_wf: "services_wf h s \<Longrightarrow> services_wf h (snd (run_callbacks (node_callbacks now) e s))"
  unfolding run_node_callbacks
  by (simp add: services_wf_def lm_table.cb_inv dq_table.cb_inv mc_table.cb_inv)

interpretation node_table: commit_listener "run_callbacks (node_callbacks now)" "services_wf h" for now h
  by unfold_locales (rule services_commit_wf)

lemma node_append_wf: "services_wf h (snd w) \<Longrightarrow> services_wf h (snd (snd (node_append send now c d w)))"
  using node_table.append_entry_inv[of h w now send now c d] by (simp add: append_combined)

interpretation node_locks: lock_service "lock_append send now" "\<lambda>v. services_wf h (snd (lock_unview v))" for send now h
  by unfold_locales
    (auto simp: lock_append_def node_append_wf, auto simp: lock_unview_def services_wf_def lm_wf_def)

interpretation node_queue: queue_host "queue_append send now" "\<lambda>v. services_wf h (snd (queue_unview v))" for send now h
  by unfold_locales
    (auto simp: queue_append_def node_append_wf, auto simp: queue_unview_def services_wf_def dq_any.note_inv[of h undefined, unfolded snd_conv] split: prod.splits)

interpretation node_cache: cache_host "cache_append send now" "\<lambda>v. services_wf h (snd (cache_unview v))" UNIV for send now h
  by unfold_locales
    (auto simp: cache_append_def node_append_wf, auto simp: cache_unview_def services_wf_def split: prod.splits)

text \<open>A node keeps all its services well formed together: through every run of the composed node,
  whatever the network and the peers do, and through the client operations of each service, run on
  the composed node while the other services share its log.\<close>

theorem node_well_formed:
  assumes "raft_run (node_callbacks now) (n, s) (n', s')" and "services_wf h s"
    and "\<And>k v. services_wf h (snd (lock_unview v)) \<Longrightarrow> services_wf h (snd (lock_unview (env k v)))"
  shows "services_wf h s'
    \<and> services_wf h (snd (lock_unview (snd (acquire_lock (lock_append send now) env clock start fuel res lt client lid
        timeout (lock_view (n', s'))))))
    \<and> services_wf h (snd (lock_unview (snd (release_lock (lock_append send now) lid (lock_view (n', s'))))))
    \<and> services_wf h (snd (queue_unview (snd (publish h (queue_append send now) mid topic payload (queue_view_of (n', s'))))))
    \<and> services_wf h (snd (queue_unview (snd (acknowledge (queue_append send now) mid consumer (queue_view_of (n', s'))))))
    \<and> services_wf h (snd (cache_unview (snd (cache_get (cache_append send now) t key (cache_view (n', s'))))))
    \<and> services_wf h (snd (cache_unview (snd (cache_put (cache_append send now) t key v ttl (cache_view (n', s'))))))"
proof -
  have wf: "services_wf h s'"
    using node_table.run_keeps_inv[OF run_combined_steps[OF assms(1)]] assms(2) by simp
  then have q: "services_wf h (snd (queue_unview (queue_view_of (n', s'))))" by simp
  have l: "services_wf h (snd (lock_unview (lock_view (n', s'))))"
    and c: "services_wf h (snd (cache_unview (cache_view (n', s'))))" using wf by simp_all
  show ?thesis
    by (intro conjI wf node_locks.acquire_lock_keeps assms(3) l node_locks.release_lock_keeps
        node_queue.publish_keeps[OF q] node_queue.acknowledge_keeps[OF q]
        node_cache.get_keeps c node_cache.put_keeps)
qed

definition sample_services :: services where
  "sample_services = init_services sample_hash ''a'' [] 2 True 10 60"

lemma init_services_wf: "services_wf h (init_services h nid ps f e limit ttl)"
  by (simp add: init_services_def services_wf_def init_queue_wf lm_wf_def
      init_lock_manager_def blocks_in_def init_cache_def)

lemma sample_services_wf: "services_wf sample_hash sample_services"
  by (simp add: sample_services_def init_services_wf)

theorem node_well_formed_witness:
  "services_wf sample_hash (snd (cache_unview (snd (cache_put (cache_append (\<lambda>p m. None) 0) 0 ''k'' (JInt 1) None
     (cache_view (single_leader, sample_services))))))"
  using node_well_formed[OF rtranclp.rtrancl_refl sample_services_wf, where env = "\<lambda>k v. v"] by blast

end
