(* ===== verification/Bonus_Security.thy ===== *)
theory Bonus_Security
  imports Py_Prelude "HOL-Library.Word"
begin

text \<open>
  \<^verbatim>\<open>src/bonus/features.py\<close>, class \<open>BonusSecurityService\<close>: API keys and roles, the XOR cipher with its
  base64 coding, and the audit log with its hash chain.

  A \<open>string\<close> that is encoded is the sequence of its UTF-8 bytes, so \<open>encode\<close> reads the bytes and \<open>decode\<close>
  checks them. \<open>digest\<close> and \<open>sha\<close> are SHA-256 (raw and hexadecimal), \<open>dumps\<close>, \<open>minify\<close> and \<open>loads\<close> the
  JSON text codec (\<open>None\<close> when \<open>loads\<close> raises). A line of the audit file is the JSON value written there.
\<close>

record audit_record =
  ar_timestamp :: string
  ar_action :: string
  ar_actor :: string
  ar_resource :: string
  ar_result :: string
  ar_details :: jdict

record security =
  sec_node_id :: string
  enable_encryption :: bool
  enable_audit :: bool
  auth_enabled :: bool
  encryption_secret :: "string option"
  has_log_path :: bool
  has_hash_path :: bool
  api_keys :: "(string, string) dict"
  audit_log :: "audit_record list"
  log_file :: "json list option"
  hash_file :: "string option"

section \<open>String methods\<close>

definition is_space :: "char \<Rightarrow> bool" where
  "is_space c \<longleftrightarrow> (let n = (of_char c :: nat) in 9 \<le> n \<and> n \<le> 13 \<or> 28 \<le> n \<and> n \<le> 32)"

definition py_strip :: "string \<Rightarrow> string" where
  "py_strip s = rev (dropWhile is_space (rev (dropWhile is_space s)))"

fun split_on :: "char \<Rightarrow> string \<Rightarrow> string list" where
  "split_on d [] = [[]]"
| "split_on d (c # cs) =
     (if c = d then [] # split_on d cs
      else (case split_on d cs of [] \<Rightarrow> [[c]] | p # ps \<Rightarrow> (c # p) # ps))"

text \<open>\<open>s.split(d, 1)\<close> for a string that contains \<open>d\<close>.\<close>

definition split_once :: "char \<Rightarrow> string \<Rightarrow> string \<times> string" where
  "split_once d s = (takeWhile (\<lambda>c. c \<noteq> d) s, tl (dropWhile (\<lambda>c. c \<noteq> d) s))"

section \<open>Keys and roles\<close>

definition parse_api_keys :: "string \<Rightarrow> (string, string) dict" where
  "parse_api_keys text =
     fold (\<lambda>pair parsed.
             if py_strip pair = [] \<or> CHR '':'' \<notin> set pair then parsed
             else (let (token, role) = split_once (CHR '':'') pair
                   in dict_set parsed (py_strip token) (py_strip role)))
       (split_on (CHR '','') text) []"

definition role_permissions :: "(string, string list) dict" where
  "role_permissions =
     [(''admin'', [''*'']),
      (''operator'', [''read'', ''write'', ''publish'', ''consume'', ''lock'', ''encrypt'', ''decrypt'', ''pbft:commit'']),
      (''viewer'', [''read'', ''status''])]"

definition authorize :: "string \<Rightarrow> string \<Rightarrow> bool" where
  "authorize role action =
     (let permissions = (case map_of role_permissions role of None \<Rightarrow> [] | Some ps \<Rightarrow> ps)
      in ''*'' \<in> set permissions \<or> action \<in> set permissions)"

text \<open>The returned dictionary holds the key and the role; here it is the pair.\<close>

definition enforce :: "security \<Rightarrow> string \<Rightarrow> string \<Rightarrow> (string \<times> string) result" where
  "enforce s api_key action =
     (if \<not> auth_enabled s then Inr (api_key, ''admin'')
      else (case map_of (api_keys s) api_key of
              None \<Rightarrow> Inl (PermissionError ''invalid_api_key'')
            | Some role \<Rightarrow>
                if role = [] then Inl (PermissionError ''invalid_api_key'')
                else if \<not> authorize role action then Inl (PermissionError ''insufficient_role'')
                else Inr (api_key, role)))"

definition init_security ::
  "string \<Rightarrow> bool \<Rightarrow> bool \<Rightarrow> bool \<Rightarrow> string \<Rightarrow> string option \<Rightarrow> bool \<Rightarrow> bool
     \<Rightarrow> json list option \<Rightarrow> string option \<Rightarrow> security" where
  "init_security nid encryption audit auth keys secret log_path hash_path lf hf =
     \<lparr>sec_node_id = nid, enable_encryption = encryption, enable_audit = audit, auth_enabled = auth,
      encryption_secret = secret, has_log_path = log_path, has_hash_path = hash_path,
      api_keys = parse_api_keys keys, audit_log = [], log_file = lf, hash_file = hf\<rparr>"

section \<open>Bytes\<close>

type_synonym byte = "8 word"

definition encode_utf8 :: "string \<Rightarrow> byte list" where
  "encode_utf8 s = map (\<lambda>c. word_of_nat (of_char c)) s"

definition continuation :: "nat \<Rightarrow> bool" where
  "continuation b \<longleftrightarrow> 128 \<le> b \<and> b < 192"

fun utf8_valid :: "nat list \<Rightarrow> bool" where
  "utf8_valid [] = True"
| "utf8_valid [b] = (b < 128)"
| "utf8_valid [b, c] = (if b < 128 then utf8_valid [c] else 194 \<le> b \<and> b < 224 \<and> continuation c)"
| "utf8_valid [b, c, d] =
     (if b < 128 then utf8_valid [c, d]
      else if b < 224 then 194 \<le> b \<and> continuation c \<and> utf8_valid [d]
      else b < 240 \<and> continuation c \<and> continuation d \<and> (b = 224 \<longrightarrow> 160 \<le> c) \<and> (b = 237 \<longrightarrow> c < 160))"
| "utf8_valid (b # c # d # e # bs) =
     (if b < 128 then utf8_valid (c # d # e # bs)
      else if b < 224 then 194 \<le> b \<and> continuation c \<and> utf8_valid (d # e # bs)
      else if b < 240 then continuation c \<and> continuation d \<and> (b = 224 \<longrightarrow> 160 \<le> c) \<and> (b = 237 \<longrightarrow> c < 160)
                           \<and> utf8_valid (e # bs)
      else b < 245 \<and> continuation c \<and> continuation d \<and> continuation e
           \<and> (b = 240 \<longrightarrow> 144 \<le> c) \<and> (b = 244 \<longrightarrow> c < 144) \<and> utf8_valid bs)"

definition decode_utf8 :: "byte list \<Rightarrow> string result" where
  "decode_utf8 bs = (if utf8_valid (map unat bs) then Inr (map (\<lambda>b. char_of (unat b)) bs)
                     else Inl (ValueError ''utf-8''))"

definition key_bytes :: "(string \<Rightarrow> byte list) \<Rightarrow> security \<Rightarrow> string option \<Rightarrow> byte list" where
  "key_bytes digest s key_material =
     digest (case key_material of
        Some (c # cs) \<Rightarrow> c # cs
      | _ \<Rightarrow> (case encryption_secret s of Some (c # cs) \<Rightarrow> c # cs | _ \<Rightarrow> sec_node_id s))"

definition xor_bytes :: "(string \<Rightarrow> byte list) \<Rightarrow> security \<Rightarrow> byte list \<Rightarrow> string option \<Rightarrow> byte list" where
  "xor_bytes digest s bs key_material =
     (let key = key_bytes digest s key_material
      in map (\<lambda>(i, b). xor b (key ! (i mod length key))) (enumerate 0 bs))"

section \<open>Base64\<close>

text \<open>\<open>base64.urlsafe_b64encode\<close> and \<open>base64.urlsafe_b64decode\<close>. The decoder translates the two URL-safe
  characters and then runs the non-strict scan of \<open>binascii\<close>: it skips foreign characters, ends at the
  padding that completes a quad, and fails on a quad left open.\<close>

definition b64_alphabet :: string where
  "b64_alphabet = ''ABCDEFGHIJKLMNOPQRSTUVWXYZabcdefghijklmnopqrstuvwxyz0123456789-_''"

definition b64_char :: "nat \<Rightarrow> char" where
  "b64_char n = b64_alphabet ! n"

definition b64_val :: "char \<Rightarrow> nat option" where
  "b64_val c = map_of (zip b64_alphabet [0..<64] @ [(CHR ''+'', 62), (CHR ''/'', 63)]) c"

fun b64_encode :: "nat list \<Rightarrow> string" where
  "b64_encode [] = []"
| "b64_encode [a] = [b64_char (a div 4), b64_char (a mod 4 * 16), CHR ''='', CHR ''='']"
| "b64_encode [a, b] =
     [b64_char (a div 4), b64_char (a mod 4 * 16 + b div 16), b64_char (b mod 16 * 4), CHR ''='']"
| "b64_encode (a # b # c # bs) =
     [b64_char (a div 4), b64_char (a mod 4 * 16 + b div 16), b64_char (b mod 16 * 4 + c div 64),
      b64_char (c mod 64)] @ b64_encode bs"

fun b64_decode :: "string \<Rightarrow> nat \<Rightarrow> nat \<Rightarrow> nat \<Rightarrow> nat list result" where
  "b64_decode [] quad left pads = (if quad = 0 then Inr [] else Inl (ValueError ''base64''))"
| "b64_decode (c # cs) quad left pads =
     (if c = CHR ''='' then
        (if quad \<ge> 2 \<and> quad + pads + 1 \<ge> 4 then Inr []
         else b64_decode cs quad left (if quad \<ge> 2 then pads + 1 else pads))
      else (case b64_val c of
          None \<Rightarrow> b64_decode cs quad left pads
        | Some v \<Rightarrow>
            if quad = 0 then b64_decode cs 1 v 0
            else if quad = 1 then map_sum id (Cons (left * 4 + v div 16)) (b64_decode cs 2 (v mod 16) 0)
            else if quad = 2 then map_sum id (Cons (left * 16 + v div 4)) (b64_decode cs 3 (v mod 4) 0)
            else map_sum id (Cons (left * 64 + v)) (b64_decode cs 0 0 0)))"

section \<open>Encryption\<close>

definition encrypt ::
  "(string \<Rightarrow> byte list) \<Rightarrow> (json \<Rightarrow> string) \<Rightarrow> (json \<Rightarrow> string) \<Rightarrow> security \<Rightarrow> json \<Rightarrow> string option \<Rightarrow> string" where
  "encrypt digest dumps minify s payload key_material =
     (if \<not> enable_encryption s then (case payload of JStr t \<Rightarrow> t | _ \<Rightarrow> dumps payload)
      else (let raw = (case payload of JStr t \<Rightarrow> t | _ \<Rightarrow> minify payload)
            in b64_encode (map unat (xor_bytes digest s (encode_utf8 raw) key_material))))"

definition decrypt ::
  "(string \<Rightarrow> byte list) \<Rightarrow> (string \<Rightarrow> json option) \<Rightarrow> security \<Rightarrow> string \<Rightarrow> string option \<Rightarrow> json result" where
  "decrypt digest loads s ciphertext key_material =
     (if \<not> enable_encryption s then Inr (case loads ciphertext of Some j \<Rightarrow> j | None \<Rightarrow> JStr ciphertext)
      else (case b64_decode ciphertext 0 0 0 of
              Inl x \<Rightarrow> Inl x
            | Inr bs \<Rightarrow>
                (case decode_utf8 (xor_bytes digest s (map word_of_nat bs) key_material) of
                   Inl x \<Rightarrow> Inl x
                 | Inr plaintext \<Rightarrow> Inr (case loads plaintext of Some j \<Rightarrow> j | None \<Rightarrow> JStr plaintext))))"

section \<open>The audit log\<close>

definition audit_json :: "audit_record \<Rightarrow> json" where
  "audit_json r = JObj [(''action'', JStr (ar_action r)), (''actor'', JStr (ar_actor r)),
     (''details'', JObj (ar_details r)), (''resource'', JStr (ar_resource r)),
     (''result'', JStr (ar_result r)), (''timestamp'', JStr (ar_timestamp r))]"

definition record_hash :: "(string \<Rightarrow> string) \<Rightarrow> (json \<Rightarrow> string) \<Rightarrow> audit_record \<Rightarrow> security \<Rightarrow> security" where
  "record_hash sha minify r s =
     (let previous = (if has_hash_path s then (case hash_file s of None \<Rightarrow> [] | Some t \<Rightarrow> py_strip t) else []);
          digest = sha (previous @ minify (audit_json r));
          s1 = (if has_log_path s
                then s\<lparr>log_file := Some ((case log_file s of None \<Rightarrow> [] | Some ls \<Rightarrow> ls) @ [audit_json r])\<rparr> else s)
      in if has_hash_path s1 then s1\<lparr>hash_file := Some digest\<rparr> else s1)"

definition record_audit :: "(string \<Rightarrow> string) \<Rightarrow> (json \<Rightarrow> string) \<Rightarrow> audit_record \<Rightarrow> security \<Rightarrow> security" where
  "record_audit sha minify r s =
     (if \<not> enable_audit s then s
      else record_hash sha minify r (s\<lparr>audit_log := audit_log s @ [r]\<rparr>))"

definition chain_hash :: "(string \<Rightarrow> string) \<Rightarrow> (json \<Rightarrow> string) \<Rightarrow> json list \<Rightarrow> string" where
  "chain_hash sha minify ls = fold (\<lambda>line previous. sha (previous @ minify line)) ls []"

definition verify_audit_chain :: "(string \<Rightarrow> string) \<Rightarrow> (json \<Rightarrow> string) \<Rightarrow> security \<Rightarrow> bool" where
  "verify_audit_chain sha minify s =
     (if \<not> has_log_path s \<or> \<not> has_hash_path s then True
      else (case (log_file s, hash_file s) of
              (Some ls, Some t) \<Rightarrow> chain_hash sha minify ls = py_strip t
            | _ \<Rightarrow> False))"

definition get_audit_log :: "security \<Rightarrow> json list" where
  "get_audit_log s = map audit_json (audit_log s)"

record security_stats =
  encryption_enabled :: bool
  audit_enabled :: bool
  audit_count :: nat

definition sec_get_stats :: "security \<Rightarrow> security_stats" where
  "sec_get_stats s = \<lparr>encryption_enabled = enable_encryption s, audit_enabled = enable_audit s,
     audit_count = length (audit_log s)\<rparr>"

section \<open>The cipher inverts itself\<close>

lemma b64_val_char: "n < 64 \<Longrightarrow> b64_val (b64_char n) = Some n"
proof -
  have "\<forall>n\<in>set [0..<64]. b64_val (b64_char n) = Some n" by code_simp
  then show "n < 64 \<Longrightarrow> b64_val (b64_char n) = Some n" by simp
qed

lemma b64_char_pad: "n < 64 \<Longrightarrow> b64_char n \<noteq> CHR ''=''"
proof -
  have "\<forall>n\<in>set [0..<64]. b64_char n \<noteq> CHR ''=''" by code_simp
  then show "n < 64 \<Longrightarrow> b64_char n \<noteq> CHR ''=''" by simp
qed

lemma sextet_bounds:
  assumes "a < 256" "b < 256"
  shows "a div 4 < (64::nat)" "a mod 4 * 16 < 64" "a mod 4 * 16 + b div 16 < 64" "a mod 16 * 4 < 64"
    "a mod 16 * 4 + b div 64 < (64::nat)" "a mod 64 < 64"
proof -
  have m: "a mod 4 < 4" "a mod 16 < 16" "a mod 64 < 64" by simp_all
  have d: "a div 4 < 64" "b div 16 < 16" "b div 64 < 4" using assms by (simp_all add: less_mult_imp_div_less)
  show "a div 4 < 64" "a mod 4 * 16 < 64" "a mod 4 * 16 + b div 16 < 64" "a mod 16 * 4 < 64"
    "a mod 16 * 4 + b div 64 < 64" "a mod 64 < 64" using m d by linarith+
qed

lemma sextet_join:
  assumes "b < 256"
  shows "b div 16 div 16 = 0" "b div 16 mod 16 = b div (16::nat)" "b div 64 div 4 = 0" "b div 64 mod 4 = b div (64::nat)"
proof -
  have "b div 16 < 16" "b div 64 < 4" using assms by (simp_all add: less_mult_imp_div_less)
  then show "b div 16 div 16 = 0" "b div 16 mod 16 = b div 16" "b div 64 div 4 = 0" "b div 64 mod 4 = b div 64"
    by simp_all
qed

lemma b64_roundtrip: "\<forall>b\<in>set bs. b < 256 \<Longrightarrow> b64_decode (b64_encode bs) 0 0 0 = Inr bs"
proof (induction bs rule: b64_encode.induct)
  case (2 a)
  then have "a div 4 < 64" "a mod 4 * 16 < 64" by simp_all
  then show ?case by (simp add: b64_val_char b64_char_pad)
next
  case (3 a b)
  then have "a < 256" "b < 256" by simp_all
  then have "a div 4 < 64" "a mod 4 * 16 + b div 16 < 64" "b mod 16 * 4 < 64"
    by (simp_all only: sextet_bounds)
  with sextet_join[OF \<open>b < 256\<close>] show ?case by (simp add: b64_val_char b64_char_pad)
next
  case (4 a b c bs)
  then have "a < 256" "b < 256" "c < 256" by simp_all
  then have "a div 4 < 64" "a mod 4 * 16 + b div 16 < 64" "b mod 16 * 4 + c div 64 < 64" "c mod 64 < 64"
    by (simp_all only: sextet_bounds)
  with sextet_join[OF \<open>b < 256\<close>] sextet_join[OF \<open>c < 256\<close>] show ?case
    using 4 by (simp add: b64_val_char b64_char_pad)
qed simp

lemma xor_bytes_self: "xor_bytes digest s (xor_bytes digest s bs k) k = bs"
  by (rule nth_equalityI) (simp_all add: xor_bytes_def Let_def nth_enumerate_eq xor.assoc)

lemma encode_decode: "utf8_valid (map of_char s) \<Longrightarrow> decode_utf8 (encode_utf8 s) = Inr s"
  by (simp add: decode_utf8_def encode_utf8_def comp_def unat_of_nat)

section \<open>Properties\<close>

text \<open>C26: Decrypting what was encrypted with the same key material gives back the text, parsed as JSON
  when it can be: a payload that is not a string comes back as the codec reads its own output, but a
  string that happens to be JSON text (a number, say) comes back as that value and not as the string.\<close>

theorem encrypt_decrypt_roundtrip:
  assumes "raw = (case payload of JStr t \<Rightarrow> t
     | _ \<Rightarrow> if enable_encryption s then minify payload else dumps payload)"
    and "utf8_valid (map of_char raw)"
  shows "decrypt digest loads s (encrypt digest dumps minify s payload k) k
       = Inr (case loads raw of Some j \<Rightarrow> j | None \<Rightarrow> JStr raw)"
proof (cases "enable_encryption s")
  case True
  have raw: "(case payload of JStr t \<Rightarrow> t | _ \<Rightarrow> minify payload) = raw"
    using True assms(1) by (simp split: json.split)
  have "unat b < 256" for b :: byte using unsigned_less[where ?'a = nat, of b] by simp
  then have "b64_decode (b64_encode (map unat bs)) 0 0 0 = Inr (map unat bs)" for bs :: "byte list"
    by (intro b64_roundtrip) auto
  then show ?thesis using True encode_decode[OF assms(2)]
    by (simp add: encrypt_def decrypt_def raw comp_def xor_bytes_self)
next
  case False
  have "(case payload of JStr t \<Rightarrow> t | _ \<Rightarrow> dumps payload) = raw"
    using False assms(1) by (simp split: json.split)
  then show ?thesis using False by (simp add: encrypt_def decrypt_def)
qed

definition sample_security :: security where
  "sample_security = init_security ''node_1'' True True True
     ''admin-key:admin, operator-key:operator,viewer-key:viewer,broken,:x'' (Some ''secret'') True True None None"

theorem encrypt_decrypt_roundtrip_witness:
  "decrypt (\<lambda>m. [90, 7]) (\<lambda>t. if t = ''42'' then Some (JInt 42) else None) sample_security
     (encrypt (\<lambda>m. [90, 7]) (\<lambda>j. []) (\<lambda>j. []) sample_security (JStr ''42'') None) None = Inr (JInt 42)"
  by (subst encrypt_decrypt_roundtrip[where raw = "''42''"]) (simp, code_simp, simp)

lemma sample_api_keys:
  "api_keys sample_security = [(''admin-key'', ''admin''), (''operator-key'', ''operator''),
     (''viewer-key'', ''viewer''), ([], ''x'')]"
  by code_simp

lemma authorize_iff:
  "authorize role action \<longleftrightarrow> role = ''admin''
     \<or> role = ''operator'' \<and> action \<in> {''read'', ''write'', ''publish'', ''consume'', ''lock'', ''encrypt'', ''decrypt'', ''pbft:commit''}
     \<or> role = ''viewer'' \<and> action \<in> {''read'', ''status''}"
  by (simp add: authorize_def role_permissions_def Let_def)

text \<open>When \<open>enforce\<close> lets a request through: with authentication off always, as an administrator; with
  it on exactly for a registered key whose role has the permission. Every other request is a
  \<open>PermissionError\<close>.\<close>

lemma enforce_iff:
  "enforce s key action = Inr (k, role) \<longleftrightarrow> k = key \<and>
     (if auth_enabled s then map_of (api_keys s) key = Some role \<and> authorize role action else role = ''admin'')"
  by (auto simp: enforce_def authorize_iff split: option.splits)

lemma enforce_refused:
  "(\<forall>p. enforce s key action \<noteq> Inr p) \<longleftrightarrow> (\<exists>m. enforce s key action = Inl (PermissionError m))"
  by (auto simp: enforce_def split: option.splits)

section \<open>The audit chain\<close>

lemma chain_hash_snoc: "chain_hash sha minify (ls @ [l]) = sha (chain_hash sha minify ls @ minify l)"
  by (simp add: chain_hash_def)

definition chain_fits :: "(string \<Rightarrow> string) \<Rightarrow> (json \<Rightarrow> string) \<Rightarrow> security \<Rightarrow> bool" where
  "chain_fits sha minify s \<longleftrightarrow> (log_file s = None \<and> hash_file s = None) \<or>
     (\<exists>ls t. log_file s = Some ls \<and> hash_file s = Some t \<and> chain_hash sha minify ls = py_strip t)"

lemma record_fits:
  assumes "\<forall>x. py_strip (sha x) = sha x" "has_log_path s" "has_hash_path s" "enable_audit s" "chain_fits sha minify s"
  shows "\<exists>ls t. log_file (record_audit sha minify r s) = Some ls \<and> hash_file (record_audit sha minify r s) = Some t
     \<and> chain_hash sha minify ls = py_strip t \<and> ls = (case log_file s of None \<Rightarrow> [] | Some l \<Rightarrow> l) @ [audit_json r]"
  using assms by (auto simp: chain_fits_def record_audit_def record_hash_def Let_def chain_hash_snoc)
    (auto simp: chain_hash_def)

lemma record_keeps [simp]:
  "has_log_path (record_audit sha minify r s) = has_log_path s"
  "has_hash_path (record_audit sha minify r s) = has_hash_path s"
  "enable_audit (record_audit sha minify r s) = enable_audit s"
  by (simp_all add: record_audit_def record_hash_def Let_def)

text \<open>C27: The audit chain verifies: with both files configured, after any non-empty sequence of
  recorded actions, starting from absent files or from files that verify (a restart), the check
  succeeds and the log file has grown by exactly the recorded actions in order.\<close>

theorem audit_chain_verifies:
  assumes "\<forall>x. py_strip (sha x) = sha x" and "has_log_path s" and "has_hash_path s" and "enable_audit s"
    and "chain_fits sha minify s" and "rs \<noteq> []"
  shows "verify_audit_chain sha minify (fold (record_audit sha minify) rs s)
    \<and> log_file (fold (record_audit sha minify) rs s)
        = Some ((case log_file s of None \<Rightarrow> [] | Some l \<Rightarrow> l) @ map audit_json rs)"
  using assms
proof (induction rs arbitrary: s)
  case (Cons r rs)
  obtain ls t where f: "log_file (record_audit sha minify r s) = Some ls" "hash_file (record_audit sha minify r s) = Some t"
    "chain_hash sha minify ls = py_strip t" "ls = (case log_file s of None \<Rightarrow> [] | Some l \<Rightarrow> l) @ [audit_json r]"
    using record_fits[OF Cons.prems(1-5)] by blast
  have fits: "chain_fits sha minify (record_audit sha minify r s)" using f by (simp add: chain_fits_def)
  show ?case
  proof (cases "rs = []")
    case True
    then show ?thesis using f Cons.prems by (simp add: verify_audit_chain_def)
  next
    case False
    then show ?thesis using Cons.IH[OF Cons.prems(1) _ _ _ fits] Cons.prems f by simp
  qed
qed simp

theorem audit_chain_verifies_witness:
  "verify_audit_chain (\<lambda>x. if even (length x) then ''a'' else ''b'') (\<lambda>j. ''{}'')
     (fold (record_audit (\<lambda>x. if even (length x) then ''a'' else ''b'') (\<lambda>j. ''{}''))
       [\<lparr>ar_timestamp = ''t'', ar_action = ''encrypt'', ar_actor = ''node_1'', ar_resource = ''payload'',
         ar_result = ''success'', ar_details = []\<rparr>] sample_security)"
proof -
  have "py_strip ''a'' = ''a''" "py_strip ''b'' = ''b''" by code_simp+
  then show ?thesis
    by (intro conjunct1[OF audit_chain_verifies])
      (simp_all add: sample_security_def init_security_def chain_fits_def)
qed

end
