(* ===== verification/Bonus_Routing.thy ===== *)
theory Bonus_Routing
  imports Bonus_Security
begin

text \<open>
  \<^verbatim>\<open>src/bonus/features.py\<close>: the PBFT request simulator, the geo router and the adaptive load balancer,
  with their properties. Request identifiers and timestamps are arguments; \<open>py_float\<close> is the parser
  \<open>float(...)\<close>; Python floats are exact rationals.
\<close>

section \<open>PBFT coordinator\<close>

record pbft_result =
  pr_request_id :: string
  pr_status :: string
  pr_quorum :: int
  pr_replicas :: nat
  pr_prepare_votes :: int
  pr_commit_votes :: int
  pr_committed_value :: json

record pbft =
  pb_node_id :: string
  replicas :: "string list"
  request_log :: "pbft_result list"

definition init_pbft :: "string \<Rightarrow> string list \<Rightarrow> pbft" where
  "init_pbft nid rs = \<lparr>pb_node_id = nid, replicas = (if nid \<in> set rs then rs else nid # rs), request_log = []\<rparr>"

definition fault_tolerance :: "pbft \<Rightarrow> int" where
  "fault_tolerance pb = max 1 ((int (length (replicas pb)) - 1) div 3)"

definition pbft_quorum :: "pbft \<Rightarrow> int" where
  "pbft_quorum pb = 2 * fault_tolerance pb + 1"

definition submit_request :: "string \<Rightarrow> json \<Rightarrow> int \<Rightarrow> pbft \<Rightarrow> pbft_result \<times> pbft" where
  "submit_request rid payload faulty_nodes pb =
     (let active = max 0 (int (length (replicas pb)) - max 0 faulty_nodes);
          r = \<lparr>pr_request_id = rid,
               pr_status = (if active \<ge> pbft_quorum pb \<and> active \<ge> pbft_quorum pb then ''committed'' else ''partial''),
               pr_quorum = pbft_quorum pb, pr_replicas = length (replicas pb), pr_prepare_votes = active,
               pr_commit_votes = active, pr_committed_value = payload\<rparr>
      in (r, pb\<lparr>request_log := request_log pb @ [r]\<rparr>))"

record pbft_stats =
  ps_replicas :: nat
  ps_fault_tolerance :: int
  ps_quorum :: int
  ps_requests :: nat
  ps_committed :: nat
  ps_recent :: "pbft_result list"

definition pbft_get_stats :: "pbft \<Rightarrow> pbft_stats" where
  "pbft_get_stats pb = \<lparr>ps_replicas = length (replicas pb), ps_fault_tolerance = fault_tolerance pb,
     ps_quorum = pbft_quorum pb, ps_requests = length (request_log pb),
     ps_committed = length (filter (\<lambda>r. pr_status r = ''committed'') (request_log pb)),
     ps_recent = py_drop (-5) (request_log pb)\<rparr>"

text \<open>C40: What the simulator commits: a request commits exactly when the replicas that are not faulty
  reach the quorum, so with three or fewer replicas any fault prevents it, and below three replicas
  nothing ever commits. Two quorums share more than \<open>f\<close> replicas (so at least one correct one) only for
  \<open>3f + 1\<close> replicas, or fewer than four: for 6 replicas the quorum is 3 and two quorums can be disjoint.\<close>

theorem pbft_commit_rule:
  "(pr_status (fst (submit_request rid payload k pb)) = ''committed''
      \<longleftrightarrow> pbft_quorum pb + max 0 k \<le> int (length (replicas pb)))
   \<and> (fault_tolerance pb < 2 * pbft_quorum pb - int (length (replicas pb))
      \<longleftrightarrow> length (replicas pb) mod 3 = 1 \<or> length (replicas pb) < 4)"
proof -
  let ?n = "int (length (replicas pb))"
  have q: "pbft_quorum pb \<ge> 3" by (simp add: pbft_quorum_def fault_tolerance_def)
  have "pr_status (fst (submit_request rid payload k pb)) = ''committed'' \<longleftrightarrow> max 0 (?n - max 0 k) \<ge> pbft_quorum pb"
    by (simp add: submit_request_def Let_def)
  also have "\<dots> \<longleftrightarrow> pbft_quorum pb + max 0 k \<le> ?n" using q by linarith
  finally have commit: "pr_status (fst (submit_request rid payload k pb)) = ''committed''
      \<longleftrightarrow> pbft_quorum pb + max 0 k \<le> ?n" .
  have "fault_tolerance pb < 2 * pbft_quorum pb - ?n \<longleftrightarrow> ?n < 3 * max 1 ((?n - 1) div 3) + 2"
    by (simp add: pbft_quorum_def fault_tolerance_def) linarith
  also have "\<dots> \<longleftrightarrow> ?n mod 3 = 1 \<or> ?n < 4" by presburger
  also have "\<dots> \<longleftrightarrow> length (replicas pb) mod 3 = 1 \<or> length (replicas pb) < 4" by presburger
  finally show ?thesis using commit by blast
qed

section \<open>Geo router\<close>

record geo_region =
  gr_name :: string
  base_latency_ms :: rat
  healthy :: bool

record geo_router =
  geo_node_id :: string
  local_region :: "string option"
  regions :: "geo_region list"
  replication_log :: "jdict list"

definition default_regions :: "geo_region list" where
  "default_regions = [\<lparr>gr_name = ''asia-southeast'', base_latency_ms = 22, healthy = True\<rparr>,
     \<lparr>gr_name = ''us-east'', base_latency_ms = 70, healthy = True\<rparr>,
     \<lparr>gr_name = ''eu-west'', base_latency_ms = 95, healthy = True\<rparr>]"

fun parse_regions :: "(string \<Rightarrow> rat result) \<Rightarrow> string list \<Rightarrow> geo_region list result" where
  "parse_regions py_float [] = Inr []"
| "parse_regions py_float (pair # pairs) =
     (if py_strip pair = [] \<or> CHR '':'' \<notin> set pair then parse_regions py_float pairs
      else (case split_once (CHR '':'') pair of (name, latency) \<Rightarrow>
        (case py_float (py_strip latency) of Inl x \<Rightarrow> Inl x
         | Inr l \<Rightarrow> map_sum id (Cons \<lparr>gr_name = py_strip name, base_latency_ms = l, healthy = True\<rparr>)
                      (parse_regions py_float pairs))))"

definition parse_region_map :: "(string \<Rightarrow> rat result) \<Rightarrow> string option \<Rightarrow> geo_region list result" where
  "parse_region_map py_float region_map =
     parse_regions py_float (split_on (CHR '','') (case region_map of None \<Rightarrow> [] | Some t \<Rightarrow> t))"

definition init_geo ::
  "(string \<Rightarrow> rat result) \<Rightarrow> string \<Rightarrow> geo_region list \<Rightarrow> string option \<Rightarrow> string option \<Rightarrow> geo_router result" where
  "init_geo py_float nid given loc region_map =
     map_sum id (\<lambda>rs. \<lparr>geo_node_id = nid, local_region = loc, regions = rs, replication_log = []\<rparr>)
       (if given \<noteq> [] then Inr given
        else map_sum id (\<lambda>rs. if rs \<noteq> [] then rs else default_regions) (parse_region_map py_float region_map))"

definition truthy_str :: "string option \<Rightarrow> string option" where
  "truthy_str s = (case s of Some (c # cs) \<Rightarrow> Some (c # cs) | _ \<Rightarrow> None)"

definition route :: "string option \<Rightarrow> string option \<Rightarrow> geo_router \<Rightarrow> geo_region result" where
  "route preferred client geo =
     (let healthy_regions = filter healthy (regions geo) in
      if healthy_regions = [] then Inl (ValueError ''No healthy regions available'')
      else (case (case truthy_str preferred of Some p \<Rightarrow> Some p | None \<Rightarrow> truthy_str client) of
              None \<Rightarrow> py_min base_latency_ms healthy_regions
            | Some p \<Rightarrow> (case find (\<lambda>r. gr_name r = p) healthy_regions of
                           Some r \<Rightarrow> Inr r
                         | None \<Rightarrow> py_min base_latency_ms healthy_regions)))"

definition replica_regions :: "geo_region \<Rightarrow> geo_router \<Rightarrow> geo_region list" where
  "replica_regions primary geo =
     sort_key base_latency_ms (filter (\<lambda>r. healthy r \<and> gr_name r \<noteq> gr_name primary) (regions geo))"

definition replicate ::
  "string \<Rightarrow> string \<Rightarrow> json \<Rightarrow> string option \<Rightarrow> geo_router \<Rightarrow> jdict result \<times> geo_router" where
  "replicate timestamp key v preferred geo =
     (case route preferred None geo of Inl x \<Rightarrow> (Inl x, geo)
      | Inr primary \<Rightarrow>
         (let r = [(''key'', JStr key), (''primary_region'', JStr (gr_name primary)),
                   (''replica_regions'', JArr (map (\<lambda>g. JStr (gr_name g)) (replica_regions primary geo))),
                   (''consistency_model'', JStr ''eventual''), (''payload'', v), (''timestamp'', JStr timestamp)]
          in (Inr r, geo\<lparr>replication_log := replication_log geo @ [r]\<rparr>)))"

record geo_stats =
  gs_regions :: nat
  gs_healthy :: nat
  gs_fastest :: "string option"
  gs_replications :: nat

definition geo_get_stats :: "geo_router \<Rightarrow> geo_stats" where
  "geo_get_stats geo = \<lparr>gs_regions = length (regions geo),
     gs_healthy = length (filter healthy (regions geo)),
     gs_fastest = (case route None None geo of Inr r \<Rightarrow> Some (gr_name r) | Inl x \<Rightarrow> None),
     gs_replications = length (replication_log geo)\<rparr>"

lemma route_cases:
  assumes "route p c geo = Inr r"
  shows "r \<in> set (regions geo) \<and> healthy r"
proof -
  have find_in: "find Q xs = Some y \<Longrightarrow> y \<in> set xs" for Q and xs :: "geo_region list" and y
    by (auto simp: find_Some_iff)
  have "r \<in> set (filter healthy (regions geo))"
    using assms py_min_in[of base_latency_ms "filter healthy (regions geo)" r]
      find_in[of _ "filter healthy (regions geo)" r]
    unfolding route_def Let_def by (auto split: if_splits option.splits)
  then show ?thesis by simp
qed

text \<open>C39: Routing and replication: a request is refused exactly when no region is healthy; otherwise the
  primary is a healthy region, the named one when a healthy region has that name and a fastest one
  when none is named; the replicas are the other healthy names in order of latency, without the primary.\<close>

theorem geo_routing:
  "case route p None geo of
     Inl x \<Rightarrow> \<not> (\<exists>r\<in>set (regions geo). healthy r)
   | Inr r \<Rightarrow> r \<in> set (regions geo) \<and> healthy r
       \<and> (case truthy_str p of
            None \<Rightarrow> \<not> (\<exists>g\<in>set (regions geo). healthy g \<and> base_latency_ms g < base_latency_ms r)
          | Some nm \<Rightarrow> (gr_name r = nm) = (\<exists>g\<in>set (regions geo). healthy g \<and> gr_name g = nm))
       \<and> sorted (map base_latency_ms (replica_regions r geo))
       \<and> set (replica_regions r geo) = {g \<in> set (regions geo). healthy g \<and> gr_name g \<noteq> gr_name r}"
proof (cases "route p None geo")
  case (Inl x)
  then have "filter healthy (regions geo) = []"
    using py_min_ok[of "filter healthy (regions geo)" base_latency_ms]
    by (auto simp: route_def Let_def split: if_splits option.splits)
  then show ?thesis using Inl by (auto simp: filter_empty_conv)
next
  case (Inr r)
  have "case truthy_str p of
            None \<Rightarrow> \<not> (\<exists>g\<in>set (regions geo). healthy g \<and> base_latency_ms g < base_latency_ms r)
          | Some nm \<Rightarrow> (gr_name r = nm) = (\<exists>g\<in>set (regions geo). healthy g \<and> gr_name g = nm)"
  proof (cases "truthy_str p")
    case None
    then have m: "py_min base_latency_ms (filter healthy (regions geo)) = Inr r"
      using Inr by (auto simp: route_def Let_def truthy_str_def split: if_splits)
    have "base_latency_ms r \<le> base_latency_ms g" if "g \<in> set (regions geo)" "healthy g" for g
      using py_min_le[OF m, of g] that by simp
    then show ?thesis using None by (fastforce simp: not_less)
  next
    case (Some nm)
    then show ?thesis using Inr route_cases[OF Inr]
      by (auto simp: route_def Let_def find_None_iff find_Some_iff split: if_splits option.splits)
  qed
  moreover have "sorted (map base_latency_ms (replica_regions r geo))" by (simp add: replica_regions_def)
  moreover have "set (replica_regions r geo) = {g \<in> set (regions geo). healthy g \<and> gr_name g \<noteq> gr_name r}"
    by (simp add: replica_regions_def)
  ultimately show ?thesis using Inr route_cases[OF Inr] by simp
qed

section \<open>Load balancer\<close>

record node_load =
  nl_load :: rat
  nl_latency :: rat
  nl_success :: rat

record balancer =
  lb_nodes :: "string list"
  lb_state :: "(string, node_load) dict"
  lb_history :: "(string \<times> string \<times> rat) list"

definition init_balancer :: "string list \<Rightarrow> balancer" where
  "init_balancer nodes = \<lparr>lb_nodes = nodes,
     lb_state = fold (\<lambda>n d. dict_set d n \<lparr>nl_load = 0, nl_latency = 50, nl_success = 1\<rparr>) nodes [],
     lb_history = []\<rparr>"

definition load_score :: "node_load \<Rightarrow> rat \<Rightarrow> rat" where
  "load_score st predicted_load =
     (nl_load st + predicted_load) * (45/100) + nl_latency st * (4/10) + (100 - nl_success st * 100) * (15/100)"

definition score :: "balancer \<Rightarrow> rat \<Rightarrow> string \<Rightarrow> rat" where
  "score lb w node = (case map_of (lb_state lb) node of None \<Rightarrow> 0 | Some st \<Rightarrow> load_score st w)"

text \<open>A candidate without a state makes \<open>_score\<close> raise \<open>KeyError\<close>.\<close>

definition best_node :: "balancer \<Rightarrow> rat \<Rightarrow> string list \<Rightarrow> string result" where
  "best_node lb w candidates =
     (case find (\<lambda>n. \<not> dict_has (lb_state lb) n) candidates of
        Some n \<Rightarrow> Inl (KeyError n) | None \<Rightarrow> py_min (score lb w) candidates)"

definition choose_node :: "string \<Rightarrow> rat \<Rightarrow> string list \<Rightarrow> balancer \<Rightarrow> string result \<times> balancer" where
  "choose_node timestamp workload exclude lb =
     (let candidates = filter (\<lambda>n. n \<notin> set exclude) (lb_nodes lb) in
      if candidates = [] then (Inl (ValueError ''No nodes available for selection''), lb)
      else (case best_node lb workload candidates of Inl x \<Rightarrow> (Inl x, lb)
        | Inr selected \<Rightarrow>
           (case map_of (lb_state lb) selected of None \<Rightarrow> (Inl (KeyError selected), lb)
            | Some st \<Rightarrow>
               (Inr selected, lb\<lparr>lb_state := dict_set (lb_state lb) selected (st\<lparr>nl_load := nl_load st + workload\<rparr>),
                                 lb_history := lb_history lb @ [(timestamp, selected, workload)]\<rparr>))))"

definition feedback :: "string \<Rightarrow> rat \<Rightarrow> bool \<Rightarrow> balancer \<Rightarrow> node_load \<times> balancer" where
  "feedback node latency_ms success lb =
     (let sample = (if success then 1 else 0);
          st = (case map_of (lb_state lb) node of Some st \<Rightarrow> st
                | None \<Rightarrow> \<lparr>nl_load = 0, nl_latency = latency_ms, nl_success = sample\<rparr>);
          st' = \<lparr>nl_load = max 0 (nl_load st - 1),
                 nl_latency = nl_latency st * (1 - 3/10) + latency_ms * (3/10),
                 nl_success = nl_success st * (1 - 3/10) + sample * (3/10)\<rparr>
      in (st', lb\<lparr>lb_state := dict_set (lb_state lb) node st'\<rparr>))"

record balancer_stats =
  bs_nodes :: nat
  bs_history :: nat
  bs_best :: "string option"
  bs_states :: "(string, node_load) dict"

definition lb_get_stats :: "balancer \<Rightarrow> balancer_stats result" where
  "lb_get_stats lb =
     map_sum id (\<lambda>b. \<lparr>bs_nodes = length (lb_nodes lb), bs_history = length (lb_history lb), bs_best = b,
                      bs_states = lb_state lb\<rparr>)
       (if lb_nodes lb = [] then Inr None else map_sum id Some (best_node lb 0 (lb_nodes lb)))"

text \<open>With \<open>nonneg\<close>, loads and latencies are not negative; nothing in the program checks what clients send.\<close>

definition load_ok :: "bool \<Rightarrow> node_load \<Rightarrow> bool" where
  "load_ok nonneg st \<longleftrightarrow> (nonneg \<longrightarrow> 0 \<le> nl_load st \<and> 0 \<le> nl_latency st) \<and> 0 \<le> nl_success st \<and> nl_success st \<le> 1"

definition balancer_ok :: "bool \<Rightarrow> balancer \<Rightarrow> bool" where
  "balancer_ok nonneg lb \<longleftrightarrow> (\<forall>n st. map_of (lb_state lb) n = Some st \<longrightarrow> load_ok nonneg st)
     \<and> (\<forall>n\<in>set (lb_nodes lb). dict_has (lb_state lb) n)"

text \<open>What clients do to a balancer: with \<open>nonneg\<close> only with workloads and latencies that are not negative, without
  it with any.\<close>

inductive balancer_step :: "bool \<Rightarrow> balancer \<Rightarrow> balancer \<Rightarrow> bool" for nonneg where
  choose: "(nonneg \<longrightarrow> 0 \<le> w) \<Longrightarrow> balancer_step nonneg lb (snd (choose_node t w ex lb))"
| feed_back: "(nonneg \<longrightarrow> 0 \<le> l) \<Longrightarrow> balancer_step nonneg lb (snd (feedback n l b lb))"

inductive_cases balancer_stepE: "balancer_step nonneg lb lb'"

lemma init_balancer_ok: "balancer_ok nn (init_balancer nodes)"
proof -
  let ?st = "\<lparr>nl_load = 0, nl_latency = 50, nl_success = 1\<rparr>"
  have "map_of (fold (\<lambda>n d. dict_set d n ?st) ns d) k = (if k \<in> set ns then Some ?st else map_of d k)" for ns d k
    by (induction ns arbitrary: d) (auto simp: update_conv')
  from this[of nodes "[]"] have "map_of (lb_state (init_balancer nodes)) k = (if k \<in> set nodes then Some ?st else None)" for k
    by (simp only: init_balancer_def balancer.select_convs map_of.simps)
  then show ?thesis by (auto simp: balancer_ok_def load_ok_def dict_has_def) (simp add: init_balancer_def)
qed

lemma best_node_ok:
  assumes "balancer_ok nn lb" "set cs \<subseteq> set (lb_nodes lb)" "cs \<noteq> []"
  shows "\<exists>n. best_node lb w cs = Inr n \<and> n \<in> set cs \<and> (\<forall>m\<in>set cs. score lb w n \<le> score lb w m)
     \<and> (\<exists>st. map_of (lb_state lb) n = Some st \<and> load_ok nn st)"
proof -
  have "find (\<lambda>n. \<not> dict_has (lb_state lb) n) cs = None"
    using assms(1,2) by (auto simp: find_None_iff balancer_ok_def)
  moreover obtain n where n: "py_min (score lb w) cs = Inr n" using py_min_ok[OF assms(3)] by blast
  moreover have "n \<in> set cs" by (rule py_min_in[OF n])
  moreover from this have "dict_has (lb_state lb) n" using assms(1,2) by (auto simp: balancer_ok_def)
  then obtain st where "map_of (lb_state lb) n = Some st" by (auto simp: dict_has_def)
  moreover from this have "load_ok nn st" using assms(1) by (simp add: balancer_ok_def)
  ultimately show ?thesis using py_min_le[OF n] by (simp add: best_node_def)
qed

lemma choose_step_ok:
  assumes "balancer_ok nn lb" "nn \<longrightarrow> 0 \<le> w"
  shows "balancer_ok nn (snd (choose_node t w ex lb))"
proof (cases "filter (\<lambda>n. n \<notin> set ex) (lb_nodes lb) = []")
  case True
  then show ?thesis using assms(1) by (simp add: choose_node_def)
next
  case False
  obtain n st where n: "best_node lb w (filter (\<lambda>n. n \<notin> set ex) (lb_nodes lb)) = Inr n"
    "map_of (lb_state lb) n = Some st" "load_ok nn st"
    using best_node_ok[OF assms(1) _ False, of w] by auto
  then have "load_ok nn (st\<lparr>nl_load := nl_load st + w\<rparr>)" using assms(2) by (simp add: load_ok_def)
  then show ?thesis using False n assms(1)
    by (auto simp: choose_node_def Let_def balancer_ok_def update_conv' dict_has_set)
qed

lemma feedback_load_ok:
  assumes "load_ok nn st" "nn \<longrightarrow> 0 \<le> l" "s \<in> {0, 1}"
  shows "load_ok nn \<lparr>nl_load = max 0 (nl_load st - 1), nl_latency = nl_latency st * (1 - 3/10) + l * (3/10),
     nl_success = nl_success st * (1 - 3/10) + s * (3/10)\<rparr>"
  using assms by (auto simp: load_ok_def)

lemma feedback_step_ok:
  assumes "balancer_ok nn lb" "nn \<longrightarrow> 0 \<le> l"
  shows "balancer_ok nn (snd (feedback n l b lb))"
proof -
  let ?s = "if b then 1 else 0 :: rat"
  define st where "st = (case map_of (lb_state lb) n of Some st \<Rightarrow> st
      | None \<Rightarrow> \<lparr>nl_load = 0, nl_latency = l, nl_success = ?s\<rparr>)"
  have "load_ok nn st" using assms by (auto simp: st_def balancer_ok_def load_ok_def split: option.split)
  from feedback_load_ok[OF this assms(2), of ?s] show ?thesis using assms(1)
    by (auto simp: feedback_def Let_def st_def[symmetric] balancer_ok_def update_conv' dict_has_set)
qed

lemma balancer_run_ok: "(balancer_step nn)\<^sup>*\<^sup>* lb lb' \<Longrightarrow> balancer_ok nn lb \<Longrightarrow> balancer_ok nn lb'"
  by (induction rule: rtranclp_induct) (auto elim!: balancer_stepE intro: choose_step_ok feedback_step_ok)

lemma step_keeps_nodes: "balancer_step nn lb lb' \<Longrightarrow> lb_nodes lb' = lb_nodes lb"
  by (auto elim!: balancer_stepE simp: choose_node_def feedback_def Let_def split: if_splits sum.splits option.splits)

lemma run_keeps_nodes: "(balancer_step nn)\<^sup>*\<^sup>* lb lb' \<Longrightarrow> lb_nodes lb' = lb_nodes lb"
  by (induction rule: rtranclp_induct) (auto dest: step_keeps_nodes)

lemma init_balancer_nodes: "lb_nodes (init_balancer nodes) = nodes"
  by (simp add: init_balancer_def)

text \<open>A negative workload is accepted: the load of the node becomes negative and it attracts all further requests.\<close>

lemma negative_workload_accepted:
  "let lb = snd (choose_node ''t'' (- 50) [] (init_balancer [''a'', ''b'']))
   in map_option nl_load (map_of (lb_state lb) ''a'') = Some (- 50) \<and> fst (choose_node ''t'' 1 [] lb) = Inr ''a''"
  by code_simp

text \<open>C38: After any sequence of choices and feedback from a fresh balancer, every success rate is between 0 and
  1; every load and latency is non-negative if all workloads and latencies sent were (\<open>nonneg\<close>). \<open>choose_node\<close>
  fails only when all nodes are excluded; otherwise it picks a node that is not excluded with the least
  score and adds the workload to exactly that node, whatever was sent before.\<close>

theorem balancer_correct:
  assumes "(balancer_step nonneg)\<^sup>*\<^sup>* (init_balancer nodes) lb"
  shows "(\<forall>n st. map_of (lb_state lb) n = Some st \<longrightarrow> 0 \<le> nl_success st \<and> nl_success st \<le> 1
        \<and> (nonneg \<longrightarrow> 0 \<le> nl_load st \<and> 0 \<le> nl_latency st)) \<and>
     (case choose_node t w ex lb of
        (Inl x, lb') \<Rightarrow> set nodes \<subseteq> set ex \<and> lb' = lb
      | (Inr n, lb') \<Rightarrow> n \<in> set nodes - set ex \<and> (\<forall>m\<in>set nodes - set ex. score lb w n \<le> score lb w m)
          \<and> (\<exists>st. map_of (lb_state lb) n = Some st
               \<and> lb_state lb' = dict_set (lb_state lb) n (st\<lparr>nl_load := nl_load st + w\<rparr>)))"
proof (rule conjI)
  have ok: "balancer_ok nonneg lb" by (rule balancer_run_ok[OF assms init_balancer_ok])
  then show "\<forall>n st. map_of (lb_state lb) n = Some st \<longrightarrow> 0 \<le> nl_success st \<and> nl_success st \<le> 1
        \<and> (nonneg \<longrightarrow> 0 \<le> nl_load st \<and> 0 \<le> nl_latency st)"
    by (auto simp: balancer_ok_def load_ok_def)
  have nodes: "lb_nodes lb = nodes" using run_keeps_nodes[OF assms] by (simp add: init_balancer_nodes)
  show "case choose_node t w ex lb of
        (Inl x, lb') \<Rightarrow> set nodes \<subseteq> set ex \<and> lb' = lb
      | (Inr n, lb') \<Rightarrow> n \<in> set nodes - set ex \<and> (\<forall>m\<in>set nodes - set ex. score lb w n \<le> score lb w m)
          \<and> (\<exists>st. map_of (lb_state lb) n = Some st
               \<and> lb_state lb' = dict_set (lb_state lb) n (st\<lparr>nl_load := nl_load st + w\<rparr>))"
  proof (cases "filter (\<lambda>n. n \<notin> set ex) (lb_nodes lb) = []")
    case True
    then show ?thesis using nodes by (auto simp: choose_node_def filter_empty_conv)
  next
    case False
    from best_node_ok[OF ok _ this, of w] show ?thesis using False nodes
      by (auto simp: choose_node_def Let_def)
  qed
qed

theorem balancer_correct_witness:
  "\<exists>st. map_of (lb_state (snd (feedback ''b'' 20 False (snd (choose_node ''t'' 1 [''a''] (init_balancer [''a'', ''b'']))))))
     ''b'' = Some st \<and> 0 \<le> nl_load st \<and> 0 \<le> nl_latency st"
proof -
  let ?l1 = "snd (choose_node ''t'' 1 [''a''] (init_balancer [''a'', ''b'']))"
  have "balancer_step True (init_balancer [''a'', ''b'']) ?l1" by (rule choose) simp
  moreover have "balancer_step True ?l1 (snd (feedback ''b'' 20 False ?l1))" by (rule feed_back) simp
  ultimately have "(balancer_step True)\<^sup>*\<^sup>* (init_balancer [''a'', ''b'']) (snd (feedback ''b'' 20 False ?l1))" by simp
  moreover obtain st where "map_of (lb_state (snd (feedback ''b'' 20 False ?l1))) ''b'' = Some st"
    by (simp add: feedback_def Let_def update_conv')
  ultimately show ?thesis using balancer_correct by blast
qed

end
