(* ===== verification/App_Http.thy ===== *)
theory App_Http
  imports App_Services Bonus_Routing
begin

text \<open>
  \<^verbatim>\<open>src/app.py\<close>, the HTTP interface of a node: the authentication middleware and the request handlers
  as functions from the decoded JSON body to a response. \<open>Failure 500 x\<close> is the JSON error response
  made from the exception \<open>x\<close>; the framework (aiohttp) is outside, and so is the parsing of the body.
  A handler without a \<open>try\<close> passes its exception to the framework, which answers 500 as well:
  \<open>Unhandled x\<close>. \<open>Unrouted\<close> is its answer when no route matches. A field whose JSON value has another type than the operation it is passed to declares
  is a \<open>TypeError\<close> here; Python would pass it on.
\<close>

datatype response = Response int jdict | Failure int exn | Unhandled exn | Unrouted

definition field :: "jdict \<Rightarrow> string \<Rightarrow> json" where
  "field data k = (case map_of data k of None \<Rightarrow> JNull | Some v \<Rightarrow> v)"

definition field_or :: "jdict \<Rightarrow> string \<Rightarrow> json \<Rightarrow> json" where
  "field_or data k dflt = (case map_of data k of None \<Rightarrow> dflt | Some v \<Rightarrow> v)"

definition error_response :: "int \<Rightarrow> string \<Rightarrow> response" where
  "error_response status msg = Response status [(''error'', JStr msg)]"

definition json_opt :: "string option \<Rightarrow> json" where
  "json_opt s = (case s of None \<Rightarrow> JNull | Some t \<Rightarrow> JStr t)"

definition opt_str :: "json \<Rightarrow> string option result" where
  "opt_str j = (case j of JNull \<Rightarrow> Inr None | JStr s \<Rightarrow> Inr (Some s) | _ \<Rightarrow> Inl (TypeError ''str''))"

text \<open>\<open>int(v)\<close> and \<open>float(v)\<close> of a JSON value; \<open>py_int\<close> and \<open>py_float\<close> parse strings.\<close>

definition int_of :: "(string \<Rightarrow> int result) \<Rightarrow> json \<Rightarrow> int result" where
  "int_of py_int j =
     (case j of JInt i \<Rightarrow> Inr i | JBool b \<Rightarrow> Inr (if b then 1 else 0)
      | JFloat r \<Rightarrow> Inr (if r < 0 then \<lceil>r\<rceil> else \<lfloor>r\<rfloor>) | JStr s \<Rightarrow> py_int s
      | _ \<Rightarrow> Inl (TypeError ''int''))"

definition float_of :: "(string \<Rightarrow> rat result) \<Rightarrow> json \<Rightarrow> rat result" where
  "float_of py_float j =
     (case j of JInt i \<Rightarrow> Inr (of_int i) | JBool b \<Rightarrow> Inr (if b then 1 else 0)
      | JFloat r \<Rightarrow> Inr r | JStr s \<Rightarrow> py_float s | _ \<Rightarrow> Inl (TypeError ''float''))"

section \<open>The middleware\<close>

definition protected_paths :: "string list" where
  "protected_paths = [''/security/'', ''/bonus/pbft/'', ''/bonus/geo/'', ''/bonus/load-balance/'']"

definition is_protected :: "string \<Rightarrow> bool" where
  "is_protected path \<longleftrightarrow> (\<exists>p\<in>set protected_paths. take (length p) path = p)"

text \<open>\<open>None\<close> lets the request through to its handler; \<open>key\<close> is the header \<open>X-API-Key\<close>.\<close>

definition auth_middleware :: "security \<Rightarrow> string \<Rightarrow> string option \<Rightarrow> response option" where
  "auth_middleware sec path key =
     (if is_protected path \<and> auth_enabled sec then
        (case key of
           None \<Rightarrow> Some (error_response 401 ''missing_api_key'')
         | Some k \<Rightarrow>
             if k = [] then Some (error_response 401 ''missing_api_key'')
             else (case enforce sec k ''read'' of
                     Inl x \<Rightarrow> Some (Failure 403 x) | Inr info \<Rightarrow> None))
      else None)"

section \<open>Lock handlers\<close>

definition handle_lock_acquire where
  "handle_lock_acquire raft_append env clock start fuel lid data w =
     (let resource = field data ''resource''; client = field data ''client_id'';
          lt_json = field_or data ''lock_type'' (JStr ''exclusive'') in
      if \<not> truthy resource \<or> \<not> truthy client then (Some (error_response 400 ''Missing required fields''), w)
      else (case as_str lt_json of Inl x \<Rightarrow> (Some (Failure 500 (ValueError ''LockType'')), w) | Inr ts \<Rightarrow>
        (case lock_type_of ts of Inl x \<Rightarrow> (Some (Failure 500 x), w) | Inr lt \<Rightarrow>
        (case (as_str resource, as_str client, as_num (field_or data ''timeout'' (JInt 30))) of
           (Inr res, Inr c, Inr timeout) \<Rightarrow>
             (case acquire_lock raft_append env clock start fuel res lt c lid timeout w of
                (None, w1) \<Rightarrow> (None, w1)
              | (Some (Some l), w1) \<Rightarrow>
                  (Some (if l \<noteq> [] then Response 200 [(''lock_id'', JStr l), (''resource'', JStr res),
                                          (''lock_type'', JStr ts), (''status'', JStr ''acquired'')]
                         else error_response 500 ''Failed to acquire lock''), w1)
              | (Some None, w1) \<Rightarrow> (Some (error_response 500 ''Failed to acquire lock''), w1))
         | _ \<Rightarrow> (Some (Failure 500 (TypeError ''body'')), w)))))"

definition handle_lock_release where
  "handle_lock_release raft_append data w =
     (let lid = field data ''lock_id'' in
      if \<not> truthy lid then (error_response 400 ''Missing lock_id'', w)
      else (case as_str lid of Inl x \<Rightarrow> (Failure 500 x, w) | Inr l \<Rightarrow>
        (case release_lock raft_append l w of
           (Inl x, w1) \<Rightarrow> (Failure 500 x, w1)
         | (Inr ok, w1) \<Rightarrow>
             (Response 200 [(''lock_id'', lid), (''status'', JStr (if ok then ''released'' else ''failed''))], w1))))"

definition handle_lock_status :: "(rat \<Rightarrow> string) \<Rightarrow> string \<Rightarrow> lock_manager \<Rightarrow> response" where
  "handle_lock_status isoformat resource lm =
     Response 200 [(''resource'', JStr resource),
       (''locks'', JArr (map (\<lambda>l. JObj [(''lock_id'', JStr (lk_lock_id l)), (''owner'', JStr (lk_owner l)),
           (''lock_type'', JStr (lock_type_value (lk_lock_type l))),
           (''acquired_at'', JStr (isoformat (lk_acquired_at l)))])
         (get_locks_for_resource resource lm)))]"

section \<open>Queue handlers\<close>

definition handle_queue_publish where
  "handle_queue_publish h raft_append mid data w =
     (let topic = field data ''topic'' in
      if \<not> truthy topic then (error_response 400 ''Missing topic'', w)
      else (case as_str topic of Inl x \<Rightarrow> (Failure 500 x, w) | Inr t \<Rightarrow>
        (case publish h raft_append mid t (field data ''payload'') w of
           (Inl x, w1) \<Rightarrow> (Failure 500 x, w1)
         | (Inr (Some i), w1) \<Rightarrow>
             (if i \<noteq> [] then Response 200 [(''msg_id'', JStr i), (''topic'', topic), (''status'', JStr ''published'')]
              else error_response 500 ''Failed to publish message'', w1)
         | (Inr None, w1) \<Rightarrow> (error_response 500 ''Failed to publish message'', w1))))"

text \<open>The batch size of a request; null slices to the end, which takes every waiting message.\<close>

definition batch_of :: "(string \<Rightarrow> nat) \<Rightarrow> string \<Rightarrow> distributed_queue \<Rightarrow> json \<Rightarrow> int result" where
  "batch_of h topic q j = (if j = JNull then Inr (int (get_queue_depth h topic q)) else as_int j)"

definition handle_queue_consume :: "(string \<Rightarrow> nat) \<Rightarrow> jdict \<Rightarrow> distributed_queue \<Rightarrow> response \<times> distributed_queue" where
  "handle_queue_consume h data q =
     (let topic = field data ''topic''; consumer = field data ''consumer_id'' in
      if \<not> truthy topic \<or> \<not> truthy consumer then (error_response 400 ''Missing required fields'', q)
      else (case as_str topic of Inl x \<Rightarrow> (Failure 500 x, q)
            | Inr t \<Rightarrow>
                (case batch_of h t q (field_or data ''batch_size'' (JInt 1)) of Inl x \<Rightarrow> (Failure 500 x, q)
                 | Inr b \<Rightarrow>
                     (case consume h t b q of (msgs, q1) \<Rightarrow>
                        (Response 200 [(''topic'', topic), (''consumer_id'', consumer),
                           (''messages'', JArr (map (\<lambda>m. JObj [(''msg_id'', JStr (qm_msg_id m)), (''payload'', qm_payload m),
                               (''delivery_count'', JInt (qm_delivery_count m))]) msgs))], q1)))))"

definition handle_queue_ack where
  "handle_queue_ack raft_append data w =
     (let mid = field data ''msg_id''; consumer = field data ''consumer_id'' in
      if \<not> truthy mid \<or> \<not> truthy consumer then (error_response 400 ''Missing required fields'', w)
      else (case (as_str mid, as_str consumer) of
              (Inr m, Inr c) \<Rightarrow>
                (case acknowledge raft_append m c w of
                   (Inl x, w1) \<Rightarrow> (Failure 500 x, w1)
                 | (Inr ok, w1) \<Rightarrow>
                     (Response 200 [(''msg_id'', mid), (''status'', JStr (if ok then ''acked'' else ''failed''))], w1))
            | _ \<Rightarrow> (Failure 500 (TypeError ''body''), w)))"

section \<open>Cache handlers\<close>

definition handle_cache_get where
  "handle_cache_get raft_append now key w =
     (case cache_get raft_append now key w of
        (Inl x, w1) \<Rightarrow> (Unhandled x, w1)
      | (Inr v, w1) \<Rightarrow>
          (if v = JNull then error_response 404 ''Key not found''
           else Response 200 [(''key'', JStr key), (''value'', v)], w1))"

definition handle_cache_put where
  "handle_cache_put raft_append now data w =
     (let key = field data ''key''; ttl = field data ''ttl'' in
      if \<not> truthy key then (error_response 400 ''Missing key'', w)
      else (case (as_str key, if ttl = JNull then Inr None else map_sum id Some (as_num ttl)) of
              (Inr k, Inr t) \<Rightarrow>
                (case cache_put raft_append now k (field data ''value'') t w of
                   (Inl x, w1) \<Rightarrow> (Failure 500 x, w1)
                 | (Inr ok, w1) \<Rightarrow>
                     (Response 200 [(''key'', key), (''status'', JStr (if ok then ''cached'' else ''failed''))], w1))
            | _ \<Rightarrow> (Failure 500 (TypeError ''body''), w)))"

definition handle_cache_invalidate :: "string \<Rightarrow> string \<Rightarrow> moesi_cache \<Rightarrow> response \<times> moesi_cache" where
  "handle_cache_invalidate nid key mc =
     (Response 200 [(''key'', JStr key), (''status'', JStr ''invalidated'')], handle_invalidation key nid mc)"

section \<open>Raft handlers\<close>

definition handle_readyz :: "raft_node \<Rightarrow> response" where
  "handle_readyz n = Response 200 [(''ready'', JBool (is_leader n)), (''node_id'', JStr (node_id n)),
     (''is_leader'', JBool (is_leader n))]"

definition handle_health :: "string \<Rightarrow> raft_node \<Rightarrow> response" where
  "handle_health timestamp n = Response 200 [(''status'', JStr ''healthy''), (''node_id'', JStr (node_id n)),
     (''timestamp'', JStr timestamp)]"

definition handle_status :: "string \<Rightarrow> raft_node \<Rightarrow> response" where
  "handle_status timestamp n = Response 200 [(''node_id'', JStr (node_id n)),
     (''raft_state'', JStr (node_state_value (raft_state n))), (''raft_term'', JInt (current_term n)),
     (''leader'', json_opt (leader_id n)), (''log_size'', JInt (int (length (raft_log n)))),
     (''timestamp'', JStr timestamp)]"

definition handle_raft_info :: "raft_node \<Rightarrow> response" where
  "handle_raft_info n = Response 200 [(''node_id'', JStr (node_id n)), (''current_term'', JInt (current_term n)),
     (''state'', JStr (node_state_value (raft_state n))), (''leader_id'', json_opt (leader_id n)),
     (''log_size'', JInt (int (length (raft_log n)))), (''commit_index'', JInt (commit_index n)),
     (''last_applied'', JInt (last_applied n)), (''voted_for'', json_opt (voted_for n)),
     (''peers'', JArr (map JStr (peers n)))]"

definition handle_raft_message ::
  "(rat \<Rightarrow> string) \<Rightarrow> (string \<Rightarrow> rat result) \<Rightarrow> 'a callback list \<Rightarrow> rat \<Rightarrow> jdict
     \<Rightarrow> raft_node \<times> 'a \<Rightarrow> response \<times> (raft_node \<times> 'a)" where
  "handle_raft_message isoformat fromisoformat cbs now data w =
     (case message_from_dict fromisoformat now data of Inl x \<Rightarrow> (Failure 500 x, w)
      | Inr m \<Rightarrow>
         (case handle_message cbs now m (fst w) (snd w) of
            (Inl x, w1) \<Rightarrow> (Failure 500 x, w1)
          | (Inr r, w1) \<Rightarrow> (Response 200 (message_to_dict isoformat r), w1)))"

text \<open>One turn of the background task that starts elections.\<close>

definition message_processor_turn ::
  "(string \<Rightarrow> message \<Rightarrow> message option) \<Rightarrow> rat \<Rightarrow> raft_node \<Rightarrow> raft_node" where
  "message_processor_turn send now n =
     (if raft_state n = CANDIDATE \<and> \<not> election_in_progress n then start_election send now n else n)"

section \<open>Handlers of the bonus features\<close>

definition audit_of :: "string \<Rightarrow> string \<Rightarrow> string \<Rightarrow> string \<Rightarrow> string \<Rightarrow> audit_record" where
  "audit_of timestamp action actor res outcome = \<lparr>ar_timestamp = timestamp, ar_action = action, ar_actor = actor,
     ar_resource = res, ar_result = outcome, ar_details = []\<rparr>"

text \<open>The \<open>except\<close> clause of encryption and decryption records the failure.\<close>

definition crypto_except where
  "crypto_except sha canon timestamp action x sec =
     (Failure 500 x, record_audit sha canon (audit_of timestamp action (sec_node_id sec) ''payload'' ''failed'') sec)"

definition handle_encrypt where
  "handle_encrypt digest dumps minify sha canon timestamp data sec =
     (let payload = field data ''payload'' in
      if payload = JNull then (error_response 400 ''Missing payload'', sec)
      else (case opt_str (field data ''key_material'') of
              Inl x \<Rightarrow> crypto_except sha canon timestamp ''encrypt'' x sec
            | Inr k \<Rightarrow>
                (Response 200 [(''ciphertext'', JStr (encrypt digest dumps minify sec payload k)),
                   (''enabled'', JBool (enable_encryption sec))],
                 record_audit sha canon (audit_of timestamp ''encrypt'' (sec_node_id sec) ''payload'' ''success'') sec)))"

definition handle_decrypt where
  "handle_decrypt digest loads sha canon timestamp data sec =
     (let ciphertext = field data ''ciphertext'' in
      if ciphertext = JNull then (error_response 400 ''Missing ciphertext'', sec)
      else (case (as_str ciphertext, opt_str (field data ''key_material'')) of
              (Inr c, Inr k) \<Rightarrow>
                (case decrypt digest loads sec c k of
                   Inl x \<Rightarrow> crypto_except sha canon timestamp ''decrypt'' x sec
                 | Inr v \<Rightarrow> (Response 200 [(''plaintext'', v), (''enabled'', JBool (enable_encryption sec))],
                     record_audit sha canon (audit_of timestamp ''decrypt'' (sec_node_id sec) ''payload'' ''success'') sec))
            | _ \<Rightarrow> crypto_except sha canon timestamp ''decrypt'' (TypeError ''body'') sec))"

definition handle_authorize where
  "handle_authorize sha canon timestamp data sec =
     (case (as_str (field_or data ''role'' (JStr ''viewer'')), as_str (field_or data ''action'' (JStr ''read''))) of
        (Inr role, Inr action) \<Rightarrow>
          (Response 200 [(''role'', JStr role), (''action'', JStr action), (''allowed'', JBool (authorize role action))],
           record_audit sha canon (audit_of timestamp ''authorize'' role action
             (if authorize role action then ''allowed'' else ''denied'')) sec)
      | _ \<Rightarrow> (Unhandled (TypeError ''body''), sec))"

definition handle_audit :: "security \<Rightarrow> response" where
  "handle_audit sec = Response 200 [(''count'', JInt (int (length (audit_log sec)))),
     (''records'', JArr (get_audit_log sec))]"

definition handle_pbft_commit :: "(string \<Rightarrow> int result) \<Rightarrow> string \<Rightarrow> jdict \<Rightarrow> pbft \<Rightarrow> response \<times> pbft" where
  "handle_pbft_commit py_int rid data pb =
     (case int_of py_int (field_or data ''faulty_nodes'' (JInt 0)) of Inl x \<Rightarrow> (Unhandled x, pb)
      | Inr k \<Rightarrow>
         (case submit_request rid (field_or data ''payload'' (JObj [])) k pb of (r, pb1) \<Rightarrow>
            (Response 200 [(''request_id'', JStr (pr_request_id r)), (''status'', JStr (pr_status r)),
               (''quorum'', JInt (pr_quorum r)), (''replicas'', JInt (int (pr_replicas r))),
               (''prepare_votes'', JInt (pr_prepare_votes r)), (''commit_votes'', JInt (pr_commit_votes r)),
               (''committed_value'', pr_committed_value r)], pb1)))"

definition handle_geo_replicate :: "string \<Rightarrow> jdict \<Rightarrow> geo_router \<Rightarrow> response \<times> geo_router" where
  "handle_geo_replicate timestamp data geo =
     (let key = field data ''key'' in
      if \<not> truthy key then (error_response 400 ''Missing key'', geo)
      else (case (as_str key, opt_str (field data ''preferred_region'')) of
              (Inr k, Inr p) \<Rightarrow>
                (case replicate timestamp k (field data ''value'') p geo of
                   (Inl x, geo1) \<Rightarrow> (Unhandled x, geo1)
                 | (Inr r, geo1) \<Rightarrow> (Response 200 [(''status'', JStr ''replicated''), (''record'', JObj r)], geo1))
            | _ \<Rightarrow> (Unhandled (TypeError ''body''), geo)))"

text \<open>\<open>set(exclude or [])\<close>: the strings among the items, which is all that matters for the comparison with
  node names; iterating a string gives its characters, a dictionary its keys.\<close>

definition hashable :: "json \<Rightarrow> bool" where
  "hashable j = (case j of JArr js \<Rightarrow> False | JObj d \<Rightarrow> False | _ \<Rightarrow> True)"

definition exclude_list :: "json \<Rightarrow> string list result" where
  "exclude_list j =
     (if \<not> truthy j then Inr []
      else (case j of
              JArr js \<Rightarrow> if list_all hashable js
                         then Inr (concat (map (\<lambda>x. case x of JStr s \<Rightarrow> [s] | _ \<Rightarrow> []) js))
                         else Inl (TypeError ''unhashable type'')
            | JStr s \<Rightarrow> Inr (map (\<lambda>c. [c]) s)
            | JObj d \<Rightarrow> Inr (dict_keys d)
            | _ \<Rightarrow> Inl (TypeError ''not iterable'')))"

definition load_json :: "node_load \<Rightarrow> json" where
  "load_json st = JObj [(''load'', JFloat (nl_load st)), (''latency'', JFloat (nl_latency st)),
     (''success_rate'', JFloat (nl_success st))]"

definition handle_balance_choose ::
  "(string \<Rightarrow> rat result) \<Rightarrow> string \<Rightarrow> jdict \<Rightarrow> balancer \<Rightarrow> response \<times> balancer" where
  "handle_balance_choose py_float timestamp data lb =
     (case float_of py_float (field_or data ''workload'' (JInt 1)) of Inl x \<Rightarrow> (Unhandled x, lb)
      | Inr w \<Rightarrow>
         (case exclude_list (field_or data ''exclude'' (JArr [])) of Inl x \<Rightarrow> (Unhandled x, lb)
          | Inr ex \<Rightarrow>
             (case choose_node timestamp w ex lb of
                (Inl x, lb1) \<Rightarrow> (Unhandled x, lb1)
              | (Inr n, lb1) \<Rightarrow> (Response 200 [(''selected_node'', JStr n), (''workload'', JFloat w)], lb1))))"

definition handle_balance_feedback ::
  "(string \<Rightarrow> rat result) \<Rightarrow> jdict \<Rightarrow> balancer \<Rightarrow> response \<times> balancer" where
  "handle_balance_feedback py_float data lb =
     (case float_of py_float (field_or data ''latency_ms'' (JInt 0)) of Inl x \<Rightarrow> (Unhandled x, lb)
      | Inr l \<Rightarrow>
         (let node = field data ''node''; ok = truthy (field_or data ''success'' (JBool True)) in
          if \<not> truthy node then (error_response 400 ''Missing node'', lb)
          else (case as_str node of Inl x \<Rightarrow> (Unhandled x, lb)
            | Inr n \<Rightarrow>
               (case feedback n l ok lb of (st, lb1) \<Rightarrow>
                  (Response 200 [(''node'', node), (''state'', load_json st)], lb1)))))"

section \<open>Status handlers\<close>

definition result_json :: "pbft_result \<Rightarrow> jdict" where
  "result_json r = [(''request_id'', JStr (pr_request_id r)), (''status'', JStr (pr_status r)),
     (''quorum'', JInt (pr_quorum r)), (''replicas'', JInt (int (pr_replicas r))),
     (''prepare_votes'', JInt (pr_prepare_votes r)), (''commit_votes'', JInt (pr_commit_votes r)),
     (''committed_value'', pr_committed_value r)]"

definition handle_pbft_status :: "pbft \<Rightarrow> response" where
  "handle_pbft_status pb = (let st = pbft_get_stats pb in
     Response 200 [(''node_id'', JStr (pb_node_id pb)), (''replicas'', JInt (int (ps_replicas st))),
       (''fault_tolerance'', JInt (ps_fault_tolerance st)), (''quorum'', JInt (ps_quorum st)),
       (''requests'', JInt (int (ps_requests st))), (''committed'', JInt (int (ps_committed st))),
       (''recent'', JArr (map (\<lambda>r. JObj (result_json r)) (ps_recent st)))])"

definition handle_geo_status :: "geo_router \<Rightarrow> response" where
  "handle_geo_status geo = (let st = geo_get_stats geo in
     Response 200 [(''regions'', JInt (int (gs_regions st))), (''healthy_regions'', JInt (int (gs_healthy st))),
       (''fastest_region'', json_opt (gs_fastest st)), (''replications'', JInt (int (gs_replications st)))])"

definition handle_balance_status :: "balancer \<Rightarrow> response" where
  "handle_balance_status lb =
     (case lb_get_stats lb of Inl x \<Rightarrow> Unhandled x
      | Inr st \<Rightarrow> Response 200 [(''nodes'', JInt (int (bs_nodes st))), (''history'', JInt (int (bs_history st))),
          (''best_node'', json_opt (bs_best st)),
          (''states'', JObj (map (\<lambda>(n, l). (n, load_json l)) (bs_states st)))])"

text \<open>\<open>percent\<close> formats the hit rate with two decimals.\<close>

definition handle_metrics :: "(rat \<Rightarrow> string) \<Rightarrow> string \<Rightarrow> raft_node \<times> services \<Rightarrow> response" where
  "handle_metrics percent timestamp w =
     (let n = fst w; l = lm_get_stats (sv_locks (snd w)); q = dq_get_stats (sv_queue (snd w));
          c = mc_get_stats (sv_cache (snd w)) in
      Response 200
        [(''timestamp'', JStr timestamp), (''node_id'', JStr (node_id n)),
         (''raft'', JObj [(''term'', JInt (current_term n)), (''state'', JStr (node_state_value (raft_state n))),
            (''log_size'', JInt (int (length (raft_log n))))]),
         (''locks'', JObj [(''total_locks'', JInt (int (total_locks l))), (''total_waiting'', JInt (int (total_waiting l))),
            (''resources'', JInt (int (stat_resources l))), (''deadlock_cycles'', JInt (int (deadlock_cycles l)))]),
         (''queue'', JObj [(''total_partitions'', JInt (int (total_partitions q))),
            (''total_messages'', JInt (int (total_messages q))), (''unacked_messages'', JInt (int (unacked_messages q))),
            (''pending_persistence'', JInt (int (pending_persistence q)))]),
         (''cache'', JObj [(''cache_size'', JInt (int (cache_size c))), (''max_size'', JInt (stat_max_size c)),
            (''hits'', JInt (int (stat_hits c))), (''misses'', JInt (int (stat_misses c))),
            (''hit_rate'', JStr (percent (hit_rate c))), (''invalidations'', JInt (int (stat_invalidations c))),
            (''pending_invalidations'', JInt (int (stat_pending c)))])])"

end
