(* ===== verification/Node_Config.thy ===== *)
theory Node_Config
  imports App_Http
begin

text \<open>
  \<^verbatim>\<open>src/core/config.py\<close> and the constructor of \<^verbatim>\<open>src/app.py\<close>: a configuration read from the environment
  \<open>env\<close>, and the node built from it. \<open>py_int\<close> and \<open>py_float\<close> are the parsers \<open>int(...)\<close> and \<open>float(...)\<close>;
  a value they refuse stops the import of the module, here the first \<open>Inl\<close>.
\<close>

type_synonym environment = "string \<Rightarrow> string option"

definition getenv :: "environment \<Rightarrow> string \<Rightarrow> string \<Rightarrow> string" where
  "getenv env k dflt = (case env k of None \<Rightarrow> dflt | Some v \<Rightarrow> v)"

definition py_lower :: "string \<Rightarrow> string" where
  "py_lower s = map (\<lambda>c. if CHR ''A'' \<le> c \<and> c \<le> CHR ''Z'' then char_of ((of_char c :: nat) + 32) else c) s"

definition env_flag :: "environment \<Rightarrow> string \<Rightarrow> bool" where
  "env_flag env k \<longleftrightarrow> py_lower (getenv env k ''true'') = ''true''"

record consensus_config =
  heartbeat_interval :: rat
  election_timeout_min :: rat
  election_timeout_max :: rat
  request_timeout :: rat

record lock_config =
  deadlock_detection_interval :: rat
  max_lock_wait_time :: rat

record cache_config =
  cfg_max_size :: int
  cfg_ttl :: int
  eviction_policy :: string

record queue_config =
  cfg_replication_factor :: int
  cfg_persistence :: bool

record security_config =
  cfg_encryption :: bool
  cfg_audit :: bool
  cfg_auth :: bool
  cfg_api_keys :: string
  audit_log_path :: string
  audit_hash_path :: string
  cfg_secret :: string

record bonus_config =
  geo_region_name :: string
  geo_region_map :: string
  pbft_override :: int

record node_config =
  cfg_node_id :: string
  node_port :: int
  cluster_peers :: "string list"

record redis_config =
  redis_host :: string
  redis_port :: int
  redis_db :: int

record system_config =
  cfg_node :: node_config
  cfg_consensus :: consensus_config
  cfg_lock :: lock_config
  cfg_cache :: cache_config
  cfg_queue :: queue_config
  cfg_security :: security_config
  cfg_bonus :: bonus_config
  cfg_redis :: redis_config
  log_level :: string

definition consensus_of :: "(string \<Rightarrow> rat result) \<Rightarrow> environment \<Rightarrow> consensus_config result" where
  "consensus_of py_float env =
     (case py_float (getenv env ''HEARTBEAT_INTERVAL'' ''0.5'') of Inl x \<Rightarrow> Inl x | Inr a \<Rightarrow>
      case py_float (getenv env ''ELECTION_TIMEOUT_MIN'' ''1.5'') of Inl x \<Rightarrow> Inl x | Inr b \<Rightarrow>
      case py_float (getenv env ''ELECTION_TIMEOUT_MAX'' ''3.0'') of Inl x \<Rightarrow> Inl x | Inr c \<Rightarrow>
      Inr \<lparr>heartbeat_interval = a, election_timeout_min = b, election_timeout_max = c, request_timeout = 5\<rparr>)"

definition lock_config_of :: "(string \<Rightarrow> rat result) \<Rightarrow> environment \<Rightarrow> lock_config result" where
  "lock_config_of py_float env =
     (case py_float (getenv env ''DEADLOCK_DETECTION_INTERVAL'' ''5'') of Inl x \<Rightarrow> Inl x | Inr a \<Rightarrow>
      case py_float (getenv env ''MAX_LOCK_WAIT_TIME'' ''30'') of Inl x \<Rightarrow> Inl x | Inr b \<Rightarrow>
      Inr \<lparr>deadlock_detection_interval = a, max_lock_wait_time = b\<rparr>)"

definition cache_config_of :: "(string \<Rightarrow> int result) \<Rightarrow> environment \<Rightarrow> cache_config result" where
  "cache_config_of py_int env =
     (case py_int (getenv env ''CACHE_MAX_SIZE'' ''1000'') of Inl x \<Rightarrow> Inl x | Inr a \<Rightarrow>
      case py_int (getenv env ''CACHE_TTL'' ''3600'') of Inl x \<Rightarrow> Inl x | Inr b \<Rightarrow>
      Inr \<lparr>cfg_max_size = a, cfg_ttl = b, eviction_policy = getenv env ''CACHE_EVICTION_POLICY'' ''LRU''\<rparr>)"

definition queue_config_of :: "(string \<Rightarrow> int result) \<Rightarrow> environment \<Rightarrow> queue_config result" where
  "queue_config_of py_int env =
     map_sum id (\<lambda>f. \<lparr>cfg_replication_factor = f, cfg_persistence = env_flag env ''QUEUE_PERSISTENCE_ENABLED''\<rparr>)
       (py_int (getenv env ''QUEUE_REPLICATION_FACTOR'' ''3''))"

definition security_config_of :: "environment \<Rightarrow> security_config" where
  "security_config_of env =
     \<lparr>cfg_encryption = env_flag env ''ENABLE_ENCRYPTION'', cfg_audit = env_flag env ''ENABLE_AUDIT'',
      cfg_auth = env_flag env ''AUTH_ENABLED'',
      cfg_api_keys = getenv env ''API_KEYS'' ''admin-key:admin,operator-key:operator,viewer-key:viewer'',
      audit_log_path = getenv env ''AUDIT_LOG_PATH'' ''data/audit.log'',
      audit_hash_path = getenv env ''AUDIT_HASH_PATH'' ''data/audit.hash'',
      cfg_secret = getenv env ''ENCRYPTION_SECRET'' ''distributed-sync-secret''\<rparr>"

definition bonus_config_of :: "(string \<Rightarrow> int result) \<Rightarrow> environment \<Rightarrow> bonus_config result" where
  "bonus_config_of py_int env =
     map_sum id (\<lambda>k. \<lparr>geo_region_name = getenv env ''GEO_REGION'' ''asia-southeast'',
        geo_region_map = getenv env ''GEO_REGION_MAP'' ''asia-southeast:22,us-east:70,eu-west:95'', pbft_override = k\<rparr>)
       (py_int (getenv env ''PBFT_FAULT_TOLERANCE_OVERRIDE'' ''0''))"

definition peers_of :: "environment \<Rightarrow> string list" where
  "peers_of env = map py_strip (split_on (CHR '','')
     (getenv env ''CLUSTER_PEERS'' ''localhost:8002,localhost:8003,localhost:8004''))"

definition node_config_of :: "(string \<Rightarrow> int result) \<Rightarrow> environment \<Rightarrow> node_config result" where
  "node_config_of py_int env =
     map_sum id (\<lambda>p. \<lparr>cfg_node_id = getenv env ''NODE_ID'' ''node_1'', node_port = p, cluster_peers = peers_of env\<rparr>)
       (py_int (getenv env ''NODE_PORT'' ''8001''))"

definition redis_config_of :: "(string \<Rightarrow> int result) \<Rightarrow> environment \<Rightarrow> redis_config result" where
  "redis_config_of py_int env =
     (case py_int (getenv env ''REDIS_PORT'' ''6379'') of Inl x \<Rightarrow> Inl x | Inr p \<Rightarrow>
      case py_int (getenv env ''REDIS_DB'' ''0'') of Inl x \<Rightarrow> Inl x | Inr d \<Rightarrow>
      Inr \<lparr>redis_host = getenv env ''REDIS_HOST'' ''localhost'', redis_port = p, redis_db = d\<rparr>)"

definition get_config ::
  "(string \<Rightarrow> int result) \<Rightarrow> (string \<Rightarrow> rat result) \<Rightarrow> environment \<Rightarrow> system_config result" where
  "get_config py_int py_float env =
     (case node_config_of py_int env of Inl x \<Rightarrow> Inl x | Inr nc \<Rightarrow>
      case consensus_of py_float env of Inl x \<Rightarrow> Inl x | Inr cc \<Rightarrow>
      case lock_config_of py_float env of Inl x \<Rightarrow> Inl x | Inr lc \<Rightarrow>
      case cache_config_of py_int env of Inl x \<Rightarrow> Inl x | Inr cac \<Rightarrow>
      case queue_config_of py_int env of Inl x \<Rightarrow> Inl x | Inr qc \<Rightarrow>
      case bonus_config_of py_int env of Inl x \<Rightarrow> Inl x | Inr bc \<Rightarrow>
      case redis_config_of py_int env of Inl x \<Rightarrow> Inl x | Inr rc \<Rightarrow>
      Inr \<lparr>cfg_node = nc, cfg_consensus = cc, cfg_lock = lc, cfg_cache = cac, cfg_queue = qc,
           cfg_security = security_config_of env, cfg_bonus = bc, cfg_redis = rc,
           log_level = getenv env ''LOG_LEVEL'' ''INFO''\<rparr>)"

section \<open>The node built from a configuration\<close>

record distributed_node =
  dn_raft :: raft_node
  dn_services :: services
  dn_security :: security
  dn_pbft :: pbft
  dn_geo :: geo_router
  dn_balancer :: balancer

definition init_distributed_node ::
  "(string \<Rightarrow> nat) \<Rightarrow> (string \<Rightarrow> rat result) \<Rightarrow> json list option \<Rightarrow> string option \<Rightarrow> system_config
     \<Rightarrow> distributed_node result" where
  "init_distributed_node h py_float lf hf cfg =
     (let nid = cfg_node_id (cfg_node cfg); ps = cluster_peers (cfg_node cfg); sc = cfg_security cfg in
      map_sum id (\<lambda>geo.
        \<lparr>dn_raft = init_node nid ps,
         dn_services = init_services h nid ps (cfg_replication_factor (cfg_queue cfg)) (cfg_persistence (cfg_queue cfg))
                         (cfg_max_size (cfg_cache cfg)) (of_int (cfg_ttl (cfg_cache cfg))),
         dn_security = init_security nid (cfg_encryption sc) (cfg_audit sc) (cfg_auth sc) (cfg_api_keys sc)
                         (Some (cfg_secret sc)) (audit_log_path sc \<noteq> []) (audit_hash_path sc \<noteq> []) lf hf,
         dn_pbft = init_pbft nid (nid # ps), dn_geo = geo, dn_balancer = init_balancer (nid # ps)\<rparr>)
        (init_geo py_float nid [] None None))"

section \<open>Properties\<close>

lemma map_sum_Inr: "map_sum id f x = Inr y \<longleftrightarrow> (\<exists>z. x = Inr z \<and> y = f z)"
  by (cases x) auto

lemma split_on_nonempty: "split_on d s \<noteq> []"
  by (induction s) (auto split: list.split)

text \<open>A configured node never runs without peers: an empty \<open>CLUSTER_PEERS\<close> gives one peer with an
  empty name, so the quorum is at least two and a lone node never becomes leader at its timeout. The
  node starts with every service well formed and with the three built-in regions, whatever
  \<open>GEO_REGION_MAP\<close> says.\<close>

theorem configured_node:
  assumes "get_config py_int py_float env = Inr cfg" and "init_distributed_node h py_float lf hf cfg = Inr d"
  shows "peers (dn_raft d) = peers_of env \<and> peers_of env \<noteq> [] \<and> 2 \<le> quorum_size (dn_raft d)
    \<and> raft_state (election_timeout_handler (dn_raft d)) = CANDIDATE
    \<and> raft_wf (dn_raft d) \<and> services_wf h (dn_services d) \<and> balancer_ok True (dn_balancer d)
    \<and> regions (dn_geo d) = default_regions"
proof -
  have ne: "peers_of env \<noteq> []" by (simp add: peers_of_def split_on_nonempty)
  have cfg: "cluster_peers (cfg_node cfg) = peers_of env"
    using assms(1) by (auto simp: get_config_def node_config_of_def map_sum_Inr split: sum.splits)
  have raft: "dn_raft d = init_node (cfg_node_id (cfg_node cfg)) (peers_of env)"
    and serv: "services_wf h (dn_services d)"
    and bal: "dn_balancer d = init_balancer (cfg_node_id (cfg_node cfg) # peers_of env)"
    and geo: "regions (dn_geo d) = default_regions"
    using assms(2) cfg by (auto simp: init_distributed_node_def Let_def init_geo_def parse_region_map_def py_strip_def init_services_wf)
  have "1 \<le> length (peers_of env)" using ne by (cases "peers_of env") simp_all
  then have "2 \<le> quorum_size (dn_raft d)" by (simp add: raft quorum_size_def init_node_def)
  moreover have "raft_state (election_timeout_handler (dn_raft d)) = CANDIDATE"
    using ne by (simp add: raft election_timeout_handler_def init_node_def node_ops)
  ultimately show ?thesis using ne init_node_wf init_balancer_ok geo serv by (simp add: raft bal) (simp add: init_node_def)
qed

theorem configured_node_witness:
  "\<exists>cfg d. get_config (\<lambda>s. Inr 3) (\<lambda>s. Inr 1) (\<lambda>k. if k = ''CLUSTER_PEERS'' then Some [] else None) = Inr cfg
    \<and> init_distributed_node sample_hash (\<lambda>s. Inr 1) None None cfg = Inr d
    \<and> peers (dn_raft d) = [[]] \<and> 2 \<le> quorum_size (dn_raft d)"
proof -
  let ?env = "\<lambda>k. if k = ''CLUSTER_PEERS'' then Some [] else None"
  obtain cfg where cfg: "get_config (\<lambda>s. Inr 3) (\<lambda>s. Inr 1) ?env = Inr cfg"
    by (simp add: get_config_def node_config_of_def consensus_of_def lock_config_of_def cache_config_of_def
        queue_config_of_def bonus_config_of_def redis_config_of_def)
  obtain d where d: "init_distributed_node sample_hash (\<lambda>s. Inr 1) None None cfg = Inr d"
    by (simp add: init_distributed_node_def Let_def init_geo_def parse_region_map_def py_strip_def)
  have "peers_of ?env = [[]]" by (simp add: peers_of_def getenv_def py_strip_def)
  then show ?thesis using configured_node[OF cfg d] cfg d by auto
qed

end
