(* ===== verification/Node_Typing.thy ===== *)
theory Node_Typing
  imports App_Services
begin

text \<open>
  The types of log entries: what the services append is exactly what their commit callbacks can
  decode, so a node whose log holds only such entries never fails while it commits.
\<close>

inductive service_data :: "string \<Rightarrow> jdict \<Rightarrow> bool" where
  sd_acquire: "service_data ''LOCK_ACQUIRE'' (acquire_data lid res client lt ttl)"
| sd_release: "service_data ''LOCK_RELEASE'' [(''lock_id'', JStr lid)]"
| sd_publish: "service_data ''QUEUE_PUBLISH'' (publish_data mid topic pid payload rs)"
| sd_ack: "service_data ''QUEUE_ACK'' [(''msg_id'', JStr mid), (''consumer_id'', JStr consumer)]"
| sd_put: "service_data ''CACHE_PUT'' (put_data key v st nid ttl)"
| sd_cache: "cache_request c d \<Longrightarrow> service_data c d"

inductive_cases service_dataE: "service_data c d"

abbreviation service_entry :: "log_entry \<Rightarrow> bool" where
  "service_entry e \<equiv> service_data (le_command e) (le_data e)"

definition typed_log :: "raft_node \<Rightarrow> bool" where
  "typed_log n \<longleftrightarrow> (\<forall>e\<in>set (raft_log n). service_entry e) \<and> -1 \<le> last_applied n"

section \<open>A typed entry commits without an exception\<close>

lemma services_decode:
  assumes "service_entry e"
  shows "fst (lm_handle_commit now e l) = None" "fst (dq_handle_commit now e q) = None"
    "fst (mc_handle_commit now e c) = None"
  using assms by (auto elim!: service_dataE cache_requestE
      simp: lm_handle_commit_def dq_handle_commit_def mc_handle_commit_def item_defs Let_def)

lemma typed_commit:
  assumes "service_entry e"
  shows "fst (run_callbacks (node_callbacks now) e s) = None"
proof -
  obtain l q c where "lm_handle_commit now e (sv_locks s) = (None, l)"
    "dq_handle_commit now e (sv_queue s) = (None, q)" "mc_handle_commit now e (sv_cache s) = (None, c)"
    using services_decode[OF assms] by (metis prod.collapse)
  then show ?thesis by (simp add: node_callbacks_def on_locks_def on_queue_def on_cache_def)
qed

lemma typed_feed: "\<forall>e\<in>set es. service_entry e \<Longrightarrow> fst (feed (node_callbacks now) es s) = None"
  using feed_raise[of "node_callbacks now" es s] typed_commit
  by (cases "feed (node_callbacks now) es s") (metis fst_conv not_None_eq)

lemma typed_apply:
  assumes "typed_log n" and "commit_index n < int (length (raft_log n))"
  shows "\<exists>k s'. apply_committed_entries (node_callbacks now) n s = (None, n\<lparr>last_applied := k\<rparr>, s') \<and> last_applied n \<le> k"
proof -
  have "\<forall>e\<in>set (pending_entries n). service_entry e"
    using assms(1) by (auto simp: typed_log_def pending_entries_def dest!: in_set_takeD in_set_dropD)
  then obtain k s' where f: "feed (node_callbacks now) (pending_entries n) s = (None, k, s')"
    using typed_feed by (metis prod.collapse)
  have "apply_committed_entries (node_callbacks now) n s = (None, n\<lparr>last_applied := last_applied n + int k\<rparr>, s')"
    using apply_feed[of n "node_callbacks now" s] assms f by (simp add: typed_log_def)
  then show ?thesis by auto
qed

section \<open>What a response leaves of the log\<close>

lemma update_commit_frame:
  "update_commit_index cbs n a = (x, n', a') \<Longrightarrow> raft_log n' = raft_log n \<and> last_applied n \<le> last_applied n'"
  by (fastforce simp: update_commit_index_def Let_def dest: apply_keeps(5) apply_applied_ge
      split: if_splits option.splits sum.splits)

lemma response_frame:
  "on_append_response cbs p i es r n a = (b, n', a') \<Longrightarrow> raft_log n' = raft_log n \<and> last_applied n \<le> last_applied n'"
  by (auto simp: on_append_response_def node_ops dest!: update_commit_frame
      split: option.splits if_splits prod.splits)

lemma gather_frame:
  "gather_appends cbs send reqs n a = (n', a') \<Longrightarrow> raft_log n' = raft_log n \<and> last_applied n \<le> last_applied n'"
proof (induction cbs send reqs n a arbitrary: n' a' rule: gather_appends.induct)
  case (3 cbs send peer prev es m reqs n a)
  obtain b n1 a1 where r: "on_append_response cbs peer prev es (send peer m) n a = (b, n1, a1)"
    by (metis prod_cases3)
  show ?case using "3.IH"[OF r[symmetric] refl] "3.prems" r response_frame[OF r] by fastforce
qed simp_all

lemma typed_log_mono:
  "typed_log n \<Longrightarrow> set (raft_log n') \<subseteq> set (raft_log n) \<union> set es \<Longrightarrow> \<forall>e\<in>set es. service_entry e
     \<Longrightarrow> last_applied n \<le> last_applied n' \<Longrightarrow> typed_log n'"
  by (auto simp: typed_log_def)

section \<open>Appending\<close>

lemma typed_append_entry:
  assumes "typed_log n" and "service_data c d"
  shows "\<exists>b n' s'. node_append send now c d (n, s) = (Inr b, (n', s')) \<and> typed_log n'"
proof (cases "raft_state n = LEADER")
  case False
  then have "node_append send now c d (n, s) = (Inr False, (n, s))" by (simp add: append_entry_def)
  then show ?thesis using assms(1) by blast
next
  case leader: True
  let ?n1 = "append_local c d n"
  have t1: "typed_log ?n1" using assms by (auto simp: typed_log_def append_local_def new_entry_def)
  have st: "raft_state ?n1 = LEADER" "peers ?n1 = peers n" using leader by (simp_all add: append_local_def)
  show ?thesis
  proof (cases "peers n = []")
    case True
    let ?n2 = "?n1\<lparr>commit_index := le_index (new_entry n c d)\<rparr>"
    have t2: "typed_log ?n2" using t1 by (simp add: typed_log_def)
    have "commit_index ?n2 < int (length (raft_log ?n2))" by (simp add: new_entry_def append_local_def)
    from typed_apply[OF t2 this, of now s] obtain k s' where
      "apply_committed_entries (node_callbacks now) ?n2 s = (None, ?n2\<lparr>last_applied := k\<rparr>, s')" "last_applied ?n2 \<le> k" by blast
    moreover from this have "typed_log (?n2\<lparr>last_applied := k\<rparr>)" using t2 by (simp add: typed_log_def)
    ultimately have "node_append send now c d (n, s) = (Inr True, (?n2\<lparr>last_applied := k\<rparr>, s'))"
      and "typed_log (?n2\<lparr>last_applied := k\<rparr>)" using leader True st by (simp_all add: append_entry_def Let_def)
    then show ?thesis by blast
  next
    case False
    obtain n' s' where g: "send_append_entries_to_all (node_callbacks now) send now ?n1 s = (n', s')" by fastforce
    then have "typed_log n'" using gather_frame[OF g[unfolded send_append_entries_to_all_def]] t1 by (simp add: typed_log_def)
    moreover have "node_append send now c d (n, s) = (Inr True, (n', s'))"
      using leader False g st by (simp add: append_entry_def Let_def)
    ultimately show ?thesis by blast
  qed
qed

section \<open>Receiving entries\<close>

lemma advance_commit_ge: "advance_commit cbs lc n a = (x, n', a') \<Longrightarrow> last_applied n \<le> last_applied n'"
  by (auto simp: advance_commit_def dest: apply_applied_ge split: if_splits)

lemma message_applied_ge:
  "handle_message cbs now m n a = (r, n', a') \<Longrightarrow> message_type m = APPEND_ENTRIES \<Longrightarrow> last_applied n \<le> last_applied n'"
  by (fastforce simp: handle_message_def handle_append_entries_def accept_entries_def Let_def dest!: advance_commit_ge
      split: if_splits prod.splits sum.splits option.splits bool.splits)

lemma merge_suffix_set: "set (merge_suffix ls es) \<subseteq> set ls \<union> set es"
  by (induction ls es rule: merge_suffix.induct) auto

lemma typed_message:
  assumes "typed_log F" and "message_type m = APPEND_ENTRIES"
    and "get_int (msg_data m) ''prev_log_index'' 0 = Inr prev" and "-1 \<le> prev"
    and "get_int (msg_data m) ''prev_log_term'' 0 = Inr t"
    and "get_entries (msg_data m) = Inr es" and "get_int (msg_data m) ''leader_commit'' 0 = Inr lc"
    and "\<forall>e\<in>set es. service_entry e"
  shows "\<exists>r F' s'. handle_message (node_callbacks now) now m F s = (Inr r, F', s') \<and> typed_log F'"
proof -
  obtain r F' s' where h: "handle_message (node_callbacks now) now m F s = (r, F', s')" by (metis prod_cases3)
  have "set (raft_log F') \<subseteq> set (raft_log F) \<union> set es"
  proof (cases rule: message_append_cases[OF h assms(2-6)])
    case 2
    then show ?thesis using merge_suffix_set[of "drop (nat (prev + 1)) (raft_log F)" es]
      by (auto dest: in_set_takeD in_set_dropD)
  qed simp
  then have typed: "typed_log F'"
    using typed_log_mono[OF assms(1) _ assms(8) message_applied_ge[OF h assms(2)]] by blast
  have "-1 \<le> last_applied F" using assms(1) by (simp add: typed_log_def)
  then have "r \<noteq> Inl x" for x
    using append_raises[OF _ assms(2-7)] h typed typed_commit by (fastforce simp: typed_log_def)
  then show ?thesis using h typed by (cases r) auto
qed

text \<open>C9: Typed nodes never fail: when the logs of a leader and a follower hold only entries the services
  build, the leader's next append of such an entry returns without an exception, and so does the
  follower's handling of any append request the leader sends; both logs stay typed.\<close>

theorem typed_nodes_never_fail:
  assumes "typed_log L" and "typed_log F" and "service_data c d"
    and "append_entries_request t L p = Inr (prev, es, m)" and "map_of (next_index L) p = Some ni"
    and "0 \<le> ni" and "ni \<le> int (length (raft_log L))"
  shows "(\<exists>b L' s'. node_append send now c d (L, s) = (Inr b, (L', s')) \<and> typed_log L')
    \<and> (\<exists>r F' s'. handle_message (node_callbacks now) now m F s = (Inr r, F', s') \<and> typed_log F')"
proof -
  note q = request_data[OF assms(4-7)]
  have "\<forall>e\<in>set es. service_entry e" using assms(1) q(2) by (auto simp: typed_log_def dest: in_set_dropD)
  then show ?thesis
    using typed_append_entry[OF assms(1,3)] typed_message[OF assms(2) q(3,6) _ q(7,8,9)] q(1) assms(6) by simp
qed

section \<open>The services append only typed entries\<close>

lemma append_keeps_typed:
  assumes "typed_log (fst w)" and "service_data c d"
  shows "typed_log (fst (snd (node_append send now c d w)))"
proof -
  obtain n s where w: "w = (n, s)" by (cases w)
  obtain b n' s' where "node_append send now c d (n, s) = (Inr b, (n', s'))" "typed_log n'"
    using typed_append_entry[where n = n and send = send and now = now and s = s, OF _ assms(2)] assms(1) w by auto
  then show ?thesis by (simp add: w)
qed

lemma views_fst [simp]:
  "fst (fst (lock_view w)) = fst w" "fst (fst (queue_view_of w)) = fst w" "fst (fst (cache_view w)) = fst w"
  "fst (lock_unview v) = fst (fst v)" "fst (queue_unview v') = fst (fst v')" "fst (cache_unview v'') = fst (fst v'')"
  by (simp_all add: lock_view_def queue_view_of_def cache_view_def lock_unview_def queue_unview_def cache_unview_def
      split: prod.split)

text \<open>
  What the services keep of their Raft node: a property of the node that appending a typed entry keeps
  is kept by every operation of every service.
\<close>

locale node_property =
  fixes P :: "raft_node \<Rightarrow> bool" and send :: "string \<Rightarrow> message \<Rightarrow> message option" and now :: rat
  assumes append_property: "P (fst w) \<Longrightarrow> service_data c d \<Longrightarrow> P (fst (snd (node_append send now c d w)))"
begin

lemma views_keep:
  assumes "service_data c d"
  shows "P (fst (fst v)) \<Longrightarrow> P (fst (fst (snd (lock_append send now c d v))))"
    "P (fst (fst v')) \<Longrightarrow> P (fst (fst (snd (queue_append send now c d v'))))"
    "P (fst (fst v'')) \<Longrightarrow> P (fst (fst (snd (cache_append send now c d v''))))"
  by (simp_all add: lock_append_def queue_append_def cache_append_def append_property assms)

end

sublocale node_property \<subseteq> locks: lock_service "lock_append send now" "\<lambda>v. P (fst (fst v))"
  by unfold_locales (simp_all add: views_keep sd_acquire sd_release)

sublocale node_property \<subseteq> queues: queue_host "queue_append send now" "\<lambda>v. P (fst (fst v))"
  by unfold_locales (simp_all add: views_keep sd_publish sd_ack)

sublocale node_property \<subseteq> caches: cache_host "cache_append send now"
    "\<lambda>v. P (fst (fst v)) \<and> services_wf h (snd (cache_unview v))" UNIV for h
proof (unfold_locales, goal_cases)
  case (4 w)
  then show ?case using node_cache.inv_blocks by blast
next
  case (5 r mc mc')
  then show ?case using node_cache.inv_local[of h r mc mc'] by simp
next
  case (6 w c d)
  then show ?case using node_cache.append_keeps views_keep(3)[OF sd_cache] by blast
next
  case (7 w st key v nid ttl)
  then show ?case using node_cache.append_put_keeps views_keep(3)[OF sd_put] by blast
qed simp_all

interpretation typed: node_property typed_log send now for send now
  by unfold_locales (rule append_keeps_typed)

interpretation raft_ok: node_property raft_wf send now for send now
proof
  fix w :: "raft_node \<times> services" and c d
  obtain n s where w: "w = (n, s)" by (cases w)
  obtain x w' where a: "node_append send now c d (n, s) = (x, w')" by (rule prod.exhaust)
  assume "raft_wf (fst w)"
  then show "raft_wf (fst (snd (node_append send now c d w)))"
    using run_wf[OF append_entry_run[OF a]] a w by simp
qed

text \<open>C28: Every operation of the services keeps the log of its node typed, whatever the network answers:
  acquiring and releasing a lock, publishing and acknowledging a message, reading and writing the
  cache append only entries that every node can commit.\<close>

theorem services_append_typed:
  assumes "typed_log n" and "services_wf h s"
    and "\<And>k v. typed_log (fst (fst v)) \<Longrightarrow> typed_log (fst (fst (env k v)))"
  shows "typed_log (fst (fst (snd (acquire_lock (lock_append send now) env clock start fuel res lt client lid timeout
        (lock_view (n, s))))))
    \<and> typed_log (fst (fst (snd (release_lock (lock_append send now) lid (lock_view (n, s))))))
    \<and> typed_log (fst (fst (snd (publish h (queue_append send now) mid topic payload (queue_view_of (n, s))))))
    \<and> typed_log (fst (fst (snd (acknowledge (queue_append send now) mid consumer (queue_view_of (n, s))))))
    \<and> typed_log (fst (fst (snd (cache_get (cache_append send now) t key (cache_view (n, s))))))
    \<and> typed_log (fst (fst (snd (cache_put (cache_append send now) t key v ttl (cache_view (n, s))))))"
proof -
  have l: "typed_log (fst (fst (lock_view (n, s))))" and q: "typed_log (fst (fst (queue_view_of (n, s))))"
    and c: "typed_log (fst (fst (cache_view (n, s)))) \<and> services_wf h (snd (cache_unview (cache_view (n, s))))"
    using assms(1,2) by simp_all
  show ?thesis
    by (intro conjI typed.locks.acquire_lock_keeps typed.locks.release_lock_keeps assms(3) l typed.queues.publish_keeps typed.queues.acknowledge_keeps q
        conjunct1[OF typed.caches.get_keeps[OF c]] conjunct1[OF typed.caches.put_keeps[OF c]])
qed

section \<open>Instances\<close>

lemma single_leader_typed: "typed_log single_leader"
  by (simp add: typed_log_def single_leader_state)

theorem services_append_typed_witness:
  "typed_log (fst (fst (snd (publish sample_hash (queue_append (\<lambda>p m. None) 0) ''m'' ''t'' JNull
      (queue_view_of (single_leader, sample_services))))))"
  using services_append_typed[OF single_leader_typed sample_services_wf, of "\<lambda>k v. v"] by blast

definition typed_leader :: raft_node where
  "typed_leader = (init_node ''b'' [''a''])\<lparr>raft_state := LEADER, current_term := 1, voted_for := Some ''b'',
     raft_log := [\<lparr>le_term = 1, le_index = 0, le_command = ''LOCK_RELEASE'', le_data = [(''lock_id'', JStr ''x'')]\<rparr>],
     next_index := [(''a'', 0)]\<rparr>"

theorem typed_nodes_never_fail_witness:
  "\<exists>m r F' s'. append_entries_request 0 typed_leader ''a'' = Inr (-1, raft_log typed_leader, m)
     \<and> handle_message (node_callbacks 0) 0 m (init_node ''a'' [''b'']) sample_services = (Inr r, F', s') \<and> typed_log F'"
proof -
  have L: "typed_log typed_leader" by (simp add: typed_log_def typed_leader_def sd_release init_node_def)
  have F: "typed_log (init_node ''a'' [''b''])" by (simp add: typed_log_def init_node_def)
  obtain m where m: "append_entries_request 0 typed_leader ''a'' = Inr (-1, raft_log typed_leader, m)"
    by (simp add: append_entries_request_def typed_leader_def init_node_def py_drop_def Let_def)
  have ni: "map_of (next_index typed_leader) ''a'' = Some 0" by (simp add: typed_leader_def)
  show ?thesis
    using typed_nodes_never_fail[OF L F sd_release m ni, where now = 0 and s = sample_services] m by auto
qed

end
