(* ===== verification/App_Props.thy ===== *)
theory App_Props
  imports App_Http
begin

text \<open>
  What a client of the HTTP interface sees: which requests the middleware lets through, what the
  invalidation endpoint does, and a lock acquired and released end to end on the composed node.
\<close>

section \<open>Access control\<close>

lemma authorize_read: "authorize role ''read'' \<longleftrightarrow> role \<in> {''admin'', ''operator'', ''viewer''}"
  by (simp add: authorize_iff)

lemma enforce_read:
  assumes "auth_enabled sec"
  shows "(\<exists>i. enforce sec k ''read'' = Inr i)
     \<longleftrightarrow> map_of (api_keys sec) k \<in> {Some ''admin'', Some ''operator'', Some ''viewer''}"
proof (cases "map_of (api_keys sec) k")
  case (Some role)
  then show ?thesis using assms authorize_read[of role]
    by (cases "authorize role ''read''") (auto simp: enforce_def)
qed (simp add: enforce_def assms)

text \<open>A key that \<open>enforce\<close> accepts for the permission \<open>read\<close>.\<close>

definition accepted_key :: "security \<Rightarrow> string option \<Rightarrow> bool" where
  "accepted_key sec key \<longleftrightarrow>
     (\<exists>k. key = Some k \<and> k \<noteq> [] \<and> map_of (api_keys sec) k \<in> {Some ''admin'', Some ''operator'', Some ''viewer''})"

lemma middleware_passes:
  "(auth_middleware sec path key = None) = (is_protected path \<and> auth_enabled sec \<longrightarrow> accepted_key sec key)"
proof (cases "is_protected path \<and> auth_enabled sec")
  case True
  have "(auth_middleware sec path (Some k) = None) = (k \<noteq> [] \<and> (\<exists>i. enforce sec k ''read'' = Inr i))" for k
    using True by (cases "enforce sec k ''read''") (simp_all add: auth_middleware_def)
  moreover have "auth_middleware sec path None \<noteq> None" using True by (simp add: auth_middleware_def)
  ultimately show ?thesis using True enforce_read by (cases key) (auto simp: accepted_key_def)
qed (auto simp: auth_middleware_def)

text \<open>The middleware asks every protected endpoint for the permission \<open>read\<close> only, which all three
  roles have: a key passes exactly when it is registered with one of them, whatever the endpoint
  does (so a viewer may decrypt or commit). The lock, queue, cache and Raft endpoints ask for no key.\<close>

theorem middleware_checks_read_only:
  "(auth_middleware sec path key = None) =
     (if is_protected path \<and> auth_enabled sec
      then (\<exists>k. key = Some k \<and> k \<noteq> [] \<and> map_of (api_keys sec) k \<in> {Some ''admin'', Some ''operator'', Some ''viewer''})
      else True)
   \<and> auth_middleware sec (''/lock/'' @ rest) key = None \<and> auth_middleware sec (''/queue/'' @ rest) key = None
   \<and> auth_middleware sec (''/cache/'' @ rest) key = None \<and> auth_middleware sec (''/raft/'' @ rest) key = None"
proof -
  have "\<not> is_protected (''/lock/'' @ rest)" "\<not> is_protected (''/queue/'' @ rest)"
    "\<not> is_protected (''/cache/'' @ rest)" "\<not> is_protected (''/raft/'' @ rest)"
    by (simp_all add: is_protected_def protected_paths_def)
  then show ?thesis unfolding middleware_passes accepted_key_def by auto
qed

section \<open>The invalidation endpoint\<close>

text \<open>The invalidation endpoint answers that the key is invalidated whatever it does, and leaves a
  block that a \<open>put\<close> stored (EXCLUSIVE or MODIFIED) in place: the next \<open>get\<close> still finds it.\<close>

theorem invalidate_endpoint_keeps_block:
  assumes "map_of (cache mc) key = Some b" and "cb_state b \<in> {EXCLUSIVE, MODIFIED}"
  shows "handle_cache_invalidate (mc_node_id mc) key mc =
     (Response 200 [(''key'', JStr key), (''status'', JStr ''invalidated'')], mc)"
  using assms by (simp add: handle_cache_invalidate_def handle_invalidation_def Let_def invalidated_state_def
      set_state_def update_triv split: cache_state.splits) auto

theorem invalidate_endpoint_keeps_block_witness:
  "handle_cache_invalidate ''a'' ''k'' (sample_cache\<lparr>cache := [(''k'', new_block ''a'' 0 ''k'' (JInt 1) EXCLUSIVE 60)]\<rparr>)
     = (Response 200 [(''key'', JStr ''k''), (''status'', JStr ''invalidated'')],
        sample_cache\<lparr>cache := [(''k'', new_block ''a'' 0 ''k'' (JInt 1) EXCLUSIVE 60)]\<rparr>)"
  using invalidate_endpoint_keeps_block[of "sample_cache\<lparr>cache := [(''k'', new_block ''a'' 0 ''k'' (JInt 1) EXCLUSIVE 60)]\<rparr>"
      "''k''" "new_block ''a'' 0 ''k'' (JInt 1) EXCLUSIVE 60"]
  by (simp add: sample_cache_empty)

section \<open>A lock from acquire to release\<close>

text \<open>On a serving leader the commits are synchronous for every service of the node.\<close>

lemma node_call:
  assumes "serving send n" and "\<And>e. le_command e = c \<Longrightarrow> le_data e = d \<Longrightarrow> run_callbacks (node_callbacks now) e s = (None, s')"
  shows "\<exists>n'. serving send n' \<and> node_append send now c d (n, s) = (Inr True, (n', s'))"
proof -
  have "run_callbacks (node_callbacks now) (new_entry n c d) s = (None, s')" by (rule assms(2)) simp_all
  with serving_append[OF assms(1), of c d "node_callbacks now" now s] show ?thesis by auto
qed

lemmas node_callback_defs = node_callbacks_def on_locks_def on_queue_def on_cache_def other_commands

interpretation node_lock_direct: direct_append "lock_append send now" "lm_handle_commit now"
    "\<lambda>r. serving send (fst r)" "{''LOCK_ACQUIRE'', ''LOCK_RELEASE''}" for send now
proof (unfold_locales, goal_cases)
  case (1 r c d l l')
  obtain n q mc where r: "r = (n, q, mc)" by (metis prod_cases3)
  let ?s = "\<lparr>sv_locks = l, sv_queue = q, sv_cache = mc\<rparr>"
  have "run_callbacks (node_callbacks now) e ?s = (None, ?s\<lparr>sv_locks := l'\<rparr>)" if "le_command e = c" "le_data e = d" for e
    using 1(2) 1(3)[OF that] that by (auto simp: node_callback_defs)
  from node_call[where n = n and send = send and c = c and d = d, OF _ this] 1(1) r show ?case
    by (auto simp: lock_append_def lock_unview_def lock_view_def)
qed

interpretation node_queue_direct: direct_queue "queue_append send now" now
    "\<lambda>r. serving send (fst r)" "{''QUEUE_PUBLISH'', ''QUEUE_ACK''}" for send now
proof (unfold_locales, goal_cases)
  case (1 r c d q q')
  obtain n l mc where r: "r = (n, l, mc)" by (metis prod_cases3)
  let ?s = "\<lparr>sv_locks = l, sv_queue = q, sv_cache = mc\<rparr>"
  have "run_callbacks (node_callbacks now) e ?s = (None, ?s\<lparr>sv_queue := q'\<rparr>)" if "le_command e = c" "le_data e = d" for e
    using 1(2) 1(3)[OF that] that by (auto simp: node_callback_defs)
  from node_call[where n = n and send = send and c = c and d = d, OF _ this] 1(1) r show ?case
    by (auto simp: queue_append_def queue_unview_def queue_view_of_def)
qed simp

interpretation node_cache_direct: direct_cache "cache_append send now" now "\<lambda>r. serving send (fst r)"
    "{''CACHE_PUT'', ''CACHE_INVALIDATE'', ''CACHE_INVALIDATE_ALL'', ''CACHE_ACQUIRE_EXCLUSIVE''}" for send now
proof (unfold_locales, goal_cases)
  case (1 r c d mc mc')
  obtain n l q where r: "r = (n, l, q)" by (metis prod_cases3)
  let ?s = "\<lparr>sv_locks = l, sv_queue = q, sv_cache = mc\<rparr>"
  have "run_callbacks (node_callbacks now) e ?s = (None, ?s\<lparr>sv_cache := mc'\<rparr>)" if "le_command e = c" "le_data e = d" for e
    using 1(2) 1(3)[OF that] that by (auto simp: node_callback_defs)
  from node_call[where n = n and send = send and c = c and d = d, OF _ this] 1(1) r show ?case
    by (auto simp: cache_append_def cache_unview_def cache_view_def)
qed simp

lemma lm_commit_cong:
  "le_command e = le_command e' \<Longrightarrow> le_data e = le_data e' \<Longrightarrow> lm_handle_commit now e l = lm_handle_commit now e' l"
  by (simp add: lm_handle_commit_def)

lemma lock_call:
  assumes "serving send n" and "lm_handle_commit now (new_entry n c d) (sv_locks s) = (None, l)"
    and "c \<in> {''LOCK_ACQUIRE'', ''LOCK_RELEASE''}"
  shows "\<exists>n'. serving send n' \<and> lock_append send now c d (lock_view (n, s)) = (Inr True, lock_view (n', s\<lparr>sv_locks := l\<rparr>))"
proof -
  have "run_callbacks (node_callbacks now) e s = (None, s\<lparr>sv_locks := l\<rparr>)" if "le_command e = c" "le_data e = d" for e
    using assms(3) assms(2) lm_commit_cong[of e "new_entry n c d" now "sv_locks s"] that
    by (auto simp: node_callback_defs)
  from node_call[where c = c and d = d, OF assms(1) this] show ?thesis by (auto simp: lock_append_def)
qed

text \<open>C21: End to end on a leader that a quorum acknowledges (or that has no peers): an acquire request for a resource whose lock is free is
  answered with status 200 and the lock identifier, the release request for that identifier is
  answered \<open>released\<close>, and the lock table is then what it was before.\<close>

theorem http_lock_cycle:
  assumes "serving send n" and "try_acquire res LOCK_EXCLUSIVE (sv_locks s)" and "\<not> dict_has (locks (sv_locks s)) lid"
    and "res \<noteq> []" and "client \<noteq> []" and "lid \<noteq> []"
  shows "\<exists>w1 w2.
     handle_lock_acquire (lock_append send now) env clock start fuel lid
       [(''resource'', JStr res), (''client_id'', JStr client)] (lock_view (n, s))
     = (Some (Response 200 [(''lock_id'', JStr lid), (''resource'', JStr res),
          (''lock_type'', JStr ''exclusive''), (''status'', JStr ''acquired'')]), w1)
   \<and> handle_lock_release (lock_append send now) [(''lock_id'', JStr lid)] w1
     = (Response 200 [(''lock_id'', JStr lid), (''status'', JStr ''released'')], w2)
   \<and> dict_has (locks (snd w1)) lid \<and> locks (snd w2) = locks (sv_locks s)"
proof -
  let ?d = "acquire_data lid res client LOCK_EXCLUSIVE 30"
  let ?l = "\<lparr>lk_lock_id = lid, lk_resource = res, lk_owner = client, lk_lock_type = LOCK_EXCLUSIVE,
     lk_acquired_at = now, lk_ttl = 30\<rparr>"
  obtain l1 where l1: "lm_handle_commit now (new_entry n ''LOCK_ACQUIRE'' ?d) (sv_locks s) = (None, l1)"
    "locks l1 = dict_set (locks (sv_locks s)) lid ?l"
    by (simp add: lm_handle_commit_def Let_def)
  obtain n1 where n1: "serving send n1" "lock_append send now ''LOCK_ACQUIRE'' ?d (lock_view (n, s))
      = (Inr True, lock_view (n1, s\<lparr>sv_locks := l1\<rparr>))" using lock_call[OF assms(1) l1(1)] by auto
  have has: "dict_has (locks l1) lid" by (simp add: l1(2) dict_has_set)
  let ?s1 = "s\<lparr>sv_locks := l1\<rparr>"
  let ?l2 = "l1\<lparr>locks := dict_del (locks l1) lid\<rparr>"
  have "lm_handle_commit now (new_entry n1 ''LOCK_RELEASE'' [(''lock_id'', JStr lid)]) (sv_locks ?s1) = (None, ?l2)"
    using has by (simp add: lm_handle_commit_def item_defs)
  from lock_call[OF n1(1) this] obtain n2 where
    n2: "lock_append send now ''LOCK_RELEASE'' [(''lock_id'', JStr lid)] (lock_view (n1, ?s1))
      = (Inr True, lock_view (n2, ?s1\<lparr>sv_locks := ?l2\<rparr>))" by auto
  have acq: "acquire_lock (lock_append send now) env clock start fuel res LOCK_EXCLUSIVE client lid 30 (lock_view (n, s))
      = (Some (Some lid), lock_view (n1, ?s1))"
    using assms(2) n1(2) by (simp add: acquire_lock_def)
  have rel: "release_lock (lock_append send now) lid (lock_view (n1, ?s1)) = (Inr True, lock_view (n2, ?s1\<lparr>sv_locks := ?l2\<rparr>))"
    using has n2 by (simp add: release_lock_def)
  have excl: "lock_type_of ''exclusive'' = Inr LOCK_EXCLUSIVE"
    using lock_type_roundtrip[of LOCK_EXCLUSIVE] by simp
  have "locks (sv_locks (?s1\<lparr>sv_locks := ?l2\<rparr>)) = locks (sv_locks s)"
    using assms(3) by (simp add: l1(2) delete_update_same dict_has_iff)
  moreover have "handle_lock_acquire (lock_append send now) env clock start fuel lid
       [(''resource'', JStr res), (''client_id'', JStr client)] (lock_view (n, s))
     = (Some (Response 200 [(''lock_id'', JStr lid), (''resource'', JStr res),
          (''lock_type'', JStr ''exclusive''), (''status'', JStr ''acquired'')]), lock_view (n1, ?s1))"
    using acq assms(4-6) excl by (simp add: handle_lock_acquire_def field_def field_or_def truthy_def)
  moreover have "handle_lock_release (lock_append send now) [(''lock_id'', JStr lid)] (lock_view (n1, ?s1))
     = (Response 200 [(''lock_id'', JStr lid), (''status'', JStr ''released'')], lock_view (n2, ?s1\<lparr>sv_locks := ?l2\<rparr>))"
    using rel assms(6) by (simp add: handle_lock_release_def field_def truthy_def)
  ultimately show ?thesis using has
    by (intro exI[of _ "lock_view (n1, ?s1)"] exI[of _ "lock_view (n2, ?s1\<lparr>sv_locks := ?l2\<rparr>)"]) simp
qed

theorem http_lock_cycle_witness:
  "\<exists>w1 w2. handle_lock_acquire (lock_append always_yes 0) (\<lambda>k v. v) (\<lambda>k. 0) 0 0 ''id1''
       [(''resource'', JStr ''r''), (''client_id'', JStr ''c'')] (lock_view (serving_leader, sample_services))
     = (Some (Response 200 [(''lock_id'', JStr ''id1''), (''resource'', JStr ''r''),
          (''lock_type'', JStr ''exclusive''), (''status'', JStr ''acquired'')]), w1)
   \<and> handle_lock_release (lock_append always_yes 0) [(''lock_id'', JStr ''id1'')] w1
     = (Response 200 [(''lock_id'', JStr ''id1''), (''status'', JStr ''released'')], w2)"
  using http_lock_cycle[OF serving_leader_serving, where res = "''r''" and client = "''c''" and lid = "''id1''"
      and s = sample_services and now = 0 and env = "\<lambda>k v. v" and clock = "\<lambda>k. 0"
      and start = 0 and fuel = 0]
  by (auto simp: sample_services_def init_services_def init_lock_manager_def try_acquire_def
      get_locks_for_resource_def dict_has_def)

end
