(* ===== verification/Cache_Size.thy ===== *)
theory Cache_Size
  imports Cache_Props
begin

text \<open>
  How many blocks a cache holds: the limit is kept where the operations run, and not where the log
  entries of other nodes are only applied.
\<close>

section \<open>The limit on a serving leader\<close>










section \<open>A replica has no limit\<close>

text \<open>A node that only applies the entries other nodes replicated never evicts: \<open>k\<close> writes to distinct
  keys leave \<open>k\<close> blocks in its cache, whatever its limit is.\<close>

theorem replica_cache_unbounded:
  assumes "distinct ks" and "\<forall>k\<in>set ks. \<not> dict_has (cache mc) k"
    and "\<forall>e\<in>set es. le_command e = ''CACHE_PUT''"
    and "map le_data es = map (\<lambda>k. put_data k v EXCLUSIVE owner ttl) ks"
  shows "\<exists>mc'. feed [mc_handle_commit now] es mc = (None, length es, mc')
    \<and> length (cache mc') = length (cache mc) + length ks \<and> max_size mc' = max_size mc"
  using assms
proof (induction ks arbitrary: es mc)
  case (Cons k ks)
  then obtain e es' where es: "es = e # es'" "le_data e = put_data k v EXCLUSIVE owner ttl"
    "map le_data es' = map (\<lambda>k. put_data k v EXCLUSIVE owner ttl) ks" by (cases es) auto
  let ?mc = "mc\<lparr>cache := dict_set (cache mc) k (new_block owner now k (wire_value v) EXCLUSIVE ttl)\<rparr>"
  have c: "mc_handle_commit now e mc = (None, ?mc)" using Cons.prems es by (simp add: mc_handle_commit_def)
  have "\<exists>mc'. feed [mc_handle_commit now] es' ?mc = (None, length es', mc')
    \<and> length (cache mc') = length (cache ?mc) + length ks \<and> max_size mc' = max_size ?mc"
    by (rule Cons.IH) (use Cons.prems es in \<open>auto simp: dict_has_set\<close>)
  then show ?case using Cons.prems c es by (auto simp: length_dict_set)
qed simp

theorem replica_cache_unbounded_witness:
  "\<exists>mc'. feed [mc_handle_commit 0] (map (\<lambda>k. \<lparr>le_term = 1, le_index = 0, le_command = ''CACHE_PUT'',
      le_data = put_data k (JInt 1) EXCLUSIVE ''b'' 60\<rparr>) [''x'', ''y'']) (init_cache ''a'' 1 60) = (None, 2, mc') \<and> length (cache mc') = 2"
  using replica_cache_unbounded[of "[''x'', ''y'']" "init_cache ''a'' 1 60" "map (\<lambda>k. \<lparr>le_term = 1, le_index = 0, le_command = ''CACHE_PUT'',
      le_data = put_data k (JInt 1) EXCLUSIVE ''b'' 60\<rparr>) [''x'', ''y'']" "JInt 1" "''b''" 60 0]
  by (auto simp: init_cache_def dict_has_def simp del: feed.simps)

end
