(* ===== verification/App_Cycles.thy ===== *)
theory App_Cycles
  imports App_Props Cache_Size
begin

text \<open>
  Messages and cached values end to end: what a client of the HTTP interface reads after it wrote,
  with every request going through the composed node.
\<close>

section \<open>A message from publish to acknowledgement\<close>

lemma consume_one:
  assumes "unacked (partition_of q (get_partition h topic)) = ms"
  shows "fst (consume h topic 1 q) = map bump (take 1 ms)" "dq_ring (snd (consume h topic 1 q)) = dq_ring q"
    "map qm_msg_id (partition_of (snd (consume h topic 1 q)) (get_partition h topic))
       = map qm_msg_id (partition_of q (get_partition h topic))"
    "queue_view (snd (consume h topic 1 q)) = queue_view q"
proof -
  obtain msgs q' where c: "consume h topic 1 q = (msgs, q')" by (cases "consume h topic 1 q")
  have v: "queue_view q' = queue_view q" by (rule consume_keeps_view[OF c])
  then have "map fst (queue_view q' p) = map fst (queue_view q p)" for p by simp
  then have "map qm_msg_id (partition_of q' (get_partition h topic)) = map qm_msg_id (partition_of q (get_partition h topic))"
    by (simp add: queue_view_def comp_def)
  then show "map qm_msg_id (partition_of (snd (consume h topic 1 q)) (get_partition h topic))
       = map qm_msg_id (partition_of q (get_partition h topic))" using c by simp
  show "queue_view (snd (consume h topic 1 q)) = queue_view q" using c v by simp
  show "fst (consume h topic 1 q) = map bump (take 1 ms)"
    using consume_messages[OF c] assms c by (simp add: py_take_def)
  show "dq_ring (snd (consume h topic 1 q)) = dq_ring q" by (simp add: consume_def Let_def)
qed

lemma handle_consume_one:
  assumes "topic \<noteq> []" and "consumer \<noteq> []"
  shows "handle_queue_consume h [(''topic'', JStr topic), (''consumer_id'', JStr consumer)] q
    = (Response 200 [(''topic'', JStr topic), (''consumer_id'', JStr consumer),
         (''messages'', JArr (map (\<lambda>m. JObj [(''msg_id'', JStr (qm_msg_id m)), (''payload'', qm_payload m),
            (''delivery_count'', JInt (qm_delivery_count m))]) (fst (consume h topic 1 q))))], snd (consume h topic 1 q))"
  using assms by (simp add: handle_queue_consume_def batch_of_def field_def field_or_def truthy_def split: prod.split)

text \<open>C22: End to end on a leader that a quorum acknowledges (or that has no peers), for a topic with no waiting message: a publish request is
  answered with the identifier, a consume request then gets exactly this message with its payload and
  delivery count 1, acknowledging it is answered \<open>acked\<close>, and a further consume request gets nothing.\<close>

theorem http_queue_cycle:
  assumes "serving send n" and "ring_built h (dq_ring (sv_queue s))"
    and "get_queue_depth h topic (sv_queue s) = 0"
    and "topic \<noteq> []" and "mid \<noteq> []" and "consumer \<noteq> []"
  shows "\<exists>w1 q2 w3 q4.
     handle_queue_publish h (queue_append send now) mid [(''topic'', JStr topic), (''payload'', v)] (queue_view_of (n, s))
       = (Response 200 [(''msg_id'', JStr mid), (''topic'', JStr topic), (''status'', JStr ''published'')], w1)
   \<and> handle_queue_consume h [(''topic'', JStr topic), (''consumer_id'', JStr consumer)] (snd w1)
       = (Response 200 [(''topic'', JStr topic), (''consumer_id'', JStr consumer),
            (''messages'', JArr [JObj [(''msg_id'', JStr mid), (''payload'', wire_payload v), (''delivery_count'', JInt 1)]])], q2)
   \<and> handle_queue_ack (queue_append send now) [(''msg_id'', JStr mid), (''consumer_id'', JStr consumer)] (fst w1, q2)
       = (Response 200 [(''msg_id'', JStr mid), (''status'', JStr ''acked'')], w3)
   \<and> handle_queue_consume h [(''topic'', JStr topic), (''consumer_id'', JStr consumer)] (snd w3)
       = (Response 200 [(''topic'', JStr topic), (''consumer_id'', JStr consumer), (''messages'', JArr [])], q4)"
proof -
  let ?pid = "get_partition h topic" and ?q = "sv_queue s"
  let ?m = "\<lparr>qm_msg_id = mid, qm_payload = wire_payload v, qm_partition_id = ?pid,
         qm_timestamp = now, qm_acked = False, qm_delivery_count = 0\<rparr>"
  let ?q1 = "store_message ?m ?q"
  let ?q2 = "snd (consume h topic 1 ?q1)"
  let ?q3 = "ack_message mid (note_ack mid consumer ?q2)"
  obtain r where view: "queue_view_of (n, s) = (r, ?q)" "serving send (fst r)" using assms(1)
    by (auto simp: queue_view_of_def)
  obtain r1 where 1: "serving send (fst r1)"
    "publish h (queue_append send now) mid topic v (r, ?q) = (Inr (Some mid), (r1, ?q1))"
    using node_queue_direct.publish_result[OF view(2) assms(2), of now mid topic v] by blast
  have none: "unacked (partition_of ?q ?pid) = []" using assms(3) by (simp add: get_queue_depth_unacked)
  then have one: "unacked (partition_of ?q1 ?pid) = [?m]" by (simp add: partition_store)
  have c1: "fst (consume h topic 1 ?q1) = [bump ?m]" using consume_one(1)[OF one] by simp
  have "(\<forall>x\<in>set (queue_view ?q1 ?pid). snd (snd x) \<or> fst x = mid)"
    using none by (auto simp: queue_view_def partition_store filter_empty_conv)
  then have "\<forall>m\<in>set (partition_of ?q2 ?pid). qm_acked m \<or> qm_msg_id m = mid"
    unfolding consume_one(4)[OF one, symmetric] by (auto simp: queue_view_def)
  then have none3: "unacked (partition_of ?q3 ?pid) = []"
    by (auto simp: partition_ack filter_empty_conv)
  have c3: "fst (consume h topic 1 ?q3) = []" using consume_one(1)[OF none3] by simp
  obtain r3 where 3: "acknowledge (queue_append send now) mid consumer (r1, ?q2) = (Inr True, (r3, ?q3))"
    using node_queue_direct.ack_result[OF 1(1), of now mid consumer ?q2] by blast
  have h2: "handle_queue_consume h [(''topic'', JStr topic), (''consumer_id'', JStr consumer)] ?q1
       = (Response 200 [(''topic'', JStr topic), (''consumer_id'', JStr consumer),
            (''messages'', JArr [JObj [(''msg_id'', JStr mid), (''payload'', wire_payload v), (''delivery_count'', JInt 1)]])], ?q2)"
    and h4: "handle_queue_consume h [(''topic'', JStr topic), (''consumer_id'', JStr consumer)] ?q3
       = (Response 200 [(''topic'', JStr topic), (''consumer_id'', JStr consumer), (''messages'', JArr [])], snd (consume h topic 1 ?q3))"
    by (simp_all only: handle_consume_one[OF assms(4,6)] c1 c3 list.map) (simp add: bump_def)
  have h1: "handle_queue_publish h (queue_append send now) mid [(''topic'', JStr topic), (''payload'', v)] (queue_view_of (n, s))
       = (Response 200 [(''msg_id'', JStr mid), (''topic'', JStr topic), (''status'', JStr ''published'')], (r1, ?q1))"
    using 1(2) view(1) assms(4,5) by (simp add: handle_queue_publish_def field_def truthy_def)
  have h3: "handle_queue_ack (queue_append send now) [(''msg_id'', JStr mid), (''consumer_id'', JStr consumer)] (r1, ?q2)
       = (Response 200 [(''msg_id'', JStr mid), (''status'', JStr ''acked'')], (r3, ?q3))"
    using 3 assms(5,6) by (simp add: handle_queue_ack_def field_def truthy_def)
  show ?thesis
    by (rule exI[of _ "(r1, ?q1)"], rule exI[of _ ?q2], rule exI[of _ "(r3, ?q3)"], rule exI) (simp add: h1 h2 h3 h4)
qed

lemma sample_services_queue: "sv_queue sample_services = init_queue sample_hash ''a'' [] 2 True"
  by (simp add: sample_services_def init_services_def)

theorem http_queue_cycle_witness:
  "\<exists>w1 q2 m. handle_queue_publish sample_hash (queue_append always_yes 0) ''m1''
       [(''topic'', JStr ''t''), (''payload'', JInt 7)] (queue_view_of (serving_leader, sample_services))
     = (Response 200 [(''msg_id'', JStr ''m1''), (''topic'', JStr ''t''), (''status'', JStr ''published'')], w1)
   \<and> handle_queue_consume sample_hash [(''topic'', JStr ''t''), (''consumer_id'', JStr ''c'')] (snd w1)
     = (Response 200 [(''topic'', JStr ''t''), (''consumer_id'', JStr ''c''), (''messages'', JArr [m])], q2)"
proof -
  have "ring_built sample_hash (dq_ring (sv_queue sample_services))"
    using sample_services_wf by (simp add: services_wf_def dq_wf_def)
  moreover have "get_queue_depth sample_hash ''t'' (sv_queue sample_services) = 0"
    by (simp add: get_queue_depth_unacked sample_services_queue init_queue_def partition_of_def)
  ultimately show ?thesis
    using http_queue_cycle[OF serving_leader_serving, where h = sample_hash and s = sample_services
        and topic = "''t''" and mid = "''m1''" and consumer = "''c''" and now = 0 and v = "JInt 7"]
    by fastforce
qed

section \<open>A value from put to get\<close>

text \<open>C23: End to end on a leader that a quorum acknowledges (or that has no peers): a put request for a key, with room in the cache, is
  answered \<open>cached\<close>, and until its time to live is over (zero: for ever) a get request is answered
  with the value; except that the value null is stored and then reported as a missing key.\<close>

theorem http_cache_cycle:
  assumes "serving send n" and "key \<noteq> []" and "int (length (cache (sv_cache s)) + 1) \<le> max_size (sv_cache s)"
    and "default_ttl (sv_cache s) = 0 \<or> t' - t \<le> default_ttl (sv_cache s)"
  shows "\<exists>w1 w2.
     handle_cache_put (cache_append send now) t [(''key'', JStr key), (''value'', v)] (cache_view (n, s))
       = (Response 200 [(''key'', JStr key), (''status'', JStr ''cached'')], w1)
   \<and> handle_cache_get (cache_append send now) t' key w1
       = (if v = JNull then error_response 404 ''Key not found''
          else Response 200 [(''key'', JStr key), (''value'', v)], w2)"
proof -
  let ?mc = "sv_cache s" let ?ttl = "default_ttl ?mc"
  obtain r where view: "cache_view (n, s) = (r, ?mc)" "serving send (fst r)" using assms(1)
    by (auto simp: cache_view_def)
  have len: "int (length (dict_set (cache ?mc) key b)) \<le> max_size ?mc" for b
    using assms(3) length_dict_set[where d = "cache ?mc" and k = key and v = b] by (auto split: if_splits)
  obtain r1 mc1 st where 1: "serving send (fst r1)" "cache_put (cache_append send now) t key v None (r, ?mc) = (Inr True, (r1, mc1))"
    "cache mc1 = dict_set (cache ?mc) key (new_block (mc_node_id ?mc) t key v st ?ttl)" "st \<noteq> INVALID"
    using node_cache_direct.put_result[OF view(2), where now = now and t = t and key = key and v = v
        and ttl_arg = None and mc = ?mc] len
    by (auto simp: Let_def split: if_splits)
  have found: "map_of (cache mc1) key = Some (new_block (mc_node_id ?mc) t key v st ?ttl)"
    by (simp add: 1(3) update_conv')
  have fresh: "\<not> expired t' (new_block (mc_node_id ?mc) t key v st ?ttl)" using assms(4) by (auto simp: expired_def)
  obtain w2 where 2: "cache_get (cache_append send now) t' key (r1, mc1) = (Inr v, w2)"
    using node_cache_direct.get_result[OF 1(1), where now = now and t = t' and key = key and mc = mc1]
      found fresh 1(4) by auto
  show ?thesis
    by (rule exI[of _ "(r1, mc1)"], rule exI[of _ w2])
      (use 1(2) 2 view(1) assms(2) in \<open>simp add: handle_cache_put_def handle_cache_get_def field_def truthy_def\<close>)
qed

theorem http_cache_cycle_witness:
  "\<exists>w1 w2. handle_cache_put (cache_append always_yes 0) 0 [(''key'', JStr ''k''), (''value'', JInt 5)]
       (cache_view (serving_leader, sample_services))
     = (Response 200 [(''key'', JStr ''k''), (''status'', JStr ''cached'')], w1)
   \<and> handle_cache_get (cache_append always_yes 0) 60 ''k'' w1 = (Response 200 [(''key'', JStr ''k''), (''value'', JInt 5)], w2)"
proof -
  have "cache (sv_cache sample_services) = []" "max_size (sv_cache sample_services) = 10" "default_ttl (sv_cache sample_services) = 60"
    by (simp_all add: sample_services_def init_services_def init_cache_def)
  then show ?thesis
    using http_cache_cycle[OF serving_leader_serving, where key = "''k''" and s = sample_services and t = 0 and t' = 60
        and now = 0 and v = "JInt 5"] by simp
qed

end
