(* ===== verification/App_Dispatch.thy ===== *)
theory App_Dispatch
  imports Node_Config Node_Typing App_Cycles
begin

text \<open>
  \<^verbatim>\<open>src/app.py\<close>, a request from the middleware to its handler: the routing table of \<open>_setup_routes\<close>
  and the whole node as one function from a request to a response and the node afterwards. How a
  path matches a route (\<open>{name}\<close> stands for one segment) is the documented behaviour of aiohttp.
\<close>

datatype http_method = GET | POST

datatype endpoint =
    EHealth | EReadyz | EStatus | ELockAcquire | ELockRelease | ELockStatus
  | EQueuePublish | EQueueConsume | EQueueAck | ECacheGet | ECachePut | ECacheInvalidate
  | EMetrics | ERaftInfo | ERaftMessage
  | EEncrypt | EDecrypt | EAuthorize | EAudit | EPbftCommit | EPbftStatus | EGeoReplicate | EGeoStatus
  | EBalanceChoose | EBalanceFeedback | EBalanceStatus

definition routes :: "(http_method \<times> string \<times> endpoint) list" where
  "routes =
     [(GET, ''/health'', EHealth), (GET, ''/readyz'', EReadyz), (GET, ''/status'', EStatus),
      (POST, ''/lock/acquire'', ELockAcquire), (POST, ''/lock/release'', ELockRelease),
      (GET, ''/lock/status/{resource}'', ELockStatus),
      (POST, ''/queue/publish'', EQueuePublish), (POST, ''/queue/consume'', EQueueConsume),
      (POST, ''/queue/ack'', EQueueAck),
      (GET, ''/cache/get/{key}'', ECacheGet), (POST, ''/cache/put'', ECachePut),
      (POST, ''/cache/invalidate/{key}'', ECacheInvalidate),
      (GET, ''/metrics'', EMetrics), (GET, ''/raft/info'', ERaftInfo), (POST, ''/raft/message'', ERaftMessage),
      (POST, ''/security/encrypt'', EEncrypt), (POST, ''/security/decrypt'', EDecrypt),
      (POST, ''/security/authorize'', EAuthorize), (GET, ''/security/audit'', EAudit),
      (POST, ''/bonus/pbft/commit'', EPbftCommit), (GET, ''/bonus/pbft/status'', EPbftStatus),
      (POST, ''/bonus/geo/replicate'', EGeoReplicate), (GET, ''/bonus/geo/status'', EGeoStatus),
      (POST, ''/bonus/load-balance/choose'', EBalanceChoose),
      (POST, ''/bonus/load-balance/feedback'', EBalanceFeedback),
      (GET, ''/bonus/load-balance/status'', EBalanceStatus)]"

text \<open>The variable part of the path when the route matches.\<close>

definition match_route :: "string \<Rightarrow> string \<Rightarrow> string option" where
  "match_route pattern path =
     (let fixed = takeWhile (\<lambda>c. c \<noteq> CHR ''{'') pattern; rest = drop (length fixed) path in
      if take (length fixed) path \<noteq> fixed then None
      else if fixed = pattern then (if rest = [] then Some [] else None)
      else if rest \<noteq> [] \<and> CHR ''/'' \<notin> set rest then Some rest else None)"

fun find_route :: "(http_method \<times> string \<times> endpoint) list \<Rightarrow> http_method \<Rightarrow> string \<Rightarrow> (endpoint \<times> string) option" where
  "find_route [] m path = None"
| "find_route ((m', pattern, e) # rs) m path =
     (case match_route pattern path of
        Some arg \<Rightarrow> if m' = m then Some (e, arg) else find_route rs m path
      | None \<Rightarrow> find_route rs m path)"

text \<open>The documented \<^verbatim>\<open>GET /bonus/geo/route\<close> has no handler.\<close>

lemma geo_route_missing: "find_route routes GET ''/bonus/geo/route'' = None"
  by code_simp

section \<open>The node as a function of requests\<close>

type_synonym lock_world = "(raft_node \<times> distributed_queue \<times> moesi_cache) \<times> lock_manager"

text \<open>Everything a request handler takes from outside the program.\<close>

record outside =
  o_hash :: "string \<Rightarrow> nat"
  o_send :: "string \<Rightarrow> message \<Rightarrow> message option"
  o_now :: rat
  o_uuid :: string
  o_env :: "nat \<Rightarrow> lock_world \<Rightarrow> lock_world"
  o_clock :: "nat \<Rightarrow> rat"
  o_fuel :: nat
  o_digest :: "string \<Rightarrow> byte list"
  o_sha :: "string \<Rightarrow> string"
  o_dumps :: "json \<Rightarrow> string"
  o_minify :: "json \<Rightarrow> string"
  o_canon :: "json \<Rightarrow> string"
  o_loads :: "string \<Rightarrow> json option"
  o_py_int :: "string \<Rightarrow> int result"
  o_py_float :: "string \<Rightarrow> rat result"
  o_isoformat :: "rat \<Rightarrow> string"
  o_fromiso :: "string \<Rightarrow> rat result"
  o_percent :: "rat \<Rightarrow> string"

definition on_lock_view :: "(lock_world \<Rightarrow> 'a \<times> lock_world) \<Rightarrow> distributed_node \<Rightarrow> 'a \<times> distributed_node" where
  "on_lock_view f d = (case f (lock_view (dn_raft d, dn_services d)) of (r, v) \<Rightarrow>
     (r, d\<lparr>dn_raft := fst (lock_unview v), dn_services := snd (lock_unview v)\<rparr>))"

definition on_queue_view where
  "on_queue_view f d = (case f (queue_view_of (dn_raft d, dn_services d)) of (r, v) \<Rightarrow>
     (r, d\<lparr>dn_raft := fst (queue_unview v), dn_services := snd (queue_unview v)\<rparr>))"

definition on_cache_view where
  "on_cache_view f d = (case f (cache_view (dn_raft d, dn_services d)) of (r, v) \<Rightarrow>
     (r, d\<lparr>dn_raft := fst (cache_unview v), dn_services := snd (cache_unview v)\<rparr>))"

definition answer :: "response \<times> 'a \<Rightarrow> ('a \<Rightarrow> distributed_node) \<Rightarrow> response option \<times> distributed_node" where
  "answer r put = (Some (fst r), put (snd r))"

text \<open>\<open>None\<close> as response: the lock request is still waiting when the given number of turns is used up.\<close>

fun handle :: "outside \<Rightarrow> endpoint \<Rightarrow> string \<Rightarrow> jdict \<Rightarrow> distributed_node \<Rightarrow> response option \<times> distributed_node" where
  "handle x EHealth arg data d = (Some (handle_health (o_isoformat x (o_now x)) (dn_raft d)), d)"
| "handle x EReadyz arg data d = (Some (handle_readyz (dn_raft d)), d)"
| "handle x EStatus arg data d = (Some (handle_status (o_isoformat x (o_now x)) (dn_raft d)), d)"
| "handle x ELockAcquire arg data d = on_lock_view (handle_lock_acquire (lock_append (o_send x) (o_now x))
     (o_env x) (o_clock x) (o_now x) (o_fuel x) (o_uuid x) data) d"
| "handle x ELockRelease arg data d =
     map_prod Some id (on_lock_view (handle_lock_release (lock_append (o_send x) (o_now x)) data) d)"
| "handle x ELockStatus arg data d = (Some (handle_lock_status (o_isoformat x) arg (sv_locks (dn_services d))), d)"
| "handle x EQueuePublish arg data d =
     map_prod Some id (on_queue_view (handle_queue_publish (o_hash x) (queue_append (o_send x) (o_now x)) (o_uuid x) data) d)"
| "handle x EQueueConsume arg data d =
     answer (handle_queue_consume (o_hash x) data (sv_queue (dn_services d)))
       (\<lambda>q. d\<lparr>dn_services := (dn_services d)\<lparr>sv_queue := q\<rparr>\<rparr>)"
| "handle x EQueueAck arg data d =
     map_prod Some id (on_queue_view (handle_queue_ack (queue_append (o_send x) (o_now x)) data) d)"
| "handle x ECacheGet arg data d =
     map_prod Some id (on_cache_view (handle_cache_get (cache_append (o_send x) (o_now x)) (o_now x) arg) d)"
| "handle x ECachePut arg data d =
     map_prod Some id (on_cache_view (handle_cache_put (cache_append (o_send x) (o_now x)) (o_now x) data) d)"
| "handle x ECacheInvalidate arg data d =
     answer (handle_cache_invalidate (node_id (dn_raft d)) arg (sv_cache (dn_services d)))
       (\<lambda>c. d\<lparr>dn_services := (dn_services d)\<lparr>sv_cache := c\<rparr>\<rparr>)"
| "handle x EMetrics arg data d =
     (Some (handle_metrics (o_percent x) (o_isoformat x (o_now x)) (dn_raft d, dn_services d)), d)"
| "handle x ERaftInfo arg data d = (Some (handle_raft_info (dn_raft d)), d)"
| "handle x ERaftMessage arg data d =
     answer (handle_raft_message (o_isoformat x) (o_fromiso x) (node_callbacks (o_now x)) (o_now x) data
         (dn_raft d, dn_services d))
       (\<lambda>w. d\<lparr>dn_raft := fst w, dn_services := snd w\<rparr>)"
| "handle x EEncrypt arg data d =
     answer (handle_encrypt (o_digest x) (o_dumps x) (o_minify x) (o_sha x) (o_canon x) (o_isoformat x (o_now x))
       data (dn_security d)) (\<lambda>s. d\<lparr>dn_security := s\<rparr>)"
| "handle x EDecrypt arg data d =
     answer (handle_decrypt (o_digest x) (o_loads x) (o_sha x) (o_canon x) (o_isoformat x (o_now x))
       data (dn_security d)) (\<lambda>s. d\<lparr>dn_security := s\<rparr>)"
| "handle x EAuthorize arg data d =
     answer (handle_authorize (o_sha x) (o_canon x) (o_isoformat x (o_now x)) data (dn_security d))
       (\<lambda>s. d\<lparr>dn_security := s\<rparr>)"
| "handle x EAudit arg data d = (Some (handle_audit (dn_security d)), d)"
| "handle x EPbftCommit arg data d =
     answer (handle_pbft_commit (o_py_int x) (o_uuid x) data (dn_pbft d)) (\<lambda>p. d\<lparr>dn_pbft := p\<rparr>)"
| "handle x EPbftStatus arg data d = (Some (handle_pbft_status (dn_pbft d)), d)"
| "handle x EGeoReplicate arg data d =
     answer (handle_geo_replicate (o_isoformat x (o_now x)) data (dn_geo d)) (\<lambda>g. d\<lparr>dn_geo := g\<rparr>)"
| "handle x EGeoStatus arg data d = (Some (handle_geo_status (dn_geo d)), d)"
| "handle x EBalanceChoose arg data d =
     answer (handle_balance_choose (o_py_float x) (o_isoformat x (o_now x)) data (dn_balancer d))
       (\<lambda>b. d\<lparr>dn_balancer := b\<rparr>)"
| "handle x EBalanceFeedback arg data d =
     answer (handle_balance_feedback (o_py_float x) data (dn_balancer d)) (\<lambda>b. d\<lparr>dn_balancer := b\<rparr>)"
| "handle x EBalanceStatus arg data d = (Some (handle_balance_status (dn_balancer d)), d)"

section \<open>Request bodies\<close>

text \<open>
  The body is what \<open>request.json()\<close> gives: a JSON value or an exception. A handler that reads its body
  takes items of it, which only an object has: \<open>data.get\<close> of another value is an \<open>AttributeError\<close>, and
  \<open>data["message_type"]\<close> a \<open>TypeError\<close>. The handlers without a \<open>try\<close> pass the exception on; the others
  answer 500, after an audit record in the two that encrypt and decrypt.
\<close>

definition reads_body :: "endpoint \<Rightarrow> bool" where
  "reads_body e \<longleftrightarrow> e \<in> {ELockAcquire, ELockRelease, EQueuePublish, EQueueConsume, EQueueAck, ECachePut, ERaftMessage,
     EEncrypt, EDecrypt, EAuthorize, EPbftCommit, EGeoReplicate, EBalanceChoose, EBalanceFeedback}"

definition json_object :: "endpoint \<Rightarrow> json result \<Rightarrow> jdict result" where
  "json_object e body = (case body of Inl x \<Rightarrow> Inl x | Inr (JObj d) \<Rightarrow> Inr d
     | Inr _ \<Rightarrow> Inl (if e = ERaftMessage then TypeError ''message_type'' else AttributeError ''get''))"

text \<open>The \<open>except\<close> clause of a handler, for an exception before anything else happened.\<close>

definition except_clause :: "outside \<Rightarrow> endpoint \<Rightarrow> exn \<Rightarrow> distributed_node \<Rightarrow> response option \<times> distributed_node" where
  "except_clause x e err d =
     (if e \<in> {EAuthorize, EPbftCommit, EGeoReplicate, EBalanceChoose, EBalanceFeedback} then (Some (Unhandled err), d)
      else if e \<in> {EEncrypt, EDecrypt} then
        answer (crypto_except (o_sha x) (o_canon x) (o_isoformat x (o_now x))
            (if e = EEncrypt then ''encrypt'' else ''decrypt'') err (dn_security d))
          (\<lambda>s. d\<lparr>dn_security := s\<rparr>)
      else (Some (Failure 500 err), d))"

definition serve :: "outside \<Rightarrow> endpoint \<Rightarrow> string \<Rightarrow> json result \<Rightarrow> distributed_node \<Rightarrow> response option \<times> distributed_node" where
  "serve x e arg body d =
     (if reads_body e then
        (case json_object e body of Inl err \<Rightarrow> except_clause x e err d | Inr data \<Rightarrow> handle x e arg data d)
      else handle x e arg [] d)"

text \<open>One request: method, path, the header \<open>X-API-Key\<close> and the body.\<close>

definition node_request ::
  "outside \<Rightarrow> http_method \<Rightarrow> string \<Rightarrow> string option \<Rightarrow> json result \<Rightarrow> distributed_node \<Rightarrow> response option \<times> distributed_node" where
  "node_request x m path key body d =
     (case auth_middleware (dn_security d) path key of
        Some refused \<Rightarrow> (Some refused, d)
      | None \<Rightarrow> (case find_route routes m path of
                   None \<Rightarrow> (Some Unrouted, d)
                 | Some (e, arg) \<Rightarrow> serve x e arg body d))"

section \<open>Starting and stopping\<close>

text \<open>The connection to Redis and the HTTP server are outside; the background tasks that \<open>start\<close> creates
  (the deadlock detection and the election processor) are the turns \<open>deadlock_check\<close> and
  \<open>message_processor_turn\<close>.\<close>

definition node_start :: "distributed_node \<Rightarrow> distributed_node" where
  "node_start d = d\<lparr>dn_raft := raft_start (dn_raft d)\<rparr>"

definition node_stop :: "distributed_node \<Rightarrow> distributed_node" where
  "node_stop d = d\<lparr>dn_raft := raft_stop (dn_raft d)\<rparr>"

end
