(* ===== verification/App_System.thy ===== *)
theory App_System
  imports App_Dispatch
begin

text \<open>
  The node as a system: what a client without a key cannot touch, and what holds of a configured
  node whatever requests arrive, whatever its peers and its background tasks do.
\<close>

section \<open>Protected state\<close>

definition bonus_endpoint :: "endpoint \<Rightarrow> bool" where
  "bonus_endpoint e \<longleftrightarrow> e \<in> {EEncrypt, EDecrypt, EAuthorize, EAudit, EPbftCommit, EPbftStatus, EGeoReplicate,
     EGeoStatus, EBalanceChoose, EBalanceFeedback, EBalanceStatus}"

lemma find_route_in:
  "find_route rs m path = Some (e, arg) \<Longrightarrow> \<exists>pattern. (m, pattern, e) \<in> set rs \<and> match_route pattern path = Some arg"
  by (induction rs m path rule: find_route.induct) (auto split: option.splits if_splits)

lemma match_route_prefix:
  "match_route pattern path = Some arg \<Longrightarrow> \<exists>rest. path = takeWhile (\<lambda>c. c \<noteq> CHR ''{'') pattern @ rest"
  by (auto simp: match_route_def Let_def split: if_splits) (metis append_take_drop_id)+

lemma is_protected_append: "is_protected fixed \<Longrightarrow> is_protected (fixed @ rest)"
proof -
  have "take (length p) (fixed @ rest) = p" if "take (length p) fixed = p" for p
    using that by (metis append.assoc append_eq_conv_conj append_take_drop_id)
  then show "is_protected fixed \<Longrightarrow> is_protected (fixed @ rest)" unfolding is_protected_def by blast
qed

lemma routes_protected:
  "list_all (\<lambda>(m, pattern, e). bonus_endpoint e = is_protected (takeWhile (\<lambda>c. c \<noteq> CHR ''{'') pattern)) routes"
  by (simp add: routes_def bonus_endpoint_def is_protected_def protected_paths_def)

lemma bonus_route_protected:
  assumes "find_route routes m path = Some (e, arg)" and "bonus_endpoint e"
  shows "is_protected path"
proof -
  obtain pattern where p: "(m, pattern, e) \<in> set routes" "match_route pattern path = Some arg"
    using find_route_in[OF assms(1)] by blast
  then have "is_protected (takeWhile (\<lambda>c. c \<noteq> CHR ''{'') pattern)"
    using routes_protected assms(2) by (auto simp: list_all_iff)
  then show ?thesis using match_route_prefix[OF p(2)] is_protected_append by blast
qed

lemma other_endpoint_keeps:
  assumes "\<not> bonus_endpoint e"
  shows "dn_security (snd (handle x e arg data d)) = dn_security d" "dn_pbft (snd (handle x e arg data d)) = dn_pbft d"
    "dn_geo (snd (handle x e arg data d)) = dn_geo d" "dn_balancer (snd (handle x e arg data d)) = dn_balancer d"
  using assms by (cases e; simp add: bonus_endpoint_def on_lock_view_def on_queue_view_def on_cache_view_def answer_def
      split: prod.split)+

lemma other_serve_keeps:
  assumes "\<not> bonus_endpoint e"
  shows "dn_security (snd (serve x e arg body d)) = dn_security d" "dn_pbft (snd (serve x e arg body d)) = dn_pbft d"
    "dn_geo (snd (serve x e arg body d)) = dn_geo d" "dn_balancer (snd (serve x e arg body d)) = dn_balancer d"
  using assms other_endpoint_keeps[OF assms]
  by (auto simp: serve_def except_clause_def bonus_endpoint_def split: sum.split)

text \<open>C18: The routing table and the middleware together: with authentication on, a request without an
  accepted key never changes the security service (so neither its audit log), the PBFT log, the
  region records or the load balancer, whatever its method, path and body; and a request to a
  protected path changes nothing at all.\<close>

theorem no_key_no_bonus_change:
  assumes "auth_enabled (dn_security d)" and "\<not> accepted_key (dn_security d) key"
    and "node_request x m path key body d = (r, d')"
  shows "dn_security d' = dn_security d \<and> dn_pbft d' = dn_pbft d \<and> dn_geo d' = dn_geo d \<and> dn_balancer d' = dn_balancer d
    \<and> (is_protected path \<longrightarrow> d' = d)"
proof (cases "auth_middleware (dn_security d) path key")
  case (Some refused)
  then show ?thesis using assms(3) by (simp add: node_request_def)
next
  case None
  then have open_path: "\<not> is_protected path" using assms(1,2) by (simp add: middleware_passes)
  show ?thesis
  proof (cases "find_route routes m path")
    case n: None
    then show ?thesis using None assms(3) by (simp add: node_request_def)
  next
    case (Some p)
    obtain e arg where p: "p = (e, arg)" by (cases p)
    have "\<not> bonus_endpoint e" using bonus_route_protected Some p open_path by blast
    from other_serve_keeps[OF this, of x arg body d] show ?thesis
      using None Some p open_path assms(3) by (simp add: node_request_def)
  qed
qed

definition sample_outside :: outside where
  "sample_outside = \<lparr>o_hash = sample_hash, o_send = (\<lambda>p m. None), o_now = 0, o_uuid = ''id1'', o_env = (\<lambda>k v. v),
     o_clock = (\<lambda>k. 0), o_fuel = 0, o_digest = (\<lambda>m. [7]), o_sha = (\<lambda>t. ''a''), o_dumps = (\<lambda>j. []), o_minify = (\<lambda>j. []),
     o_canon = (\<lambda>j. []), o_loads = (\<lambda>t. None), o_py_int = (\<lambda>t. Inr 0), o_py_float = (\<lambda>t. Inr 0),
     o_isoformat = (\<lambda>t. ''t''), o_fromiso = (\<lambda>t. Inr 0), o_percent = (\<lambda>r. [])\<rparr>"

definition sample_node :: distributed_node where
  "sample_node = \<lparr>dn_raft = single_leader, dn_services = sample_services, dn_security = sample_security,
     dn_pbft = init_pbft ''a'' [''a''],
     dn_geo = \<lparr>geo_node_id = ''a'', local_region = None, regions = default_regions, replication_log = []\<rparr>,
     dn_balancer = init_balancer [''a'']\<rparr>"

theorem no_key_no_bonus_change_witness:
  "snd (node_request sample_outside POST ''/bonus/pbft/commit'' (Some ''guess'') (Inr (JObj [])) sample_node) = sample_node"
proof -
  have on: "auth_enabled (dn_security sample_node)" by (simp add: sample_node_def sample_security_def init_security_def)
  have bad: "\<not> accepted_key (dn_security sample_node) (Some ''guess'')"
    by (simp add: accepted_key_def sample_node_def sample_api_keys)
  have "is_protected ''/bonus/pbft/commit''" by (simp add: is_protected_def protected_paths_def)
  then show ?thesis using no_key_no_bonus_change[OF on bad] by (metis prod.collapse)
qed

section \<open>What holds of a running node\<close>

definition node_ok :: "(string \<Rightarrow> nat) \<Rightarrow> distributed_node \<Rightarrow> bool" where
  "node_ok h d \<longleftrightarrow> raft_wf (dn_raft d) \<and> services_wf h (dn_services d)
     \<and> (\<forall>n\<in>set (lb_nodes (dn_balancer d)). dict_has (lb_state (dn_balancer d)) n)"

text \<open>While a lock request sleeps other tasks of the node run: they keep the node well formed.\<close>

definition env_ok :: "(string \<Rightarrow> nat) \<Rightarrow> outside \<Rightarrow> bool" where
  "env_ok h x \<longleftrightarrow> (\<forall>k v. raft_wf (fst (fst v)) \<longrightarrow> raft_wf (fst (fst (o_env x k v))))
     \<and> (\<forall>k v. services_wf h (snd (lock_unview v)) \<longrightarrow> services_wf h (snd (lock_unview (o_env x k v))))"

context lock_service
begin

lemma http_acquire_keeps:
  assumes "inv w" and "\<And>k w. inv w \<Longrightarrow> inv (env k w)"
  shows "inv (snd (handle_lock_acquire raft_append env clock start fuel lid data w))"
proof -
  have "snd (handle_lock_acquire raft_append env clock start fuel lid data w) = w \<or>
      (\<exists>res lt c t. snd (handle_lock_acquire raft_append env clock start fuel lid data w)
         = snd (acquire_lock raft_append env clock start fuel res lt c lid t w))"
    unfolding handle_lock_acquire_def Let_def
    by (auto split: sum.split prod.split option.split) (metis snd_conv)+
  then show ?thesis using acquire_lock_keeps[OF assms(2,1)] assms(1) by fastforce
qed

lemma http_release_keeps: "inv w \<Longrightarrow> inv (snd (handle_lock_release raft_append data w))"
proof -
  assume i: "inv w"
  have "snd (handle_lock_release raft_append data w) = w \<or>
      (\<exists>l. snd (handle_lock_release raft_append data w) = snd (release_lock raft_append l w))"
    unfolding handle_lock_release_def Let_def
    by (auto split: sum.split prod.split) (metis snd_conv)+
  then show ?thesis using release_lock_keeps[OF i] i by fastforce
qed

end

context queue_host
begin

lemma http_publish_keeps: "inv w \<Longrightarrow> inv (snd (handle_queue_publish h raft_append mid data w))"
proof -
  assume i: "inv w"
  have "snd (handle_queue_publish h raft_append mid data w) = w \<or>
      (\<exists>t v. snd (handle_queue_publish h raft_append mid data w) = snd (publish h raft_append mid t v w))"
    unfolding handle_queue_publish_def Let_def
    by (auto split: sum.split prod.split option.split) (metis snd_conv)+
  then show ?thesis using publish_keeps[OF i] i by fastforce
qed

lemma http_ack_keeps: "inv w \<Longrightarrow> inv (snd (handle_queue_ack raft_append data w))"
proof -
  assume i: "inv w"
  have "snd (handle_queue_ack raft_append data w) = w \<or>
      (\<exists>m c. snd (handle_queue_ack raft_append data w) = snd (acknowledge raft_append m c w))"
    unfolding handle_queue_ack_def Let_def
    by (auto split: sum.split prod.split) (metis snd_conv)+
  then show ?thesis using acknowledge_keeps[OF i] i by fastforce
qed

end

context cache_host
begin

lemma http_get_keeps: "inv w \<Longrightarrow> inv (snd (handle_cache_get raft_append now key w))"
  using get_keeps[of w now key] by (auto simp: handle_cache_get_def split: sum.split prod.split)

lemma http_put_keeps: "inv w \<Longrightarrow> inv (snd (handle_cache_put raft_append now data w))"
proof -
  assume i: "inv w"
  have "snd (handle_cache_put raft_append now data w) = w \<or>
      (\<exists>k v t. snd (handle_cache_put raft_append now data w) = snd (cache_put raft_append now k v t w))"
    unfolding handle_cache_put_def Let_def
    by (auto split: sum.split prod.split) (metis snd_conv)+
  then show ?thesis using put_keeps[OF i] i by fastforce
qed

end

section \<open>Every request keeps the node well formed\<close>

lemma lock_view_ok:
  assumes "node_ok h d" and "raft_wf (fst (fst (snd (f (lock_view (dn_raft d, dn_services d))))))"
    and "services_wf h (snd (lock_unview (snd (f (lock_view (dn_raft d, dn_services d))))))"
  shows "node_ok h (snd (on_lock_view f d))"
  using assms by (auto simp: node_ok_def on_lock_view_def split: prod.split)

lemma queue_view_ok:
  assumes "node_ok h d" and "raft_wf (fst (fst (snd (f (queue_view_of (dn_raft d, dn_services d))))))"
    and "services_wf h (snd (queue_unview (snd (f (queue_view_of (dn_raft d, dn_services d))))))"
  shows "node_ok h (snd (on_queue_view f d))"
  using assms by (auto simp: node_ok_def on_queue_view_def split: prod.split)

lemma cache_view_ok:
  assumes "node_ok h d" and "raft_wf (fst (fst (snd (f (cache_view (dn_raft d, dn_services d))))))
     \<and> services_wf h (snd (cache_unview (snd (f (cache_view (dn_raft d, dn_services d))))))"
  shows "node_ok h (snd (on_cache_view f d))"
  using assms by (auto simp: node_ok_def on_cache_view_def split: prod.split)

lemma feedback_known: "dict_has (lb_state lb) n \<Longrightarrow> dict_has (lb_state (snd (feedback m l b lb))) n"
  "lb_nodes (snd (feedback m l b lb)) = lb_nodes lb"
  by (simp_all add: feedback_def Let_def dict_has_set)

lemma choose_known: "dict_has (lb_state lb) n \<Longrightarrow> dict_has (lb_state (snd (choose_node t w ex lb))) n"
  "lb_nodes (snd (choose_node t w ex lb)) = lb_nodes lb"
  by (auto simp: choose_node_def Let_def dict_has_set split: sum.split option.split)

lemma balance_handlers_known:
  "dict_has (lb_state lb) n \<Longrightarrow> dict_has (lb_state (snd (handle_balance_choose py_float t data lb))) n"
  "lb_nodes (snd (handle_balance_choose py_float t data lb)) = lb_nodes lb"
  "dict_has (lb_state lb) n \<Longrightarrow> dict_has (lb_state (snd (handle_balance_feedback py_float data lb))) n"
  "lb_nodes (snd (handle_balance_feedback py_float data lb)) = lb_nodes lb"
proof -
  have c: "snd (handle_balance_choose py_float t data lb) = lb \<or>
      (\<exists>w ex. snd (handle_balance_choose py_float t data lb) = snd (choose_node t w ex lb))"
    unfolding handle_balance_choose_def by (auto split: sum.split prod.split) (metis snd_conv)+
  have f: "snd (handle_balance_feedback py_float data lb) = lb \<or>
      (\<exists>m l b. snd (handle_balance_feedback py_float data lb) = snd (feedback m l b lb))"
    unfolding handle_balance_feedback_def Let_def by (auto split: sum.split prod.split) (metis snd_conv)+
  show "dict_has (lb_state lb) n \<Longrightarrow> dict_has (lb_state (snd (handle_balance_choose py_float t data lb))) n"
    "lb_nodes (snd (handle_balance_choose py_float t data lb)) = lb_nodes lb" using c choose_known by fastforce+
  show "dict_has (lb_state lb) n \<Longrightarrow> dict_has (lb_state (snd (handle_balance_feedback py_float data lb))) n"
    "lb_nodes (snd (handle_balance_feedback py_float data lb)) = lb_nodes lb" using f feedback_known by fastforce+
qed

lemma raft_message_ok:
  assumes "raft_wf n" and "services_wf h s"
  shows "raft_wf (fst (snd (handle_raft_message isof fiso (node_callbacks now) now data (n, s))))
    \<and> services_wf h (snd (snd (handle_raft_message isof fiso (node_callbacks now) now data (n, s))))"
proof -
  have "raft_wf n' \<and> services_wf h s'" if m: "handle_message (node_callbacks now) now m n s = (r, n', s')" for m r n' s'
    using message_wf[OF assms(1) m] node_table.handle_message_inv[of h s now now m n r n' s'] assms(2) m
    by (simp add: message_combined)
  then show ?thesis using assms by (auto simp: handle_raft_message_def split: sum.split prod.split)
qed

lemma consume_ok: "dq_wf h q \<Longrightarrow> dq_wf h (snd (handle_queue_consume h data q))"
proof -
  assume q: "dq_wf h q"
  have "snd (handle_queue_consume h data q) = q \<or>
      (\<exists>t b. snd (handle_queue_consume h data q) = snd (consume h t b q))"
    unfolding handle_queue_consume_def Let_def by (auto split: sum.split prod.split) (metis snd_conv)+
  then show ?thesis using consume_wf[OF q] q by fastforce
qed

lemma invalidate_ok: "blocks_in UNIV c \<Longrightarrow> blocks_in UNIV (snd (handle_cache_invalidate nid key c))"
  using mc_any.handle_invalidation_keeps[of undefined c] by (simp add: handle_cache_invalidate_def)

lemma handle_ok:
  assumes "node_ok h d" and "o_hash x = h" and "env_ok h x"
  shows "node_ok h (snd (handle x e arg data d))"
proof -
  let ?n = "dn_raft d" and ?s = "dn_services d"
  have n: "raft_wf ?n" and s: "services_wf h ?s" using assms(1) by (simp_all add: node_ok_def)
  have l: "raft_wf (fst (fst (lock_view (?n, ?s))))" "services_wf h (snd (lock_unview (lock_view (?n, ?s))))"
    and q: "raft_wf (fst (fst (queue_view_of (?n, ?s))))" "services_wf h (snd (queue_unview (queue_view_of (?n, ?s))))"
    and c: "raft_wf (fst (fst (cache_view (?n, ?s)))) \<and> services_wf h (snd (cache_unview (cache_view (?n, ?s))))"
    using n s by simp_all
  have env: "raft_wf (fst (fst v)) \<Longrightarrow> raft_wf (fst (fst (o_env x k v)))"
    "services_wf h (snd (lock_unview v)) \<Longrightarrow> services_wf h (snd (lock_unview (o_env x k v)))" for k v
    using assms(3) unfolding env_ok_def by blast+
  show ?thesis
  proof (cases e)
    case ELockAcquire
    show ?thesis unfolding ELockAcquire handle.simps
      by (rule lock_view_ok[OF assms(1)], rule raft_ok.locks.http_acquire_keeps[OF l(1)], erule env(1),
          rule node_locks.http_acquire_keeps[OF l(2)], erule env(2))
  next
    case ELockRelease
    show ?thesis
      by (simp only: ELockRelease handle.simps snd_map_prod id_apply) (rule lock_view_ok[OF assms(1)], rule raft_ok.locks.http_release_keeps[OF l(1)],
          rule node_locks.http_release_keeps[OF l(2)])
  next
    case EQueuePublish
    show ?thesis
      by (simp only: EQueuePublish handle.simps snd_map_prod id_apply) (rule queue_view_ok[OF assms(1)], rule raft_ok.queues.http_publish_keeps[OF q(1)],
          rule node_queue.http_publish_keeps[OF q(2)])
  next
    case EQueueAck
    show ?thesis
      by (simp only: EQueueAck handle.simps snd_map_prod id_apply) (rule queue_view_ok[OF assms(1)], rule raft_ok.queues.http_ack_keeps[OF q(1)],
          rule node_queue.http_ack_keeps[OF q(2)])
  next
    case ECacheGet
    show ?thesis
      by (simp only: ECacheGet handle.simps snd_map_prod id_apply) (rule cache_view_ok[OF assms(1)], rule raft_ok.caches.http_get_keeps[OF c])
  next
    case ECachePut
    show ?thesis
      by (simp only: ECachePut handle.simps snd_map_prod id_apply) (rule cache_view_ok[OF assms(1)], rule raft_ok.caches.http_put_keeps[OF c])
  next
    case EQueueConsume
    then show ?thesis using assms consume_ok[of h "sv_queue ?s" data]
      by (simp add: node_ok_def services_wf_def answer_def)
  next
    case ECacheInvalidate
    then show ?thesis using assms invalidate_ok[of "sv_cache ?s"]
      by (simp add: node_ok_def services_wf_def answer_def)
  next
    case ERaftMessage
    then show ?thesis using assms(1) raft_message_ok[OF n s] by (simp add: node_ok_def answer_def)
  next
    case EBalanceChoose
    then show ?thesis using assms(1) balance_handlers_known by (simp add: node_ok_def answer_def)
  next
    case EBalanceFeedback
    then show ?thesis using assms(1) balance_handlers_known by (simp add: node_ok_def answer_def)
  qed (use assms(1) in \<open>simp_all add: node_ok_def answer_def\<close>)
qed

section \<open>The running node\<close>

text \<open>What happens to a node: requests, its election timeout, the turns of its background tasks, start and stop.\<close>

inductive node_step :: "(string \<Rightarrow> nat) \<Rightarrow> distributed_node \<Rightarrow> distributed_node \<Rightarrow> bool" for h where
  step_request: "o_hash x = h \<Longrightarrow> env_ok h x \<Longrightarrow> node_step h d (snd (node_request x m path key body d))"
| step_timeout: "node_step h d (d\<lparr>dn_raft := election_timeout_handler (dn_raft d)\<rparr>)"
| step_processor: "node_step h d (d\<lparr>dn_raft := message_processor_turn send now (dn_raft d)\<rparr>)"
| step_heartbeat: "heartbeat_turn (node_callbacks now) send now (dn_raft d) (dn_services d) = Some (n, s)
     \<Longrightarrow> node_step h d (d\<lparr>dn_raft := n, dn_services := s\<rparr>)"
| step_deadlock: "node_step h d (snd (on_lock_view (deadlock_check (lock_append send now)) d))"
| step_start: "node_step h d (node_start d)"
| step_stop: "node_step h d (node_stop d)"

lemma request_ok:
  assumes "node_ok h d" and "o_hash x = h" and "env_ok h x"
  shows "node_ok h (snd (node_request x m path key body d))"
proof -
  have "node_ok h (snd (except_clause x e err d))" for e err
    using assms(1) by (simp add: except_clause_def crypto_except_def answer_def node_ok_def)
  then show ?thesis
    using handle_ok[OF assms] assms(1) by (auto simp: node_request_def serve_def split: option.split sum.split)
qed

lemma step_ok: "node_step h d d' \<Longrightarrow> node_ok h d \<Longrightarrow> node_ok h d'"
proof (induction rule: node_step.induct)
  case (step_request x d m path key body)
  then show ?case by (intro request_ok)
next
  case (step_timeout d)
  then show ?case by (simp add: node_ok_def timeout_wf)
next
  case (step_processor d send now)
  have "raft_wf (start_election send now (dn_raft d))" if "raft_wf (dn_raft d)"
    using run_wf[OF start_election_run[of "[]" "dn_raft d" "()" send now]] that by simp
  then show ?case using step_processor by (simp add: node_ok_def message_processor_turn_def)
next
  case (step_heartbeat now send d n s)
  then have "raft_run (node_callbacks now) (dn_raft d, dn_services d) (n, s)"
    by (auto simp: heartbeat_turn_def dest: gather_heartbeats_run split: if_splits)
  then have "raft_wf (dn_raft d) \<longrightarrow> raft_wf n" "services_wf h (dn_services d) \<longrightarrow> services_wf h s"
    using run_wf node_table.run_keeps_inv[OF run_combined_steps] by fastforce+
  then show ?case using step_heartbeat(2) by (simp add: node_ok_def)
next
  case (step_deadlock d send now)
  let ?w = "lock_view (dn_raft d, dn_services d)"
  have "raft_wf (fst (fst ?w))" "services_wf h (snd (lock_unview ?w))" using step_deadlock by (simp_all add: node_ok_def)
  then show ?case
    using lock_view_ok[OF step_deadlock, of "deadlock_check (lock_append send now)"]
      raft_ok.locks.deadlock_check_keeps node_locks.deadlock_check_keeps by blast
next
  case (step_start d)
  then show ?case by (simp add: node_ok_def node_start_def raft_start_def reset_wf)
next
  case (step_stop d)
  then show ?case by (simp add: node_ok_def node_stop_def raft_stop_def raft_wf_def peers_indexed_def)
qed

lemma run_ok: "(node_step h)\<^sup>*\<^sup>* d d' \<Longrightarrow> node_ok h d \<Longrightarrow> node_ok h d'"
  by (induction rule: rtranclp_induct) (auto intro: step_ok)

lemma initial_node_ok:
  assumes "init_distributed_node h py_float lf hf cfg = Inr d"
  shows "node_ok h d"
proof -
  have "dict_has (lb_state (init_balancer ns)) n" if "n \<in> set ns" for n ns
    using init_balancer_ok[of True ns] that by (simp add: balancer_ok_def) (simp add: init_balancer_def)
  moreover have "lb_nodes (init_balancer ns) = ns" for ns by (simp add: init_balancer_def)
  ultimately show ?thesis using assms init_node_wf init_services_wf
    by (auto simp: init_distributed_node_def Let_def node_ok_def map_sum_Inr)
qed

text \<open>C4: The invariant of the whole program: from a node built from any configuration, after any sequence
  of HTTP requests (any method, path, key and body), election timeouts and turns of the background
  tasks, with any answers of the peers, the Raft node and every service are well formed, and
  \<open>choose_node\<close> finds a state for every node it compares.\<close>

theorem reachable_node_ok:
  assumes "init_distributed_node h py_float lf hf cfg = Inr d0" and "(node_step h)\<^sup>*\<^sup>* d0 d"
  shows "raft_wf (dn_raft d) \<and> services_wf h (dn_services d)
    \<and> (\<forall>n\<in>set (lb_nodes (dn_balancer d)). dict_has (lb_state (dn_balancer d)) n)"
  using run_ok[OF assms(2) initial_node_ok[OF assms(1)]] by (simp add: node_ok_def)

definition sample_config :: system_config where
  "sample_config = \<lparr>cfg_node = \<lparr>cfg_node_id = ''node_1'', node_port = 8001, cluster_peers = [''b:1'', ''c:1'']\<rparr>,
     cfg_consensus = \<lparr>heartbeat_interval = 1/2, election_timeout_min = 3/2, election_timeout_max = 3, request_timeout = 5\<rparr>,
     cfg_lock = \<lparr>deadlock_detection_interval = 5, max_lock_wait_time = 30\<rparr>,
     cfg_cache = \<lparr>cfg_max_size = 2, cfg_ttl = 60, eviction_policy = ''LRU''\<rparr>,
     cfg_queue = \<lparr>cfg_replication_factor = 2, cfg_persistence = True\<rparr>,
     cfg_security = \<lparr>cfg_encryption = True, cfg_audit = True, cfg_auth = True, cfg_api_keys = ''k:admin'',
       audit_log_path = [], audit_hash_path = [], cfg_secret = ''s''\<rparr>,
     cfg_bonus = \<lparr>geo_region_name = ''eu'', geo_region_map = [], pbft_override = 0\<rparr>,
     cfg_redis = \<lparr>redis_host = ''localhost'', redis_port = 6379, redis_db = 0\<rparr>, log_level = ''INFO''\<rparr>"

theorem reachable_node_ok_witness:
  "\<exists>d. init_distributed_node sample_hash (\<lambda>t. Inr 0) None None sample_config = Inr d
     \<and> raft_wf (dn_raft (snd (node_request sample_outside POST ''/lock/acquire'' None
         (Inr (JObj [(''resource'', JStr ''r''), (''client_id'', JStr ''c'')])) d)))"
proof -
  obtain d where d: "init_distributed_node sample_hash (\<lambda>t. Inr 0) None None sample_config = Inr d"
    by (simp add: init_distributed_node_def init_geo_def parse_region_map_def Let_def py_strip_def)
  have "o_hash sample_outside = sample_hash" "env_ok sample_hash sample_outside"
    by (simp_all add: sample_outside_def env_ok_def)
  then have "(node_step sample_hash)\<^sup>*\<^sup>* d (snd (node_request sample_outside POST ''/lock/acquire'' None
         (Inr (JObj [(''resource'', JStr ''r''), (''client_id'', JStr ''c'')])) d))" by (intro r_into_rtranclp step_request)
  from reachable_node_ok[OF d this] show ?thesis using d by blast
qed

end
