(* ===== verification/Peer_Wire.thy ===== *)
theory Peer_Wire
  imports App_System
begin

text \<open>
  Raft messages on the wire: \<open>_send_message_to_peer\<close> of \<^verbatim>\<open>protocols/raft.py\<close> on one side and the peer's HTTP interface
  on the other. \<open>post\<close> is \<open>session.post\<close> of aiohttp: the status and the decoded JSON body of the answer, or an exception (no
  connection, a timeout, no JSON). \<open>raise_for_status\<close> raises for a status of 400 or more.
\<close>

definition send_message_to_peer ::
  "(rat \<Rightarrow> string) \<Rightarrow> (string \<Rightarrow> rat result) \<Rightarrow> rat \<Rightarrow> (string \<Rightarrow> jdict \<Rightarrow> (int \<times> json) result)
     \<Rightarrow> string \<Rightarrow> message \<Rightarrow> message result" where
  "send_message_to_peer isoformat fromisoformat now post peer m =
     (case post (peer_url peer) (message_to_dict isoformat m) of Inl x \<Rightarrow> Inl x
      | Inr (status, body) \<Rightarrow>
          if status \<ge> 400 then Inl (ClientError status)
          else (case body of JObj d \<Rightarrow> message_from_dict fromisoformat now d | _ \<Rightarrow> Inl (TypeError ''message_type'')))"

section \<open>A peer as a server\<close>

text \<open>What the framework sends for a response.\<close>

definition response_status :: "response \<Rightarrow> int" where
  "response_status r = (case r of Response s b \<Rightarrow> s | Failure s x \<Rightarrow> s | Unhandled x \<Rightarrow> 500 | Unrouted \<Rightarrow> 404)"

definition response_body :: "response \<Rightarrow> json" where
  "response_body r = (case r of Response s b \<Rightarrow> JObj b | _ \<Rightarrow> JNull)"

text \<open>The node that listens at the address \<open>base\<close> answers a POST to an address below it.\<close>

definition answer_post :: "outside \<Rightarrow> string \<Rightarrow> distributed_node \<Rightarrow> string \<Rightarrow> jdict \<Rightarrow> (int \<times> json) result \<times> distributed_node" where
  "answer_post x base d url body =
     (if take (length base) url = base then
        (case node_request x POST (drop (length base) url) None (Inr (JObj body)) d of
           (Some r, d') \<Rightarrow> (Inr (response_status r, response_body r), d')
         | (None, d') \<Rightarrow> (Inl (ValueError ''timeout''), d'))
      else (Inl (ValueError ''address''), d))"

definition peer_base :: "string \<Rightarrow> string" where
  "peer_base peer = take (length (peer_url peer) - length ''/raft/message'') (peer_url peer)"

lemma peer_url_base: "peer_url peer = peer_base peer @ ''/raft/message''"
  by (simp add: peer_base_def peer_url_def Let_def)

lemma raft_route: "find_route routes POST ''/raft/message'' = Some (ERaftMessage, [])"
  by code_simp

lemma raft_open: "auth_middleware sec ''/raft/message'' key = None"
  by (simp add: auth_middleware_def is_protected_def protected_paths_def)

lemma handler_timestamp:
  assumes "handle_message cbs now m n a = (Inr r, n', a')"
  shows "msg_timestamp r = now"
proof -
  let ?n1 = "if msg_term m > current_term n then step_down (msg_term m) n else n"
  have "msg_timestamp r = now" if "handle_append_entries cbs now m ?n1 a = (Inr r, n', a')"
    using that by (auto simp: handle_append_entries_def Let_def append_response_def split: sum.splits bool.splits prod.splits option.splits)
  moreover have "msg_timestamp r = now" if "handle_request_vote now m ?n1 = (Inr r, n')"
    using that by (auto simp: handle_request_vote_def Let_def split: if_splits sum.splits)
  ultimately show ?thesis using assms
    by (auto simp: handle_message_def Let_def split: message_type.splits prod.splits)
qed

lemma message_codec:
  assumes "fromisoformat (isoformat (msg_timestamp m)) = Inr (msg_timestamp m)" and "isoformat (msg_timestamp m) \<noteq> []"
  shows "message_from_dict fromisoformat now (message_to_dict isoformat m) = Inr m"
  using assms by (simp add: message_from_dict_def message_to_dict_def item_defs truthy_def)

lemma raft_request:
  assumes "o_fromiso x (o_isoformat x (msg_timestamp m)) = Inr (msg_timestamp m)" and "o_isoformat x (msg_timestamp m) \<noteq> []"
    and "handle_message (node_callbacks (o_now x)) (o_now x) m (dn_raft d) (dn_services d) = (r, n', s')"
  shows "node_request x POST ''/raft/message'' key (Inr (JObj (message_to_dict (o_isoformat x) m))) d =
    (Some (case r of Inl err \<Rightarrow> Failure 500 err | Inr r' \<Rightarrow> Response 200 (message_to_dict (o_isoformat x) r')),
     d\<lparr>dn_raft := n', dn_services := s'\<rparr>)"
  using assms(3) message_codec[where isoformat = "o_isoformat x" and fromisoformat = "o_fromiso x", OF assms(1,2)]
  by (simp add: node_request_def raft_open raft_route serve_def reads_body_def json_object_def handle_raft_message_def answer_def
      split: sum.split)

text \<open>C17: A Raft message sent over HTTP does on the peer what a direct call of \<open>handle_message\<close> does, and comes back
  as the answer of that call; an exception in the peer's handler comes back as an exception. So the
  function \<open>send\<close> of the Raft model loses nothing of the transport: encoding, address, routing,
  middleware, decoding and status.\<close>

theorem peer_call_is_direct:
  assumes "o_fromiso x (o_isoformat x (msg_timestamp m)) = Inr (msg_timestamp m)" and "o_isoformat x (msg_timestamp m) \<noteq> []"
    and "o_fromiso x (o_isoformat x (o_now x)) = Inr (o_now x)" and "o_isoformat x (o_now x) \<noteq> []"
    and "handle_message (node_callbacks (o_now x)) (o_now x) m (dn_raft d) (dn_services d) = (r, n', s')"
  shows "send_message_to_peer (o_isoformat x) (o_fromiso x) now (\<lambda>url body. fst (answer_post x (peer_base p) d url body)) p m
      = (case r of Inl err \<Rightarrow> Inl (ClientError 500) | Inr r' \<Rightarrow> Inr r')
    \<and> snd (answer_post x (peer_base p) d (peer_url p) (message_to_dict (o_isoformat x) m)) = d\<lparr>dn_raft := n', dn_services := s'\<rparr>"
proof -
  have post: "answer_post x (peer_base p) d (peer_url p) (message_to_dict (o_isoformat x) m) =
      (Inr (case r of Inl err \<Rightarrow> (500, JNull) | Inr r' \<Rightarrow> (200, JObj (message_to_dict (o_isoformat x) r'))),
       d\<lparr>dn_raft := n', dn_services := s'\<rparr>)"
    using raft_request[OF assms(1,2,5), of None]
    by (simp add: answer_post_def peer_url_base response_status_def response_body_def split: sum.split)
  have reply: "message_from_dict (o_fromiso x) now (message_to_dict (o_isoformat x) r') = Inr r'" if "r = Inr r'" for r'
  proof (rule message_codec)
    have "msg_timestamp r' = o_now x" by (rule handler_timestamp[OF assms(5)[unfolded that]])
    then show "o_fromiso x (o_isoformat x (msg_timestamp r')) = Inr (msg_timestamp r')" "o_isoformat x (msg_timestamp r') \<noteq> []"
      using assms(3,4) by simp_all
  qed
  show ?thesis
    unfolding send_message_to_peer_def post using reply by (simp split: sum.split)
qed

theorem peer_call_is_direct_witness:
  "\<exists>r. send_message_to_peer (o_isoformat sample_outside) (o_fromiso sample_outside) 5
      (\<lambda>url body. fst (answer_post sample_outside (peer_base ''http://b:1/'') sample_node url body)) ''http://b:1/''
      ((sample_request ''b'')\<lparr>msg_term := 2\<rparr>) = Inr r \<and> vote_granted r"
proof -
  let ?m = "(sample_request ''b'')\<lparr>msg_term := 2\<rparr>"
  obtain r n' s' where h: "handle_message (node_callbacks (o_now sample_outside)) (o_now sample_outside) ?m
      (dn_raft sample_node) (dn_services sample_node) = (r, n', s')" by (rule prod_cases3)
  moreover have "(case handle_message (node_callbacks 0) 0 ?m (dn_raft sample_node) (dn_services sample_node) of
      (Inr r, _) \<Rightarrow> vote_granted r | _ \<Rightarrow> False)"
    by (simp add: handle_message_def handle_request_vote_def sample_request_def sample_node_def single_leader_state node_ops
        get_int_def last_log_term_def last_log_index_def vote_granted_def Let_def)
  ultimately obtain r' where "r = Inr r'" "vote_granted r'" by (auto simp: sample_outside_def split: sum.splits)
  then show ?thesis
    using peer_call_is_direct[OF _ _ _ _ h, of 5 "''http://b:1/''"] by (auto simp: sample_outside_def sample_request_def)
qed

end
