(* ===== verification/Node_Main.thy ===== *)
theory Node_Main
  imports App_System
begin

text \<open>
  The entry point of \<^verbatim>\<open>app.py\<close>: \<open>main\<close>, \<open>create_and_run_node\<close> and the constructor with its optional configuration.
  \<open>load_dotenv\<close> belongs to another package and is an argument, as is everything that happens while the
  node runs (\<open>events\<close>). The last section looks at a node that is its own peer, as in the documented local setup.
\<close>

section \<open>From the environment to a running node\<close>

definition new_distributed_node ::
  "(string \<Rightarrow> nat) \<Rightarrow> (string \<Rightarrow> int result) \<Rightarrow> (string \<Rightarrow> rat result) \<Rightarrow> json list option \<Rightarrow> string option
     \<Rightarrow> environment \<Rightarrow> system_config option \<Rightarrow> distributed_node result" where
  "new_distributed_node h py_int py_float lf hf env config =
     (case (case config of Some c \<Rightarrow> Inr c | None \<Rightarrow> get_config py_int py_float env) of
        Inl x \<Rightarrow> Inl x
      | Inr c \<Rightarrow> init_distributed_node h py_float lf hf c)"

definition create_and_run_node ::
  "(distributed_node \<Rightarrow> distributed_node) \<Rightarrow> distributed_node result \<Rightarrow> distributed_node result" where
  "create_and_run_node events node = (case node of Inl x \<Rightarrow> Inl x | Inr d \<Rightarrow> Inr (node_stop (events (node_start d))))"

definition main_entry ::
  "(string \<Rightarrow> nat) \<Rightarrow> (string \<Rightarrow> int result) \<Rightarrow> (string \<Rightarrow> rat result) \<Rightarrow> json list option \<Rightarrow> string option
     \<Rightarrow> (environment \<Rightarrow> environment) option \<Rightarrow> (distributed_node \<Rightarrow> distributed_node) \<Rightarrow> environment
     \<Rightarrow> distributed_node result" where
  "main_entry h py_int py_float lf hf load_dotenv events env =
     (case get_config py_int py_float env of
        Inl x \<Rightarrow> Inl x
      | Inr config \<Rightarrow>
          let env' = (case load_dotenv of None \<Rightarrow> env | Some load \<Rightarrow> load env)
          in create_and_run_node events (new_distributed_node h py_int py_float lf hf env' (Some config)))"

text \<open>The configuration is read before the file is loaded, so the file has no effect (\<^verbatim>\<open>docs/deployment.md\<close> says to edit it).\<close>

lemma dotenv_file_ignored:
  "main_entry h py_int py_float lf hf (Some load) events env = main_entry h py_int py_float lf hf None events env"
  by (simp add: main_entry_def new_distributed_node_def Let_def split: sum.split)

lemma main_entry_node:
  assumes "main_entry h py_int py_float lf hf load events env = Inr d"
  obtains cfg d0 where "get_config py_int py_float env = Inr cfg" "init_distributed_node h py_float lf hf cfg = Inr d0"
    "d = node_stop (events (node_start d0))"
  using assms by (auto simp: main_entry_def create_and_run_node_def new_distributed_node_def Let_def split: sum.splits)

text \<open>Whatever happens while the program runs, it ends with a well-formed node whose timers are off.\<close>

lemma main_entry_ok:
  assumes "main_entry h py_int py_float lf hf load events env = Inr d" and "\<And>d. (node_step h)\<^sup>*\<^sup>* d (events d)"
  shows "node_ok h d" "election_timer (dn_raft d) = None" "heartbeat_timer (dn_raft d) = None"
proof -
  obtain d0 d1 where d0: "node_ok h d0" and d1: "d1 = events (node_start d0)" and d: "d = node_stop d1"
    using main_entry_node[OF assms(1)] initial_node_ok by metis
  have "(node_step h)\<^sup>*\<^sup>* (node_start d0) d1" using assms(2) d1 by simp
  then have "(node_step h)\<^sup>*\<^sup>* d0 d1" using step_start converse_rtranclp_into_rtranclp by metis
  then have "(node_step h)\<^sup>*\<^sup>* d0 d" unfolding d by (rule rtranclp.rtrancl_into_rtrancl) (rule step_stop)
  then show "node_ok h d" using run_ok d0 by blast
  show "election_timer (dn_raft d) = None" "heartbeat_timer (dn_raft d) = None"
    by (simp_all add: d node_stop_def raft_stop_def)
qed

section \<open>A node among its own peers\<close>

text \<open>
  The documented local setup starts nodes on ports 8001, 8002 and 8003 with the default peers, so the
  second and third node list themselves (and no node lists the first).
\<close>

lemma documented_local_peers:
  "peers_of (\<lambda>k. None) = [''localhost:8002'', ''localhost:8003'', ''localhost:8004'']"
  by (simp add: peers_of_def getenv_def py_strip_def is_space_def)

text \<open>Such a candidate grants itself a second vote, and such a leader is ended by its own first append request.\<close>

theorem own_vote_counted_twice:
  assumes "voted_for n = Some (node_id n)" and "handle_message cbs now' (request_vote_message now n) n a = (r, n', a')"
  shows "\<exists>m. r = Inr m \<and> vote_granted m \<and> n' = reset_election_timer n"
proof -
  have "reset_election_timer (n\<lparr>voted_for := Some (node_id n)\<rparr>) = reset_election_timer n"
    using assms(1) by (cases n) (simp add: reset_election_timer_def)
  then show ?thesis
    using assms by (auto simp: handle_message_def request_vote_message_def handle_request_vote_def get_int_def vote_granted_def
        Let_def split: prod.splits)
qed

theorem own_request_ends_leadership:
  assumes "append_entries_request now n p = Inr (prev, es, m)"
    and "handle_message cbs now' m n a = (r, n', a')"
  shows "raft_state n' = FOLLOWER"
proof -
  have "message_type m = APPEND_ENTRIES" "msg_term m = current_term n"
    using assms(1) by (auto simp: append_entries_request_def Let_def split: option.splits sum.splits if_splits)
  then show ?thesis using assms(2)
    by (auto simp: handle_message_def handle_append_entries_def node_ops accept_leader_def become_follower_def Let_def
        dest!: accept_entries_keeps split: sum.splits bool.splits option.splits prod.splits if_splits)
qed

end
