(* ===== verification/Raft_Election.thy ===== *)
theory Raft_Election
  imports Raft_Cluster
begin

text \<open>
  A cluster of nodes that hold elections: every node runs the code of \<^verbatim>\<open>src/protocols/raft.py\<close>, and the
  parts of \<open>_start_election\<close> between two suspension points are steps of their own, so elections of
  several nodes, and later elections of the same node, interleave freely. A node is named by its address; \<open>nid\<close> gives the
  identifier it signs with.
\<close>

section \<open>The cluster\<close>

text \<open>A running \<open>_start_election\<close>: the term it began in, the peers whose answers it awaits and the votes counted.\<close>

record poll =
  pl_candidate :: string
  pl_term :: int
  pl_waiting :: "string list"
  pl_grants :: "string list"
  pl_open :: bool

text \<open>The request to a peer is built in the task that sends it, with the candidate's state at that time;
  \<open>cl_asked\<close> and \<open>cl_replies\<close> hold the requests and answers of an election (its number) and a peer. \<open>cl_votes\<close> is a ghost: every vote a node has ever held, as voter, term and candidate.\<close>

record 'a cluster =
  cl_nodes :: "string \<Rightarrow> raft_node"
  cl_data :: "string \<Rightarrow> 'a"
  cl_polls :: "poll list"
  cl_asked :: "(nat \<times> string \<times> message) list"
  cl_replies :: "(nat \<times> string \<times> message) list"
  cl_votes :: "(string \<times> int \<times> string) set"

definition set_node :: "string \<Rightarrow> raft_node \<Rightarrow> 'a cluster \<Rightarrow> 'a cluster" where
  "set_node p n s = s\<lparr>cl_nodes := (cl_nodes s)(p := n),
     cl_votes := (case voted_for n of None \<Rightarrow> cl_votes s | Some c \<Rightarrow> insert (p, current_term n, c) (cl_votes s))\<rparr>"

definition init_cluster :: "(string \<Rightarrow> string) \<Rightarrow> string list \<Rightarrow> (string \<Rightarrow> 'a) \<Rightarrow> 'a cluster" where
  "init_cluster nid ps data = \<lparr>cl_nodes = (\<lambda>p. init_node (nid p) (remove1 p ps)), cl_data = data,
     cl_polls = [], cl_asked = [], cl_replies = [], cl_votes = {}\<rparr>"

definition open_poll :: "string \<Rightarrow> raft_node \<Rightarrow> poll" where
  "open_poll p n = \<lparr>pl_candidate = p, pl_term = current_term n, pl_waiting = peers n,
     pl_grants = [], pl_open = True\<rparr>"

definition count_answer :: "string \<Rightarrow> bool \<Rightarrow> poll \<Rightarrow> poll" where
  "count_answer j granted p =
     p\<lparr>pl_waiting := remove1 j (pl_waiting p), pl_grants := (if granted then j # pl_grants p else pl_grants p)\<rparr>"

text \<open>
  One step of the cluster. With \<open>fresh\<close> an election may only finish in the term in which it began;
  the code has no such check. Append requests are those of \<open>A\<close>. Other messages, answers to append requests and client calls may
  arrive at any time. A commit callback may depend on the time of the commit, so a step chooses one
  of several; \<open>app_local\<close> is what the services do to their own state between two calls of the node.
\<close>

record 'a application =
  app_callbacks :: "'a callback list set"
  app_local :: "'a \<Rightarrow> 'a \<Rightarrow> bool"

inductive cluster_step :: "bool \<Rightarrow> message set \<Rightarrow> 'a application \<Rightarrow> string list \<Rightarrow> 'a cluster \<Rightarrow> 'a cluster \<Rightarrow> bool"
  for fresh A app ps where
  el_timeout: "p \<in> set ps \<Longrightarrow> cluster_step fresh A app ps s (set_node p (election_timeout_handler (cl_nodes s p)) s)"
| el_begin: "p \<in> set ps \<Longrightarrow> raft_state (cl_nodes s p) \<noteq> LEADER \<Longrightarrow> \<not> election_in_progress (cl_nodes s p)
     \<Longrightarrow> n = start_election_begin (cl_nodes s p)
     \<Longrightarrow> cluster_step fresh A app ps s (set_node p n (s\<lparr>cl_polls := cl_polls s @ [open_poll p n]\<rparr>))"
| el_ask: "k < length (cl_polls s) \<Longrightarrow> q = cl_polls s ! k \<Longrightarrow> j \<in> set (pl_waiting q)
     \<Longrightarrow> cluster_step fresh A app ps s
          (s\<lparr>cl_asked := (k, j, request_vote_message now (cl_nodes s (pl_candidate q))) # cl_asked s\<rparr>)"
| el_request: "(k, j, m) \<in> set (cl_asked s)
     \<Longrightarrow> cbs \<in> app_callbacks app \<Longrightarrow> handle_message cbs now m (cl_nodes s j) (cl_data s j) = (Inr r, n, a)
     \<Longrightarrow> cluster_step fresh A app ps s
          (set_node j n (s\<lparr>cl_data := (cl_data s)(j := a), cl_replies := (k, j, r) # cl_replies s\<rparr>))"
| el_answer: "k < length (cl_polls s) \<Longrightarrow> q = cl_polls s ! k \<Longrightarrow> j \<in> set (pl_waiting q) \<Longrightarrow> (k, j, r) \<in> set (cl_replies s)
     \<Longrightarrow> on_vote_response (Some r) (cl_nodes s (pl_candidate q)) = (granted, n)
     \<Longrightarrow> cluster_step fresh A app ps s
          (set_node (pl_candidate q) n (s\<lparr>cl_polls := (cl_polls s)[k := count_answer j granted q]\<rparr>))"
| el_silence: "k < length (cl_polls s) \<Longrightarrow> q = cl_polls s ! k \<Longrightarrow> j \<in> set (pl_waiting q)
     \<Longrightarrow> cluster_step fresh A app ps s (s\<lparr>cl_polls := (cl_polls s)[k := count_answer j False q]\<rparr>)"
| el_finish: "k < length (cl_polls s) \<Longrightarrow> q = cl_polls s ! k \<Longrightarrow> pl_open q \<Longrightarrow> pl_waiting q = []
     \<Longrightarrow> (fresh \<longrightarrow> current_term (cl_nodes s (pl_candidate q)) = pl_term q)
     \<Longrightarrow> n = finish_election (1 + int (length (pl_grants q))) (cl_nodes s (pl_candidate q))
     \<Longrightarrow> cluster_step fresh A app ps s
          (set_node (pl_candidate q) n (s\<lparr>cl_polls := (cl_polls s)[k := q\<lparr>pl_open := False\<rparr>]\<rparr>))"
| el_message: "p \<in> set ps \<Longrightarrow> (message_type m = APPEND_ENTRIES \<longrightarrow> m \<in> A)
     \<Longrightarrow> cbs \<in> app_callbacks app \<Longrightarrow> handle_message cbs now m (cl_nodes s p) (cl_data s p) = (r, n, a)
     \<Longrightarrow> cluster_step fresh A app ps s (set_node p n (s\<lparr>cl_data := (cl_data s)(p := a)\<rparr>))"
| el_response: "p \<in> set ps \<Longrightarrow> cbs \<in> app_callbacks app \<Longrightarrow> on_append_response cbs peer i es r (cl_nodes s p) (cl_data s p) = (b, n, a)
     \<Longrightarrow> cluster_step fresh A app ps s (set_node p n (s\<lparr>cl_data := (cl_data s)(p := a)\<rparr>))"
| el_client: "p \<in> set ps \<Longrightarrow> raft_state (cl_nodes s p) = LEADER
     \<Longrightarrow> cluster_step fresh A app ps s (set_node p (append_local c d (cl_nodes s p)) s)"
| el_client_single: "p \<in> set ps \<Longrightarrow> peers (cl_nodes s p) = []
     \<Longrightarrow> cbs \<in> app_callbacks app \<Longrightarrow> append_entry cbs send now c d (cl_nodes s p, cl_data s p) = (x, (n, a))
     \<Longrightarrow> cluster_step fresh A app ps s (set_node p n (s\<lparr>cl_data := (cl_data s)(p := a)\<rparr>))"
| el_local: "app_local app (cl_data s p) a \<Longrightarrow> cluster_step fresh A app ps s (s\<lparr>cl_data := (cl_data s)(p := a)\<rparr>)"

abbreviation cluster_run :: "bool \<Rightarrow> 'a application \<Rightarrow> string list \<Rightarrow> 'a cluster \<Rightarrow> 'a cluster \<Rightarrow> bool" where
  "cluster_run fresh app ps \<equiv> (cluster_step fresh UNIV app ps)\<^sup>*\<^sup>*"

section \<open>No operation but the end of an election makes a leader\<close>

definition stays_leader :: "raft_node \<Rightarrow> raft_node \<Rightarrow> bool" where
  "stays_leader n n' \<longleftrightarrow> (raft_state n' = LEADER \<longrightarrow> raft_state n = LEADER \<and> current_term n' = current_term n)"

lemma stays_leader_refl [simp]: "stays_leader n n"
  by (simp add: stays_leader_def)

lemma stays_leader_trans: "stays_leader n n1 \<Longrightarrow> stays_leader n1 n2 \<Longrightarrow> stays_leader n n2"
  by (auto simp: stays_leader_def)

lemma stays_step_down: "stays_leader n (step_down t n)"
  by (simp add: stays_leader_def node_ops)

lemma stays_begin: "stays_leader n (start_election_begin n)"
  by (simp add: stays_leader_def node_ops)

lemma stays_timeout: "peers n \<noteq> [] \<Longrightarrow> stays_leader n (election_timeout_handler n)"
  by (simp add: stays_leader_def election_timeout_handler_def node_ops)

lemma stays_vote_response: "on_vote_response r n = (g, n') \<Longrightarrow> stays_leader n n'"
  by (cases r) (auto simp: on_vote_response_def stays_step_down split: if_splits)

lemma stays_same: "raft_state n' = raft_state n \<Longrightarrow> current_term n' = current_term n \<Longrightarrow> stays_leader n n'"
  by (simp add: stays_leader_def)

lemma stays_update: "update_commit_index cbs n a = (x, n', a') \<Longrightarrow> stays_leader n n'"
  by (auto dest!: update_commit_keeps intro: stays_same)

lemma stays_response: "on_append_response cbs p i es r n a = (b, n', a') \<Longrightarrow> stays_leader n n'"
  by (auto simp: on_append_response_def stays_leader_def node_ops dest!: update_commit_keeps
      split: option.splits if_splits prod.splits)

lemma stays_append: "stays_leader n (append_local c d n)"
  by (simp add: append_local_def stays_leader_def)

lemma stays_request_vote: "handle_request_vote now m n = (r, n') \<Longrightarrow> stays_leader n n'"
  by (auto simp: handle_request_vote_def Let_def stays_leader_def reset_election_timer_def split: if_splits sum.splits)

lemma stays_append_entries: "handle_append_entries cbs now m n a = (r, n', a') \<Longrightarrow> stays_leader n n'"
  by (fastforce simp: handle_append_entries_def stays_leader_def node_ops dest!: accept_entries_keeps
      split: sum.splits bool.splits option.splits prod.splits if_splits)

lemma stays_message:
  assumes "handle_message cbs now m n a = (r, n', a')"
  shows "stays_leader n n'"
proof -
  let ?n1 = "if msg_term m > current_term n then step_down (msg_term m) n else n"
  have "stays_leader n ?n1" by (simp add: stays_step_down)
  moreover have "stays_leader ?n1 n'"
    using assms by (auto simp: handle_message_def Let_def dest: stays_request_vote stays_append_entries
        split: message_type.splits prod.splits)
  ultimately show ?thesis by (rule stays_leader_trans)
qed

lemma stays_append_single:
  "append_entry cbs send now c d (n, a) = (x, (n', a')) \<Longrightarrow> peers n = [] \<Longrightarrow> stays_leader n n'"
  by (auto simp: append_entry_def append_local_def stays_leader_def dest!: apply_frame
      split: if_splits prod.splits option.splits)

section \<open>The votes\<close>

definition elected :: "(string \<Rightarrow> string) \<Rightarrow> string list \<Rightarrow> (string \<times> int \<times> string) set \<Rightarrow> string \<Rightarrow> int \<Rightarrow> bool" where
  "elected nid ps votes p t \<longleftrightarrow>
     (\<exists>V \<subseteq> set ps. length ps div 2 < card V \<and> (\<forall>j\<in>V. (j, t, nid p) \<in> votes))"

lemma elected_mono: "elected nid ps A p t \<Longrightarrow> A \<subseteq> B \<Longrightarrow> elected nid ps B p t"
  by (auto simp: elected_def)

definition votes_ok :: "(string \<Rightarrow> string) \<Rightarrow> string list \<Rightarrow> 'a cluster \<Rightarrow> bool" where
  "votes_ok nid ps s \<longleftrightarrow>
     (\<forall>j t c. (j, t, c) \<in> cl_votes s \<longrightarrow> t < current_term (cl_nodes s j)
        \<or> t = current_term (cl_nodes s j) \<and> voted_for (cl_nodes s j) = Some c)
   \<and> (\<forall>j t c c'. (j, t, c) \<in> cl_votes s \<longrightarrow> (j, t, c') \<in> cl_votes s \<longrightarrow> c = c')
   \<and> (\<forall>p\<in>set ps. node_id (cl_nodes s p) = nid p \<and> peers (cl_nodes s p) = remove1 p ps)"

text \<open>A vote was cast in the term of the election or a later one the candidate has reached.\<close>

definition vote_in :: "(string \<Rightarrow> string) \<Rightarrow> 'a cluster \<Rightarrow> poll \<Rightarrow> string \<Rightarrow> bool" where
  "vote_in nid s q j \<longleftrightarrow> (\<exists>t. pl_term q \<le> t \<and> t \<le> current_term (cl_nodes s (pl_candidate q))
     \<and> (j, t, nid (pl_candidate q)) \<in> cl_votes s)"

definition poll_ok :: "(string \<Rightarrow> string) \<Rightarrow> string list \<Rightarrow> 'a cluster \<Rightarrow> poll \<Rightarrow> bool" where
  "poll_ok nid ps s q \<longleftrightarrow> pl_candidate q \<in> set ps \<and> pl_term q \<le> current_term (cl_nodes s (pl_candidate q))
     \<and> distinct (pl_waiting q @ pl_grants q) \<and> set (pl_waiting q @ pl_grants q) \<subseteq> set ps - {pl_candidate q}
     \<and> (pl_candidate q, pl_term q, nid (pl_candidate q)) \<in> cl_votes s \<and> (\<forall>j\<in>set (pl_grants q). vote_in nid s q j)"

definition asked_ok :: "(string \<Rightarrow> string) \<Rightarrow> string list \<Rightarrow> 'a cluster \<Rightarrow> bool" where
  "asked_ok nid ps s \<longleftrightarrow> (\<forall>k j m. (k, j, m) \<in> set (cl_asked s) \<longrightarrow> k < length (cl_polls s) \<and> j \<in> set ps
     \<and> (let q = cl_polls s ! k in sender_id m = nid (pl_candidate q) \<and> (\<exists>t i. vote_request m t i)
          \<and> pl_term q \<le> msg_term m \<and> msg_term m \<le> current_term (cl_nodes s (pl_candidate q))))"

definition replies_ok :: "(string \<Rightarrow> string) \<Rightarrow> 'a cluster \<Rightarrow> bool" where
  "replies_ok nid s \<longleftrightarrow> (\<forall>k j r. (k, j, r) \<in> set (cl_replies s) \<longrightarrow> vote_granted r \<longrightarrow> k < length (cl_polls s)
     \<and> vote_in nid s (cl_polls s ! k) j)"

definition polls_ok :: "(string \<Rightarrow> string) \<Rightarrow> string list \<Rightarrow> 'a cluster \<Rightarrow> bool" where
  "polls_ok nid ps s \<longleftrightarrow> (\<forall>q\<in>set (cl_polls s). poll_ok nid ps s q) \<and> asked_ok nid ps s \<and> replies_ok nid s"

definition leaders_ok :: "(string \<Rightarrow> string) \<Rightarrow> string list \<Rightarrow> 'a cluster \<Rightarrow> bool" where
  "leaders_ok nid ps s \<longleftrightarrow> (\<forall>p\<in>set ps. raft_state (cl_nodes s p) = LEADER
     \<longrightarrow> elected nid ps (cl_votes s) p (current_term (cl_nodes s p)))"

lemma set_node_simps [simp]:
  "cl_nodes (set_node p n s) = (cl_nodes s)(p := n)" "cl_data (set_node p n s) = cl_data s"
  "cl_polls (set_node p n s) = cl_polls s" "cl_asked (set_node p n s) = cl_asked s" "cl_replies (set_node p n s) = cl_replies s"
  by (simp_all add: set_node_def)

lemma set_node_votes: "cl_votes s \<subseteq> cl_votes (set_node p n s)"
  "voted_for n = Some c \<Longrightarrow> (p, current_term n, c) \<in> cl_votes (set_node p n s)"
  "v \<in> cl_votes (set_node p n s) \<Longrightarrow> v \<in> cl_votes s \<or> (\<exists>c. v = (p, current_term n, c) \<and> voted_for n = Some c)"
  by (auto simp: set_node_def split: option.splits)

text \<open>A node that moves on along \<open>raft_le\<close> keeps the votes consistent.\<close>

lemma votes_ok_put:
  assumes "votes_ok nid ps s" and "raft_le (cl_nodes s p) n"
  shows "votes_ok nid ps (set_node p n s)"
proof -
  have past: "t < current_term n \<or> t = current_term n \<and> voted_for n = Some c" if "(p, t, c) \<in> cl_votes s" for t c
    using assms that by (fastforce simp: votes_ok_def raft_le_def)
  have one: "c = c'" if "(p, current_term n, c) \<in> cl_votes s" "voted_for n = Some c'" for c c'
    using past[OF that(1)] that(2) by simp
  show ?thesis
    unfolding votes_ok_def
  proof (intro conjI allI impI ballI)
    fix j t c assume v: "(j, t, c) \<in> cl_votes (set_node p n s)"
    show "t < current_term (cl_nodes (set_node p n s) j) \<or>
        t = current_term (cl_nodes (set_node p n s) j) \<and> voted_for (cl_nodes (set_node p n s) j) = Some c"
    proof (cases "j = p")
      case True
      then show ?thesis using past set_node_votes(3)[OF v] by auto
    next
      case False
      then have "(j, t, c) \<in> cl_votes s" using set_node_votes(3)[OF v] by auto
      then show ?thesis using False assms(1) by (simp add: votes_ok_def)
    qed
  next
    fix j t c c' assume "(j, t, c) \<in> cl_votes (set_node p n s)" "(j, t, c') \<in> cl_votes (set_node p n s)"
    then show "c = c'"
      using one assms(1) by (auto dest!: set_node_votes(3) simp: votes_ok_def)
  next
    fix i assume "i \<in> set ps"
    then show "node_id (cl_nodes (set_node p n s) i) = nid i" "peers (cl_nodes (set_node p n s) i) = remove1 i ps"
      using assms by (auto simp: votes_ok_def raft_le_def)
  qed
qed

lemma leaders_ok_put:
  assumes "leaders_ok nid ps s" and "stays_leader (cl_nodes s p) n"
  shows "leaders_ok nid ps (set_node p n s)"
  unfolding leaders_ok_def
proof (intro ballI impI)
  fix q assume q: "q \<in> set ps" and lead: "raft_state (cl_nodes (set_node p n s) q) = LEADER"
  have "elected nid ps (cl_votes s) q (current_term (cl_nodes (set_node p n s) q))"
    using assms q lead by (cases "q = p") (auto simp: leaders_ok_def stays_leader_def)
  then show "elected nid ps (cl_votes (set_node p n s)) q (current_term (cl_nodes (set_node p n s) q))"
    by (rule elected_mono) (rule set_node_votes(1))
qed

lemma term_put: "raft_le (cl_nodes s p) n \<Longrightarrow> current_term (cl_nodes s i) \<le> current_term (cl_nodes (set_node p n s) i)"
  by (auto simp: raft_le_def)

lemma vote_in_put: "vote_in nid s q j \<Longrightarrow> raft_le (cl_nodes s p) n \<Longrightarrow> vote_in nid (set_node p n s) q j"
  using term_put[of s p n "pl_candidate q"] set_node_votes(1)[of s p n] unfolding vote_in_def by fastforce

lemma poll_ok_put: "poll_ok nid ps s q \<Longrightarrow> raft_le (cl_nodes s p) n \<Longrightarrow> poll_ok nid ps (set_node p n s) q"
  using term_put[of s p n "pl_candidate q"] set_node_votes(1)[of s p n] vote_in_put[of nid s q _ p n]
  unfolding poll_ok_def by fastforce

lemma polls_ok_put:
  assumes "polls_ok nid ps s" and "raft_le (cl_nodes s p) n"
  shows "polls_ok nid ps (set_node p n s)"
  unfolding polls_ok_def
proof (intro conjI ballI)
  fix q assume "q \<in> set (cl_polls (set_node p n s))"
  then have "poll_ok nid ps s q" using assms(1) by (simp add: polls_ok_def)
  then show "poll_ok nid ps (set_node p n s) q" using assms(2) by (rule poll_ok_put)
next
  show "asked_ok nid ps (set_node p n s)"
    using assms term_put[OF assms(2)] order_trans unfolding polls_ok_def asked_ok_def Let_def set_node_simps(3,4) by blast
next
  show "replies_ok nid (set_node p n s)"
    using assms vote_in_put unfolding polls_ok_def replies_ok_def set_node_simps(3,5) by blast
qed

text \<open>Two nodes elected in one term share a voter.\<close>

lemma elected_unique:
  assumes "elected nid ps votes p t" and "elected nid ps votes p' t"
    and "\<forall>j t c c'. (j, t, c) \<in> votes \<longrightarrow> (j, t, c') \<in> votes \<longrightarrow> c = c'" and "distinct ps"
  shows "nid p = nid p'"
proof -
  obtain V V' where V: "V \<subseteq> set ps" "length ps div 2 < card V" "\<forall>j\<in>V. (j, t, nid p) \<in> votes"
    and V': "V' \<subseteq> set ps" "length ps div 2 < card V'" "\<forall>j\<in>V'. (j, t, nid p') \<in> votes"
    using assms(1,2) by (auto simp: elected_def)
  have fin: "finite V" "finite V'" using V(1) V'(1) finite_subset by blast+
  have "card (V \<union> V') \<le> length ps" using V(1) V'(1) card_mono[of "set ps" "V \<union> V'"] distinct_card[OF assms(4)] by simp
  then have "card (V \<inter> V') > 0" using card_Un_Int[OF fin] V(2) V'(2) by linarith
  then obtain j where "j \<in> V" "j \<in> V'" by (metis Int_iff card_gt_0_iff ex_in_conv)
  then show ?thesis using assms(3) V(3) V'(3) by blast
qed

section \<open>The invariant of the cluster\<close>

definition cluster_ok :: "(string \<Rightarrow> string) \<Rightarrow> string list \<Rightarrow> 'a cluster \<Rightarrow> bool" where
  "cluster_ok nid ps s \<longleftrightarrow> votes_ok nid ps s \<and> polls_ok nid ps s \<and> leaders_ok nid ps s"

lemma set_node_commutes:
  "set_node p n (s\<lparr>cl_polls := x\<rparr>) = (set_node p n s)\<lparr>cl_polls := x\<rparr>"
  "set_node p n (s\<lparr>cl_data := d\<rparr>) = (set_node p n s)\<lparr>cl_data := d\<rparr>"
  "set_node p n (s\<lparr>cl_data := d, cl_replies := y\<rparr>) = (set_node p n s)\<lparr>cl_data := d, cl_replies := y\<rparr>"
  by (simp_all add: set_node_def split: option.split)

text \<open>What an update of the elections, the data, the requests or the answers leaves alone.\<close>

lemma poll_facts_cong:
  assumes "cl_nodes s' = cl_nodes s" and "cl_votes s' = cl_votes s"
  shows "vote_in nid s' q j = vote_in nid s q j" "poll_ok nid ps s' q = poll_ok nid ps s q"
    "votes_ok nid ps s' = votes_ok nid ps s" "leaders_ok nid ps s' = leaders_ok nid ps s"
  using assms by (simp_all add: vote_in_def poll_ok_def votes_ok_def leaders_ok_def)

lemma cluster_ok_cong:
  assumes "cluster_ok nid ps s" and "cl_nodes s' = cl_nodes s" and "cl_votes s' = cl_votes s"
    and "\<forall>q\<in>set (cl_polls s'). poll_ok nid ps s q" and "asked_ok nid ps s'" and "replies_ok nid s'"
  shows "cluster_ok nid ps s'"
  using assms poll_facts_cong[OF assms(2,3)] by (simp add: cluster_ok_def polls_ok_def)

lemma cluster_ok_parts:
  "cluster_ok nid ps s \<Longrightarrow> (\<forall>q\<in>set (cl_polls s). poll_ok nid ps s q) \<and> asked_ok nid ps s \<and> replies_ok nid s"
  by (simp add: cluster_ok_def polls_ok_def)

lemma cluster_ok_data [simp]: "cluster_ok nid ps (s\<lparr>cl_data := d\<rparr>) = cluster_ok nid ps s"
  by (simp add: cluster_ok_def votes_ok_def polls_ok_def poll_ok_def asked_ok_def replies_ok_def vote_in_def leaders_ok_def)

lemma cluster_ok_put:
  "cluster_ok nid ps s \<Longrightarrow> raft_le (cl_nodes s p) n \<Longrightarrow> stays_leader (cl_nodes s p) n
     \<Longrightarrow> cluster_ok nid ps (set_node p n s)"
  by (simp add: cluster_ok_def votes_ok_put polls_ok_put leaders_ok_put)

lemma cluster_ok_put_leader:
  "cluster_ok nid ps s \<Longrightarrow> raft_le (cl_nodes s p) n
     \<Longrightarrow> elected nid ps (cl_votes (set_node p n s)) p (current_term n)
     \<Longrightarrow> cluster_ok nid ps (set_node p n s)"
  unfolding cluster_ok_def leaders_ok_def
  by (auto simp: votes_ok_put polls_ok_put intro: elected_mono[OF _ set_node_votes(1)])

text \<open>An election keeps its candidate and its term, a new one gets a number of its own.\<close>

lemma cluster_ok_polls:
  assumes ok: "cluster_ok nid ps s" and len: "length (cl_polls s) \<le> length qs"
    and same: "\<forall>i<length (cl_polls s). pl_term (qs ! i) = pl_term (cl_polls s ! i)
                 \<and> pl_candidate (qs ! i) = pl_candidate (cl_polls s ! i)"
    and polls: "\<forall>q\<in>set qs. poll_ok nid ps s q"
  shows "cluster_ok nid ps (s\<lparr>cl_polls := qs\<rparr>)"
proof (rule cluster_ok_cong[OF ok])
  let ?s = "s\<lparr>cl_polls := qs\<rparr>"
  have vote: "vote_in nid ?s (qs ! i) j = vote_in nid s (cl_polls s ! i) j" if "i < length (cl_polls s)" for i j
    using same that by (simp add: vote_in_def)
  show "asked_ok nid ps ?s"
    unfolding asked_ok_def
  proof (intro allI impI)
    fix k j m assume "(k, j, m) \<in> set (cl_asked ?s)"
    then have "k < length (cl_polls s) \<and> j \<in> set ps
     \<and> (let q = cl_polls s ! k in sender_id m = nid (pl_candidate q) \<and> (\<exists>t i. vote_request m t i)
          \<and> pl_term q \<le> msg_term m \<and> msg_term m \<le> current_term (cl_nodes s (pl_candidate q)))"
      using cluster_ok_parts[OF ok] unfolding asked_ok_def by simp
    then show "k < length (cl_polls ?s) \<and> j \<in> set ps
     \<and> (let q = cl_polls ?s ! k in sender_id m = nid (pl_candidate q) \<and> (\<exists>t i. vote_request m t i)
          \<and> pl_term q \<le> msg_term m \<and> msg_term m \<le> current_term (cl_nodes ?s (pl_candidate q)))"
      using same len by (simp add: Let_def)
  qed
  show "replies_ok nid ?s"
    unfolding replies_ok_def
  proof (intro allI impI)
    fix k j r assume "(k, j, r) \<in> set (cl_replies ?s)" "vote_granted r"
    then have "k < length (cl_polls s) \<and> vote_in nid s (cl_polls s ! k) j"
      using cluster_ok_parts[OF ok] unfolding replies_ok_def by simp
    then show "k < length (cl_polls ?s) \<and> vote_in nid ?s (cl_polls ?s ! k) j" using vote len by simp
  qed
qed (use polls in simp_all)

lemma cluster_ok_open:
  "cluster_ok nid ps s \<Longrightarrow> poll_ok nid ps s q \<Longrightarrow> cluster_ok nid ps (s\<lparr>cl_polls := cl_polls s @ [q]\<rparr>)"
  by (rule cluster_ok_polls) (auto simp: nth_append dest: cluster_ok_parts)

lemma cluster_ok_poll:
  assumes "cluster_ok nid ps s" and "k < length (cl_polls s)" and "poll_ok nid ps s q"
    and "pl_term q = pl_term (cl_polls s ! k)" "pl_candidate q = pl_candidate (cl_polls s ! k)"
  shows "cluster_ok nid ps (s\<lparr>cl_polls := (cl_polls s)[k := q]\<rparr>)"
  using assms set_update_subset_insert[of "cl_polls s" k q]
  by (intro cluster_ok_polls) (auto simp: nth_list_update dest: cluster_ok_parts)

lemma poll_ok_at: "cluster_ok nid ps s \<Longrightarrow> k < length (cl_polls s) \<Longrightarrow> poll_ok nid ps s (cl_polls s ! k)"
  by (simp add: cluster_ok_def polls_ok_def)

lemma asked_at:
  assumes "cluster_ok nid ps s" and "(k, j, m) \<in> set (cl_asked s)"
  obtains t i where "k < length (cl_polls s)" "j \<in> set ps" "sender_id m = nid (pl_candidate (cl_polls s ! k))"
    "vote_request m t i" "pl_term (cl_polls s ! k) \<le> msg_term m"
    "msg_term m \<le> current_term (cl_nodes s (pl_candidate (cl_polls s ! k)))"
  using cluster_ok_parts[OF assms(1)] assms(2) unfolding asked_ok_def Let_def by blast

lemma cluster_ok_reply:
  assumes "cluster_ok nid ps s" and "k < length (cl_polls s)"
    and "vote_granted r \<Longrightarrow> vote_in nid s (cl_polls s ! k) j"
  shows "cluster_ok nid ps (s\<lparr>cl_data := d, cl_replies := (k, j, r) # cl_replies s\<rparr>)"
  using assms
  by (auto simp: cluster_ok_def votes_ok_def polls_ok_def poll_ok_def asked_ok_def leaders_ok_def replies_ok_def vote_in_def)

lemma init_cluster_ok: "cluster_ok nid ps (init_cluster nid ps data)"
  by (simp add: cluster_ok_def votes_ok_def polls_ok_def asked_ok_def replies_ok_def leaders_ok_def init_cluster_def init_node_def)

section \<open>Every step keeps it\<close>

lemma member_facts:
  "cluster_ok nid ps s \<Longrightarrow> p \<in> set ps \<Longrightarrow> node_id (cl_nodes s p) = nid p \<and> peers (cl_nodes s p) = remove1 p ps"
  by (simp add: cluster_ok_def votes_ok_def)

lemma timeout_ok:
  assumes ok: "cluster_ok nid ps s" and p: "p \<in> set ps" and d: "distinct ps"
  shows "cluster_ok nid ps (set_node p (election_timeout_handler (cl_nodes s p)) s)"
proof (cases "peers (cl_nodes s p) = [] \<and> raft_state (cl_nodes s p) \<noteq> LEADER \<and> \<not> election_in_progress (cl_nodes s p)")
  case False
  then have "stays_leader (cl_nodes s p) (election_timeout_handler (cl_nodes s p))"
    by (auto simp: stays_timeout) (simp_all add: election_timeout_handler_def)
  then show ?thesis by (intro cluster_ok_put ok timeout_le)
next
  case True
  let ?n = "election_timeout_handler (cl_nodes s p)"
  have ps: "ps = [p]" using True member_facts[OF ok p] p by (cases ps) (auto split: if_splits)
  have "voted_for ?n = Some (nid p)"
    using True member_facts[OF ok p] by (simp add: election_timeout_handler_def finish_election_def node_ops)
  then have "elected nid ps (cl_votes (set_node p ?n s)) p (current_term ?n)"
    using set_node_votes(2)[of ?n "nid p" p s] unfolding elected_def ps
    by (intro exI[of _ "{p}"]) simp
  then show ?thesis by (intro cluster_ok_put_leader ok timeout_le)
qed

lemma begin_ok:
  assumes ok: "cluster_ok nid ps s" and p: "p \<in> set ps" and d: "distinct ps"
    and n: "n = start_election_begin (cl_nodes s p)"
  shows "cluster_ok nid ps (set_node p n (s\<lparr>cl_polls := cl_polls s @ [open_poll p n]\<rparr>))"
proof -
  note m = member_facts[OF ok p]
  have n_facts: "node_id n = nid p" "peers n = remove1 p ps" "voted_for n = Some (nid p)"
    using m n by (simp_all add: node_ops)
  have "cluster_ok nid ps (set_node p n s)"
    unfolding n by (intro cluster_ok_put ok begin_le stays_begin)
  moreover have "poll_ok nid ps (set_node p n s) (open_poll p n)"
    using set_node_votes(2)[OF n_facts(3), of p s] n_facts p d
    by (auto simp: poll_ok_def open_poll_def)
  ultimately show ?thesis using cluster_ok_open[of nid ps "set_node p n s"] by (simp add: set_node_commutes)
qed

lemma ask_ok:
  assumes ok: "cluster_ok nid ps s" and k: "k < length (cl_polls s)" and q: "q = cl_polls s ! k"
    and j: "j \<in> set (pl_waiting q)"
  shows "cluster_ok nid ps (s\<lparr>cl_asked := (k, j, request_vote_message now (cl_nodes s (pl_candidate q))) # cl_asked s\<rparr>)"
    (is "cluster_ok nid ps ?s")
proof (rule cluster_ok_cong[OF ok])
  let ?m = "request_vote_message now (cl_nodes s (pl_candidate q))"
  have poll: "poll_ok nid ps s q" using poll_ok_at[OF ok k] q by simp
  have p: "pl_candidate q \<in> set ps" "pl_term q \<le> current_term (cl_nodes s (pl_candidate q))" "j \<in> set ps"
    using poll j by (auto simp: poll_ok_def)
  have m: "sender_id ?m = nid (pl_candidate q)" "msg_term ?m = current_term (cl_nodes s (pl_candidate q))"
    using member_facts[OF ok p(1)] by (simp_all add: request_vote_message_def)
  have "\<exists>t i. vote_request ?m t i" using vote_request_of_candidate by blast
  moreover have "asked_ok nid ps s" using cluster_ok_parts[OF ok] by simp
  ultimately show "asked_ok nid ps ?s" using p m k q by (auto simp: asked_ok_def Let_def)
  show "replies_ok nid ?s" using cluster_ok_parts[OF ok] by (simp add: replies_ok_def vote_in_def)
  show "\<forall>q\<in>set (cl_polls ?s). poll_ok nid ps s q" using cluster_ok_parts[OF ok] by simp
qed simp_all

lemma deliver_ok:
  assumes ok: "cluster_ok nid ps s" and m: "(k, j, m) \<in> set (cl_asked s)"
    and h: "handle_message cbs now m (cl_nodes s j) (cl_data s j) = (Inr r, n, a)"
  shows "cluster_ok nid ps (set_node j n (s\<lparr>cl_data := (cl_data s)(j := a), cl_replies := (k, j, r) # cl_replies s\<rparr>))"
proof -
  obtain t i where k: "k < length (cl_polls s)" and sender: "sender_id m = nid (pl_candidate (cl_polls s ! k))"
    and v: "vote_request m t i" and low: "pl_term (cl_polls s ! k) \<le> msg_term m"
    and high: "msg_term m \<le> current_term (cl_nodes s (pl_candidate (cl_polls s ! k)))"
    using asked_at[OF ok m] by metis
  note le = message_le[OF h]
  have "cluster_ok nid ps (set_node j n s)" by (intro cluster_ok_put ok le stays_message[OF h])
  moreover have "vote_in nid (set_node j n s) (cl_polls s ! k) j" if "vote_granted r"
    using vote_grant_cases(2)[OF h v that] set_node_votes(2)[of n "nid (pl_candidate (cl_polls s ! k))" j s] sender
      low order_trans[OF high term_put[of s j n, OF le]]
    unfolding vote_in_def by metis
  ultimately show ?thesis
    using cluster_ok_reply[of nid ps "set_node j n s" k r j] k by (simp add: set_node_commutes)
qed

lemma count_ok:
  assumes ok: "cluster_ok nid ps s" and k: "k < length (cl_polls s)" and j: "j \<in> set (pl_waiting (cl_polls s ! k))"
    and g: "granted \<Longrightarrow> \<exists>r. (k, j, r) \<in> set (cl_replies s) \<and> vote_granted r"
  shows "cluster_ok nid ps (s\<lparr>cl_polls := (cl_polls s)[k := count_answer j granted (cl_polls s ! k)]\<rparr>)"
proof (rule cluster_ok_poll[OF ok k])
  let ?q = "cl_polls s ! k"
  note q = poll_ok_at[OF ok k]
  have "vote_in nid s ?q j" if granted
    using g[OF that] cluster_ok_parts[OF ok] by (auto simp: replies_ok_def)
  then have "\<forall>i\<in>set (pl_grants (count_answer j granted ?q)). vote_in nid s (count_answer j granted ?q) i"
    using q by (auto simp: poll_ok_def count_answer_def vote_in_def)
  then show "poll_ok nid ps s (count_answer j granted ?q)"
    using q j by (auto simp: poll_ok_def count_answer_def dest: notin_set_remove1)
qed (simp_all add: count_answer_def)

lemma answer_ok:
  assumes ok: "cluster_ok nid ps s" and k: "k < length (cl_polls s)" and q: "q = cl_polls s ! k"
    and j: "j \<in> set (pl_waiting q)" and r: "(k, j, r) \<in> set (cl_replies s)"
    and v: "on_vote_response (Some r) (cl_nodes s (pl_candidate q)) = (granted, n)"
  shows "cluster_ok nid ps (set_node (pl_candidate q) n (s\<lparr>cl_polls := (cl_polls s)[k := count_answer j granted q]\<rparr>))"
proof -
  have "granted \<Longrightarrow> vote_granted r" using v by (simp add: on_vote_response_def vote_granted_def)
  then have "cluster_ok nid ps (s\<lparr>cl_polls := (cl_polls s)[k := count_answer j granted q]\<rparr>)"
    using count_ok[OF ok k, of j granted] j r q by blast
  then show ?thesis
    using vote_response_le[of "cl_nodes s (pl_candidate q)" "Some r"] stays_vote_response[OF v] v
    by (intro cluster_ok_put) simp_all
qed

lemma finish_ok:
  assumes ok: "cluster_ok nid ps s" and k: "k < length (cl_polls s)" and q: "q = cl_polls s ! k"
    and fresh: "current_term (cl_nodes s (pl_candidate q)) = pl_term q"
    and n: "n = finish_election (1 + int (length (pl_grants q))) (cl_nodes s (pl_candidate q))"
  shows "cluster_ok nid ps (set_node (pl_candidate q) n (s\<lparr>cl_polls := (cl_polls s)[k := q\<lparr>pl_open := False\<rparr>]\<rparr>))"
proof -
  let ?p = "pl_candidate q" and ?s = "s\<lparr>cl_polls := (cl_polls s)[k := q\<lparr>pl_open := False\<rparr>]\<rparr>"
  note poll = poll_ok_at[OF ok k, folded q]
  have s: "cluster_ok nid ps ?s"
    using poll q by (intro cluster_ok_poll ok k) (simp_all add: poll_ok_def vote_in_def)
  have le: "raft_le (cl_nodes ?s ?p) n" using n finish_le by simp
  show ?thesis
  proof (cases "raft_state (cl_nodes s ?p) = CANDIDATE
      \<and> quorum_size (cl_nodes s ?p) \<le> 1 + int (length (pl_grants q))")
    case False
    then have "stays_leader (cl_nodes ?s ?p) n"
      using n by (auto simp: finish_election_def stays_leader_def)
    then show ?thesis by (intro cluster_ok_put s le)
  next
    case True
    let ?V = "set (?p # pl_grants q)"
    have p: "?p \<in> set ps" "peers (cl_nodes s ?p) = remove1 ?p ps"
      using poll member_facts[OF ok, of ?p] by (simp_all add: poll_ok_def)
    have "card ?V = 1 + length (pl_grants q)"
      using poll by (subst distinct_card) (auto simp: poll_ok_def)
    moreover have "length ps = Suc (length (remove1 ?p ps))" using length_pos_if_in_set[OF p(1)] p(1) by (simp add: length_remove1)
    then have "(int (length (remove1 ?p ps)) + 1) div 2 = int (length ps div 2)" by (simp add: zdiv_int)
    ultimately have "length ps div 2 < card ?V"
      using True p by (simp add: quorum_size_def)
    moreover have "current_term n = pl_term q" using fresh n by (simp add: finish_election_def node_ops)
    then have "?V \<subseteq> set ps" "\<forall>j\<in>?V. (j, current_term n, nid ?p) \<in> cl_votes s"
      using poll fresh by (auto simp: poll_ok_def vote_in_def dest: antisym)
    ultimately have "elected nid ps (cl_votes s) ?p (current_term n)" unfolding elected_def by blast
    then show ?thesis
      by (intro cluster_ok_put_leader s le) (auto intro: elected_mono simp: set_node_commutes dest: set_node_votes(1)[THEN subsetD])
  qed
qed

lemma cluster_step_ok:
  assumes "cluster_step True A app ps s s'" and ok: "cluster_ok nid ps s" and d: "distinct ps"
  shows "cluster_ok nid ps s'"
  using assms(1)
proof cases
  case (el_timeout p)
  then show ?thesis using timeout_ok[OF ok _ d] by simp
next
  case (el_begin p n)
  then show ?thesis using begin_ok[OF ok _ d] by simp
next
  case (el_ask k q j now)
  then show ?thesis using ask_ok[OF ok] by simp
next
  case (el_request k j m cbs now r n a)
  then show ?thesis using deliver_ok[OF ok] by simp
next
  case (el_answer k q j r granted n)
  then show ?thesis using answer_ok[OF ok] by simp
next
  case (el_silence k q j)
  then show ?thesis using count_ok[OF ok, of k j False] by simp
next
  case (el_finish k q n)
  then show ?thesis using finish_ok[OF ok] by simp
next
  case (el_message p m cbs now r n a)
  then have "cluster_ok nid ps (set_node p n s)"
    by (intro cluster_ok_put ok message_le stays_message)
  then show ?thesis using el_message by (simp add: set_node_commutes)
next
  case (el_response p cbs peer i es r b n a)
  then have "cluster_ok nid ps (set_node p n s)"
    by (intro cluster_ok_put ok response_le stays_response)
  then show ?thesis using el_response by (simp add: set_node_commutes)
next
  case (el_client p c d)
  then show ?thesis
    by (auto intro!: cluster_ok_put ok raft_le_same stays_same simp: append_local_def)
next
  case (el_local p a)
  then show ?thesis using ok by simp
next
  case (el_client_single p cbs send now c d x n a)
  then have "cluster_ok nid ps (set_node p n s)"
    using single_append_le[of cbs send now c d _ _ x "(n, a)"]
    by (intro cluster_ok_put ok stays_append_single) auto
  then show ?thesis using el_client_single by (simp add: set_node_commutes)
qed

lemma cluster_run_ok:
  "cluster_run True app ps s s' \<Longrightarrow> cluster_ok nid ps s \<Longrightarrow> distinct ps \<Longrightarrow> cluster_ok nid ps s'"
  by (induction rule: rtranclp_induct) (auto intro: cluster_step_ok)

section \<open>Concrete elections\<close>

text \<open>A script of steps, run from the initial cluster.\<close>

datatype action = Timeout string | Begin string | Ask nat string | Deliver nat string | Answer nat string | Lose nat string | Finish nat

definition last_sent :: "nat \<Rightarrow> string \<Rightarrow> (nat \<times> string \<times> message) list \<Rightarrow> message option" where
  "last_sent k j ms = map_option (\<lambda>x. snd (snd x)) (find (\<lambda>x. fst x = k \<and> fst (snd x) = j) ms)"

fun act :: "'a callback list \<Rightarrow> bool \<Rightarrow> string list \<Rightarrow> action \<Rightarrow> 'a cluster \<Rightarrow> 'a cluster option" where
  "act cbs fresh ps (Timeout p) s = (if p \<in> set ps then Some (set_node p (election_timeout_handler (cl_nodes s p)) s) else None)"
| "act cbs fresh ps (Begin p) s =
     (if p \<in> set ps \<and> raft_state (cl_nodes s p) \<noteq> LEADER \<and> \<not> election_in_progress (cl_nodes s p)
      then (let n = start_election_begin (cl_nodes s p)
            in Some (set_node p n (s\<lparr>cl_polls := cl_polls s @ [open_poll p n]\<rparr>)))
      else None)"
| "act cbs fresh ps (Ask k j) s =
     (if k < length (cl_polls s) \<and> j \<in> set (pl_waiting (cl_polls s ! k))
      then Some (s\<lparr>cl_asked := (k, j, request_vote_message 0 (cl_nodes s (pl_candidate (cl_polls s ! k)))) # cl_asked s\<rparr>)
      else None)"
| "act cbs fresh ps (Deliver k j) s =
     (case last_sent k j (cl_asked s) of None \<Rightarrow> None
      | Some m \<Rightarrow>
          (case handle_message cbs 0 m (cl_nodes s j) (cl_data s j) of
             (Inr r, n, a) \<Rightarrow> Some (set_node j n (s\<lparr>cl_data := (cl_data s)(j := a), cl_replies := (k, j, r) # cl_replies s\<rparr>))
           | (Inl x, _) \<Rightarrow> None))"
| "act cbs fresh ps (Answer k j) s =
     (case last_sent k j (cl_replies s) of None \<Rightarrow> None
      | Some r \<Rightarrow>
          if k < length (cl_polls s) \<and> j \<in> set (pl_waiting (cl_polls s ! k))
          then (let q = cl_polls s ! k; (granted, n) = on_vote_response (Some r) (cl_nodes s (pl_candidate q))
                in Some (set_node (pl_candidate q) n (s\<lparr>cl_polls := (cl_polls s)[k := count_answer j granted q]\<rparr>)))
          else None)"
| "act cbs fresh ps (Lose k j) s =
     (if k < length (cl_polls s) \<and> j \<in> set (pl_waiting (cl_polls s ! k))
      then Some (s\<lparr>cl_polls := (cl_polls s)[k := count_answer j False (cl_polls s ! k)]\<rparr>) else None)"
| "act cbs fresh ps (Finish k) s =
     (if k < length (cl_polls s) \<and> pl_open (cl_polls s ! k) \<and> pl_waiting (cl_polls s ! k) = []
       \<and> (fresh \<longrightarrow> current_term (cl_nodes s (pl_candidate (cl_polls s ! k))) = pl_term (cl_polls s ! k))
      then (let q = cl_polls s ! k; n = finish_election (1 + int (length (pl_grants q))) (cl_nodes s (pl_candidate q))
            in Some (set_node (pl_candidate q) n (s\<lparr>cl_polls := (cl_polls s)[k := q\<lparr>pl_open := False\<rparr>]\<rparr>)))
      else None)"

fun acts :: "'a callback list \<Rightarrow> bool \<Rightarrow> string list \<Rightarrow> action list \<Rightarrow> 'a cluster \<Rightarrow> 'a cluster option" where
  "acts cbs fresh ps [] s = Some s"
| "acts cbs fresh ps (x # xs) s = Option.bind (act cbs fresh ps x s) (acts cbs fresh ps xs)"

lemma find_mem: "find P xs = Some x \<Longrightarrow> P x \<and> x \<in> set xs"
  by (induction xs) (auto split: if_splits)

lemma last_sent_mem: "last_sent k j ms = Some r \<Longrightarrow> (k, j, r) \<in> set ms"
  by (auto simp: last_sent_def dest!: find_mem)

definition plain :: "'a callback list \<Rightarrow> 'a application" where
  "plain cbs = \<lparr>app_callbacks = {cbs}, app_local = (\<lambda>_ _. False)\<rparr>"

lemma act_step: "act cbs fresh ps x s = Some s' \<Longrightarrow> cluster_step fresh A (plain cbs) ps s s'"
proof (cases x)
  case (Deliver k j)
  assume "act cbs fresh ps x s = Some s'"
  then show ?thesis using Deliver
    by (auto split: option.splits prod.splits sum.splits intro!: el_request[where cbs = cbs] dest: last_sent_mem simp: plain_def)
next
  case (Answer k j)
  assume "act cbs fresh ps x s = Some s'"
  then show ?thesis using Answer
    by (auto simp: Let_def split: if_splits prod.splits option.splits intro!: el_answer[OF _ refl] dest: last_sent_mem)
next
  case (Finish k)
  assume "act cbs fresh ps x s = Some s'"
  then show ?thesis using Finish
    by (auto simp: Let_def split: if_splits intro!: el_finish[OF _ refl])
qed (auto simp: Let_def split: if_splits intro: el_timeout el_begin el_ask el_silence)

lemma acts_run: "acts cbs fresh ps xs s = Some s' \<Longrightarrow> cluster_run fresh (plain cbs) ps s s'"
proof (induction cbs fresh ps xs s rule: acts.induct)
  case (2 cbs fresh ps x xs s)
  then obtain s1 where "act cbs fresh ps x s = Some s1" "acts cbs fresh ps xs s1 = Some s'" by (auto simp: bind_eq_Some_conv)
  then show ?case using 2 act_step by (metis converse_rtranclp_into_rtranclp)
qed simp

definition three :: "unit cluster" where
  "three = init_cluster (\<lambda>p. p) [''a'', ''b'', ''c''] (\<lambda>_. ())"

definition one_election :: "action list" where
  "one_election = [Timeout ''a'', Begin ''a'', Ask 0 ''b'', Deliver 0 ''b'', Answer 0 ''b'', Lose 0 ''c'', Finish 0]"

definition overtaken_election :: "action list" where
  "overtaken_election = [Begin ''a'', Ask 0 ''b'', Deliver 0 ''b'', Answer 0 ''b'', Timeout ''c'', Begin ''c'',
     Ask 1 ''a'', Deliver 1 ''a'', Lose 0 ''c'', Timeout ''a'', Finish 0,
     Timeout ''b'', Begin ''b'', Ask 2 ''c'', Deliver 2 ''c'', Answer 2 ''c'', Lose 2 ''a'', Finish 2]"

definition standing :: "'a cluster \<Rightarrow> (node_state \<times> int) list" where
  "standing s = map (\<lambda>p. (raft_state (cl_nodes s p), current_term (cl_nodes s p))) [''a'', ''b'', ''c'']"

lemma one_election_result:
  "map_option standing (acts [] True [''a'', ''b'', ''c''] one_election three) = Some [(LEADER, 2), (FOLLOWER, 2), (FOLLOWER, 0)]"
  unfolding one_election_def three_def by code_simp

text \<open>C2: Election safety: in a cluster where elections, votes, lost answers, append requests and client
  calls of all nodes interleave freely, no term has two leaders, provided an election that was overtaken
  by a higher term does not end in a victory (the code does not check this, see
  \<open>stale_votes_two_leaders\<close>).\<close>

theorem election_safety:
  assumes "cluster_run True app ps (init_cluster nid ps data) s" and "distinct ps" and "inj_on nid (set ps)"
    and "p \<in> set ps" and "raft_state (cl_nodes s p) = LEADER"
    and "q \<in> set ps" and "raft_state (cl_nodes s q) = LEADER"
    and "current_term (cl_nodes s p) = current_term (cl_nodes s q)"
  shows "p = q"
proof -
  have ok: "cluster_ok nid ps s" by (rule cluster_run_ok[OF assms(1) init_cluster_ok assms(2)])
  then have "elected nid ps (cl_votes s) p (current_term (cl_nodes s p))"
    "elected nid ps (cl_votes s) q (current_term (cl_nodes s p))"
    using assms(4-7) by (simp_all add: cluster_ok_def leaders_ok_def assms(8)[symmetric])
      (simp add: assms(8))
  moreover have "\<forall>j t c c'. (j, t, c) \<in> cl_votes s \<longrightarrow> (j, t, c') \<in> cl_votes s \<longrightarrow> c = c'"
    using ok by (simp add: cluster_ok_def votes_ok_def)
  ultimately have "nid p = nid q" using assms(2) by (rule elected_unique)
  then show ?thesis by (rule inj_onD[OF assms(3) _ assms(4,6)])
qed

theorem election_safety_witness:
  "\<exists>s. raft_state (cl_nodes s ''a'') = LEADER \<and> current_term (cl_nodes s ''a'') = 2
     \<and> (\<forall>q\<in>{''a'', ''b'', ''c''}. raft_state (cl_nodes s q) = LEADER
          \<longrightarrow> current_term (cl_nodes s q) = 2 \<longrightarrow> ''a'' = q)
     \<and> cluster_run True (plain []) [''a'', ''b'', ''c''] (init_cluster (\<lambda>p. p) [''a'', ''b'', ''c''] (\<lambda>_. ())) s"
proof -
  obtain s where s: "acts [] True [''a'', ''b'', ''c''] one_election three = Some s"
    and st: "standing s = [(LEADER, 2), (FOLLOWER, 2), (FOLLOWER, 0)]"
    using one_election_result by auto
  have run: "cluster_run True (plain []) [''a'', ''b'', ''c''] (init_cluster (\<lambda>p. p) [''a'', ''b'', ''c''] (\<lambda>_. ())) s"
    using acts_run[OF s] by (simp add: three_def)
  have a: "raft_state (cl_nodes s ''a'') = LEADER" "current_term (cl_nodes s ''a'') = 2"
    using st by (simp_all add: standing_def)
  have "''a'' = q" if "q \<in> {''a'', ''b'', ''c''}" "raft_state (cl_nodes s q) = LEADER"
      "current_term (cl_nodes s q) = 2" for q
    by (rule election_safety[OF run]) (use a that in simp_all)
  then show ?thesis using run a by blast
qed

text \<open>
  Without the proviso two nodes lead the same term. Node \<open>a\<close> asks for votes in term 1 and gets the one
  of \<open>b\<close>; while the request to \<open>c\<close> hangs (\<open>request_timeout\<close> is longer than an election timeout), \<open>a\<close> follows
  the higher term of \<open>c\<close>, times out and is a candidate of term 3 when the votes of term 1 are counted.
  It becomes leader of term 3 with no vote of that term but its own, and \<open>b\<close> is elected in term 3.
\<close>

lemma overtaken_election_result:
  "map_option standing (acts [] False [''a'', ''b'', ''c''] overtaken_election three)
     = Some [(LEADER, 3), (LEADER, 3), (FOLLOWER, 3)]"
  unfolding overtaken_election_def three_def by code_simp

theorem stale_votes_two_leaders:
  "\<exists>s. cluster_run False (plain []) [''a'', ''b'', ''c''] (init_cluster (\<lambda>p. p) [''a'', ''b'', ''c''] (\<lambda>_. ())) s
     \<and> raft_state (cl_nodes s ''a'') = LEADER \<and> raft_state (cl_nodes s ''b'') = LEADER
     \<and> current_term (cl_nodes s ''a'') = current_term (cl_nodes s ''b'')"
proof -
  obtain s where s: "acts [] False [''a'', ''b'', ''c''] overtaken_election three = Some s"
    and st: "standing s = [(LEADER, 3), (LEADER, 3), (FOLLOWER, 3)]"
    using overtaken_election_result by auto
  show ?thesis using acts_run[OF s] st by (auto simp: three_def standing_def)
qed

end
