(* ===== verification/Raft_Safety.thy ===== *)
theory Raft_Safety
  imports Raft_Election
begin

text \<open>
  The logs of a cluster: append requests are now those a node built (\<open>append_entries_request\<close>), they may
  arrive late, repeatedly, out of order or never, and a request may be built by a node that is no
  leader any more (the code builds it in a task of its own). Shown is log matching, and that a committed entry
  need not stay in the log of the node that committed it.
\<close>

section \<open>Steps with genuine append requests\<close>

inductive log_step :: "bool \<Rightarrow> 'a application \<Rightarrow> string list \<Rightarrow> 'a cluster \<times> message set \<Rightarrow> 'a cluster \<times> message set \<Rightarrow> bool"
  for fresh app ps where
  ls_send: "p \<in> set ps \<Longrightarrow> append_entries_request now (cl_nodes s p) q = Inr (prev, es, m)
     \<Longrightarrow> log_step fresh app ps (s, A) (s, insert m A)"
| ls_step: "cluster_step fresh A app ps s s' \<Longrightarrow> log_step fresh app ps (s, A) (s', A)"

abbreviation log_run :: "bool \<Rightarrow> 'a application \<Rightarrow> string list \<Rightarrow> 'a cluster \<times> message set \<Rightarrow> 'a cluster \<times> message set \<Rightarrow> bool" where
  "log_run fresh app ps \<equiv> (log_step fresh app ps)\<^sup>*\<^sup>*"

lemma cluster_step_weaken: "cluster_step fresh A app ps s s' \<Longrightarrow> A \<subseteq> B \<Longrightarrow> cluster_step fresh B app ps s s'"
  by (induction rule: cluster_step.induct) (auto intro: cluster_step.intros)

section \<open>The request of a log\<close>

text \<open>The fields of a request built from the log \<open>L\<close> at next index \<open>k\<close>, which may be past its end.\<close>

definition request_of :: "log_entry list \<Rightarrow> message \<Rightarrow> bool" where
  "request_of L m \<longleftrightarrow> message_type m = APPEND_ENTRIES
     \<and> (\<exists>k. get_int (msg_data m) ''prev_log_index'' 0 = Inr (int k - 1)
        \<and> get_int (msg_data m) ''prev_log_term'' 0
            = Inr (if 0 < k \<and> k \<le> length L then le_term (L ! (k - 1)) else 0)
        \<and> get_entries (msg_data m) = Inr (drop k L))"

lemma request_of_build:
  assumes "append_entries_request now n p = Inr (prev, es, m)" and "raft_wf n" and "map_of (next_index n) p = Some ni"
  shows "request_of (raft_log n) m"
proof -
  have "peers_indexed n (next_index n)" using assms(2) by (simp add: raft_wf_def)
  then have ni: "0 \<le> ni" using peers_indexed_lookup assms(3) by blast
  then obtain k where k: "ni = int k" using nonneg_int_cases by blast
  have "k - 1 < length (raft_log n) \<longleftrightarrow> k \<le> length (raft_log n)" if "0 < k" using that by linarith
  then show ?thesis
    using assms(1,3) unfolding request_of_def
    by (intro conjI exI[of _ k]) (auto simp: k append_entries_request_def Let_def get_int_def get_entries_def py_drop_nonneg nat_diff_distrib)
qed

text \<open>A follower whose log matches the log a request was built from keeps its own log or takes over
  that one: the merge has no third result.\<close>

lemma merge_suffix_either:
  "(\<And>i. i < length ls \<Longrightarrow> i < length es \<Longrightarrow> le_term (ls ! i) = le_term (es ! i) \<Longrightarrow> ls ! i = es ! i)
     \<Longrightarrow> merge_suffix ls es = ls \<or> merge_suffix ls es = es"
proof (induction ls es rule: merge_suffix.induct)
  case (3 l ls e es)
  show ?case
  proof (cases "le_term l = le_term e")
    case True
    have "l = e" using "3.prems"[of 0] True by simp
    moreover have "merge_suffix ls es = ls \<or> merge_suffix ls es = es"
      using "3.IH" True "3.prems"[of "Suc i" for i] by force
    ultimately show ?thesis using True by auto
  qed simp
qed simp_all

lemma log_matching_refl [simp]: "log_matching a a"
  by (simp add: log_matching_def)

lemma delivery_log:
  assumes "handle_message cbs now m F a = (r, F', a')" and "request_of L m" and "log_matching (raft_log F) L"
  shows "raft_log F' = raft_log F \<or> raft_log F' = L"
proof -
  obtain k where m: "message_type m = APPEND_ENTRIES" "get_int (msg_data m) ''prev_log_index'' 0 = Inr (int k - 1)"
    "get_int (msg_data m) ''prev_log_term'' 0 = Inr (if 0 < k \<and> k \<le> length L then le_term (L ! (k - 1)) else 0)"
    "get_entries (msg_data m) = Inr (drop k L)"
    using assms(2) by (auto simp: request_of_def)
  show ?thesis
  proof (cases rule: message_append_cases[OF assms(1) m(1,2) _ m(3,4)])
    case 3
    let ?F = "raft_log F"
    have F': "raft_log F' = take k ?F @ merge_suffix (drop k ?F) (drop k L)" using 3 by simp
    show ?thesis
    proof (cases "k \<le> length L")
      case False
      then show ?thesis using F' by simp
    next
      case True
      have "k \<le> length ?F" using 3 by linarith
      moreover have "k = 0 \<or> le_term (?F ! (k - 1)) = le_term (L ! (k - 1))"
        using 3 True by (auto simp: nat_diff_distrib split: if_splits)
      ultimately have pre: "take k ?F = take k L"
        using log_matching_entry(2)[OF assms(3), of "k - 1"] True by (cases k) auto
      have "merge_suffix (drop k ?F) (drop k L) = drop k ?F \<or> merge_suffix (drop k ?F) (drop k L) = drop k L"
        by (rule merge_suffix_either) (use log_matching_entry(1)[OF assms(3)] in auto)
      then show ?thesis using F' pre by (metis append_take_drop_id)
    qed
  qed simp_all
qed

section \<open>How one step moves a node\<close>

text \<open>Within one term a node becomes candidate never and leader only as a candidate, and a leader's log only grows.\<close>

definition role_le :: "raft_node \<Rightarrow> raft_node \<Rightarrow> bool" where
  "role_le n n' \<longleftrightarrow> (current_term n' = current_term n \<longrightarrow>
     (raft_state n' = CANDIDATE \<longrightarrow> raft_state n = CANDIDATE)
   \<and> (raft_state n' = LEADER \<longrightarrow> raft_state n \<noteq> FOLLOWER
        \<and> (raft_state n = LEADER \<longrightarrow> (\<exists>es. raft_log n' = raft_log n @ es))))"

definition quiet :: "raft_node \<Rightarrow> raft_node \<Rightarrow> bool" where
  "quiet n n' \<longleftrightarrow> role_le n n' \<and> raft_log n' = raft_log n"

lemma quiet_refl [simp]: "quiet n n"
  by (simp add: quiet_def role_le_def)

lemma quiet_follower: "raft_log n' = raft_log n \<Longrightarrow> raft_state n' = FOLLOWER \<Longrightarrow> quiet n n'"
  by (simp add: quiet_def role_le_def)

lemma quiet_same:
  "raft_log n' = raft_log n \<Longrightarrow> raft_state n' = raft_state n \<Longrightarrow> quiet n n'"
  by (simp add: quiet_def role_le_def)

lemma quiet_begin: "quiet n (start_election_begin n)"
  by (simp add: quiet_def role_le_def node_ops)

lemma quiet_finish: "quiet n (finish_election k n)"
  by (simp add: quiet_def role_le_def finish_election_def node_ops)

lemma quiet_timeout: "quiet n (election_timeout_handler n)"
  by (simp add: quiet_def role_le_def election_timeout_handler_def finish_election_def node_ops)

lemma quiet_step_down: "quiet n (step_down t n)"
  by (simp add: quiet_def role_le_def node_ops)

lemma quiet_vote_response: "on_vote_response r n = (g, n') \<Longrightarrow> quiet n n'"
  by (cases r) (auto simp: on_vote_response_def quiet_step_down)

lemma quiet_response: "on_append_response cbs p i es r n a = (b, n', a') \<Longrightarrow> quiet n n'"
  by (auto simp: on_append_response_def quiet_def role_le_def node_ops dest!: update_commit_keeps
      split: option.splits if_splits prod.splits)

lemma quiet_message:
  assumes "handle_message cbs now m n a = (r, n', a')" and "message_type m \<noteq> APPEND_ENTRIES"
  shows "quiet n n'"
proof -
  let ?n1 = "if msg_term m > current_term n then step_down (msg_term m) n else n"
  have "raft_log n' = raft_log ?n1 \<and> raft_state n' = raft_state ?n1 \<and> current_term n' = current_term ?n1"
    using assms by (auto simp: handle_message_def Let_def handle_request_vote_def reset_election_timer_def
        split: message_type.splits prod.splits if_splits sum.splits)
  then show ?thesis by (cases "msg_term m > current_term n") (simp_all add: quiet_def role_le_def)
qed

lemma follower_message:
  assumes "handle_message cbs now m n a = (r, n', a')" and "message_type m = APPEND_ENTRIES"
  shows "raft_state n' = FOLLOWER"
proof -
  let ?n1 = "if msg_term m > current_term n then step_down (msg_term m) n else n"
  have h: "handle_append_entries cbs now m ?n1 a = (r, n', a')" using assms by (simp add: handle_message_def Let_def)
  have "raft_state (accept_leader l k) = FOLLOWER" for l k by (simp add: node_ops)
  then show ?thesis
    using h unfolding handle_append_entries_def Let_def
    by (auto dest!: accept_entries_keeps split: sum.splits bool.splits option.splits prod.splits)
qed

definition delivered :: "message \<Rightarrow> raft_node \<Rightarrow> raft_node \<Rightarrow> bool" where
  "delivered m n n' \<longleftrightarrow> (\<forall>L. request_of L m \<longrightarrow> log_matching (raft_log n) L
     \<longrightarrow> raft_log n' = raft_log n \<or> raft_log n' = L)"

definition extended :: "raft_node \<Rightarrow> raft_node \<Rightarrow> bool" where
  "extended n n' \<longleftrightarrow> raft_state n = LEADER \<and> raft_state n' = LEADER \<and> current_term n' = current_term n
     \<and> (\<exists>e. le_term e = current_term n \<and> raft_log n' = raft_log n @ [e])"

definition node_move :: "message set \<Rightarrow> raft_node \<Rightarrow> raft_node \<Rightarrow> bool" where
  "node_move A n n' \<longleftrightarrow> raft_le n n' \<and> role_le n n' \<and> (raft_wf n \<longrightarrow> raft_wf n')
     \<and> (raft_log n' = raft_log n \<or> (\<exists>m\<in>A. delivered m n n') \<or> extended n n')"

lemma quiet_move: "quiet n n' \<Longrightarrow> raft_le n n' \<Longrightarrow> (raft_wf n \<Longrightarrow> raft_wf n') \<Longrightarrow> node_move A n n'"
  by (simp add: quiet_def node_move_def)

lemma message_move:
  assumes "handle_message cbs now m n a = (r, n', a')" and "message_type m = APPEND_ENTRIES \<longrightarrow> m \<in> A"
  shows "node_move A n n'"
proof (cases "message_type m = APPEND_ENTRIES")
  case True
  then show ?thesis
    using assms follower_message[OF assms(1) True] message_le[OF assms(1)] message_wf[OF _ assms(1)]
      delivery_log[OF assms(1)]
    by (auto simp: node_move_def role_le_def delivered_def)
next
  case False
  show ?thesis by (intro quiet_move quiet_message[OF assms(1) False] message_le[OF assms(1)] message_wf[OF _ assms(1)])
qed

lemma append_move: "raft_state n = LEADER \<Longrightarrow> node_move A n (append_local c d n)"
  using log_wf[of n] by (auto simp: node_move_def append_local_def extended_def role_le_def new_entry_def intro: raft_le_same)

lemma single_append_shape:
  assumes "append_entry cbs send now c d (n, a) = (x, (n', a'))" and "peers n = []"
  shows "n' = n \<or> raft_state n = LEADER \<and> raft_state n' = LEADER \<and> current_term n' = current_term n
     \<and> raft_log n' = raft_log n @ [new_entry n c d]"
  using assms by (auto simp: append_entry_def append_local_def dest!: apply_frame split: if_splits prod.splits option.splits)

lemma single_append_move:
  assumes "append_entry cbs send now c d (n, a) = (x, (n', a'))" and "peers n = []"
  shows "node_move A n n'"
  using single_append_shape[OF assms] single_append_le[OF assms] single_append_wf[OF _ assms]
  by (auto simp: node_move_def extended_def role_le_def new_entry_def)

section \<open>How one step moves the cluster\<close>

definition cluster_move :: "message set \<Rightarrow> string list \<Rightarrow> 'a cluster \<Rightarrow> 'a cluster \<Rightarrow> bool" where
  "cluster_move A ps s s' \<longleftrightarrow> cl_votes s \<subseteq> cl_votes s' \<and>
     (cl_nodes s' = cl_nodes s \<or> (\<exists>p\<in>set ps. \<exists>n. cl_nodes s' = (cl_nodes s)(p := n) \<and> node_move A (cl_nodes s p) n))"

lemma set_move:
  "p \<in> set ps \<Longrightarrow> node_move A (cl_nodes s p) n \<Longrightarrow> cluster_move A ps s (set_node p n s)"
  using set_node_votes(1) by (auto simp: cluster_move_def)

lemma cluster_move_fields [simp]:
  "cluster_move A ps s (s'\<lparr>cl_polls := x\<rparr>) = cluster_move A ps s s'"
  "cluster_move A ps s (s'\<lparr>cl_data := d\<rparr>) = cluster_move A ps s s'"
  "cluster_move A ps s (s'\<lparr>cl_data := d, cl_replies := y\<rparr>) = cluster_move A ps s s'"
  by (simp_all add: cluster_move_def)

lemma cluster_step_move:
  assumes "cluster_step fresh A app ps s s'" and ok: "cluster_ok nid ps s"
  shows "cluster_move A ps s s'"
  using assms(1)
proof cases
  case (el_timeout p)
  then show ?thesis by (auto intro!: set_move quiet_move quiet_timeout timeout_le timeout_wf)
next
  case (el_begin p n)
  then show ?thesis by (auto simp: set_node_commutes intro!: set_move quiet_move quiet_begin begin_le begin_wf)
next
  case (el_ask k q j now)
  then show ?thesis by (simp add: cluster_move_def)
next
  case (el_request k j m cbs now r n a)
  have "j \<in> set ps" "message_type m \<noteq> APPEND_ENTRIES"
    using asked_at[OF ok el_request(2)] by (metis, metis message_type.distinct(3) vote_request_def)
  then show ?thesis unfolding el_request(1) set_node_commutes cluster_move_fields
    by (intro set_move) (auto intro: message_move[OF el_request(4)])
next
  case (el_answer k q j r granted n)
  have "pl_candidate q \<in> set ps" using poll_ok_at[OF ok el_answer(2)] el_answer(3) by (simp add: poll_ok_def)
  moreover have "node_move A (cl_nodes s (pl_candidate q)) n"
    using vote_response_le[of "cl_nodes s (pl_candidate q)" "Some r"]
      vote_response_wf[of "cl_nodes s (pl_candidate q)" "Some r"] el_answer(6)
    by (intro quiet_move quiet_vote_response[OF el_answer(6)]) simp_all
  ultimately show ?thesis unfolding el_answer(1) set_node_commutes cluster_move_fields by (rule set_move)
next
  case (el_silence k q j)
  then show ?thesis by (simp add: cluster_move_def)
next
  case (el_finish k q n)
  have "pl_candidate q \<in> set ps" using poll_ok_at[OF ok el_finish(2)] el_finish(3) by (simp add: poll_ok_def)
  then show ?thesis unfolding el_finish(1) set_node_commutes cluster_move_fields el_finish(7)
    by (intro set_move quiet_move quiet_finish finish_le finish_wf)
next
  case (el_message p m cbs now r n a)
  then show ?thesis unfolding el_message(1) set_node_commutes cluster_move_fields by (intro set_move message_move)
next
  case (el_response p cbs peer i es r b n a)
  then show ?thesis unfolding el_response(1) set_node_commutes cluster_move_fields
    by (intro set_move el_response(2) quiet_move quiet_response[OF el_response(4)] response_le[OF el_response(4)]
        response_wf[OF _ el_response(4)])
next
  case (el_local p a)
  then show ?thesis by (simp add: cluster_move_def)
next
  case (el_client p c d)
  then show ?thesis by (auto intro!: set_move append_move)
next
  case (el_client_single p cbs send now c d x n a)
  then show ?thesis unfolding el_client_single(1) set_node_commutes cluster_move_fields
    by (intro set_move el_client_single(2) single_append_move[OF el_client_single(5,3)])
qed

section \<open>Log matching\<close>

text \<open>
  \<open>H\<close> collects every log a node has held. An entry is owned by the node elected in its term: that node has
  left the term, or is no candidate in it, and while it leads its log contains the entry.
\<close>

definition owned :: "(string \<Rightarrow> string) \<Rightarrow> string list \<Rightarrow> 'a cluster \<Rightarrow> log_entry list \<Rightarrow> nat \<Rightarrow> bool" where
  "owned nid ps s L i \<longleftrightarrow> (\<exists>p\<in>set ps. let t = le_term (L ! i); n = cl_nodes s p in
     elected nid ps (cl_votes s) p t
     \<and> (t < current_term n \<or> t = current_term n \<and> raft_state n \<noteq> CANDIDATE
          \<and> (raft_state n = LEADER \<longrightarrow> take (Suc i) (raft_log n) = take (Suc i) L)))"

definition log_inv :: "(string \<Rightarrow> string) \<Rightarrow> string list \<Rightarrow> log_entry list set \<Rightarrow> 'a cluster \<Rightarrow> bool" where
  "log_inv nid ps H s \<longleftrightarrow> (\<forall>p\<in>set ps. raft_log (cl_nodes s p) \<in> H) \<and> (\<forall>K\<in>H. \<forall>L\<in>H. log_matching K L)
     \<and> (\<forall>L\<in>H. \<forall>i<length L. owned nid ps s L i)"

lemma node_move_owner:
  assumes "node_move A n0 n" and "i < length L"
    and "t < current_term n0 \<or> t = current_term n0 \<and> raft_state n0 \<noteq> CANDIDATE
          \<and> (raft_state n0 = LEADER \<longrightarrow> take (Suc i) (raft_log n0) = take (Suc i) L)"
  shows "t < current_term n \<or> t = current_term n \<and> raft_state n \<noteq> CANDIDATE
          \<and> (raft_state n = LEADER \<longrightarrow> take (Suc i) (raft_log n) = take (Suc i) L)"
proof -
  have le: "current_term n0 \<le> current_term n" and role: "role_le n0 n"
    using assms(1) by (auto simp: node_move_def raft_le_def)
  consider "t < current_term n0" | "current_term n0 < current_term n" "t = current_term n0"
    | "current_term n = current_term n0" "t = current_term n0" using le assms(3) by fastforce
  then show ?thesis
  proof cases
    case 3
    then have "raft_state n \<noteq> CANDIDATE" using role assms(3) by (simp add: role_le_def)
    moreover have "take (Suc i) (raft_log n) = take (Suc i) L" if l: "raft_state n = LEADER"
    proof -
      have lead: "raft_state n0 = LEADER" using l 3 role assms(3) by (cases "raft_state n0") (auto simp: role_le_def)
      then obtain es where es: "raft_log n = raft_log n0 @ es" using l 3 role by (auto simp: role_le_def)
      have same: "take (Suc i) (raft_log n0) = take (Suc i) L" using lead 3 assms(3) by simp
      then have "i < length (raft_log n0)" using assms(2)
        by (metis Suc_le_eq length_take min.absorb2 min.bounded_iff order_refl)
      then show ?thesis using es same by simp
    qed
    ultimately show ?thesis using 3 by simp
  qed (use le in auto)
qed

lemma owned_move:
  assumes "owned nid ps s L i" and "i < length L" and "cluster_move A ps s s'"
  shows "owned nid ps s' L i"
proof -
  obtain p where p: "p \<in> set ps" "elected nid ps (cl_votes s) p (le_term (L ! i))" and
    o: "le_term (L ! i) < current_term (cl_nodes s p) \<or> le_term (L ! i) = current_term (cl_nodes s p)
        \<and> raft_state (cl_nodes s p) \<noteq> CANDIDATE
        \<and> (raft_state (cl_nodes s p) = LEADER \<longrightarrow> take (Suc i) (raft_log (cl_nodes s p)) = take (Suc i) L)"
    using assms(1) unfolding owned_def Let_def by blast
  have "cl_nodes s' p = cl_nodes s p \<or> node_move A (cl_nodes s p) (cl_nodes s' p)"
    using assms(3) by (auto simp: cluster_move_def)
  then have "le_term (L ! i) < current_term (cl_nodes s' p) \<or> le_term (L ! i) = current_term (cl_nodes s' p)
        \<and> raft_state (cl_nodes s' p) \<noteq> CANDIDATE
        \<and> (raft_state (cl_nodes s' p) = LEADER \<longrightarrow> take (Suc i) (raft_log (cl_nodes s' p)) = take (Suc i) L)"
  proof
    assume "cl_nodes s' p = cl_nodes s p"
    then show ?thesis using o by simp
  next
    assume nm: "node_move A (cl_nodes s p) (cl_nodes s' p)"
    show ?thesis by (rule node_move_owner[OF nm assms(2) o])
  qed
  moreover have "elected nid ps (cl_votes s') p (le_term (L ! i))"
    using assms(3) by (intro elected_mono[OF p(2)]) (simp add: cluster_move_def)
  ultimately show ?thesis using p(1) unfolding owned_def Let_def by (intro bexI[of _ p] conjI)
qed

lemma log_matching_sym: "log_matching a b \<Longrightarrow> log_matching b a"
  by (auto simp: log_matching_def)

lemma log_matching_snoc:
  assumes "log_matching a b" and "length a < length b \<Longrightarrow> le_term (b ! length a) \<noteq> le_term e"
  shows "log_matching (a @ [e]) b"
  unfolding log_matching_def
proof (intro allI impI)
  fix i assume i: "i < min (length (a @ [e])) (length b)" and t: "le_term ((a @ [e]) ! i) = le_term (b ! i)"
  have "i < length a" using i t assms(2) by (cases "i = length a") auto
  then show "take (Suc i) (a @ [e]) = take (Suc i) b"
    using assms(1) i t by (simp add: log_matching_def nth_append)
qed

lemma log_inv_same:
  assumes inv: "log_inv nid ps H s" and m: "cluster_move A ps s s'"
    and "\<forall>p\<in>set ps. raft_log (cl_nodes s' p) \<in> H"
  shows "log_inv nid ps H s'"
  using assms owned_move[OF _ _ m] unfolding log_inv_def by blast

lemma log_inv_append:
  assumes inv: "log_inv nid ps H s" and p: "p \<in> set ps" and m: "cluster_move A ps s s'"
    and n: "cl_nodes s' = (cl_nodes s)(p := n)" and ext: "extended (cl_nodes s p) n"
    and ok: "cluster_ok nid ps s" and d: "distinct ps" "inj_on nid (set ps)"
  shows "log_inv nid ps (insert (raft_log n) H) s'"
proof -
  let ?l = "raft_log (cl_nodes s p)" and ?t = "current_term (cl_nodes s p)"
  obtain e where e: "le_term e = ?t" "raft_log n = ?l @ [e]"
    and lead: "raft_state (cl_nodes s p) = LEADER" "raft_state n = LEADER" "current_term n = ?t"
    using ext by (auto simp: extended_def)
  have el: "elected nid ps (cl_votes s) p ?t" using ok p lead by (simp add: cluster_ok_def leaders_ok_def)
  have new: "le_term (K ! length ?l) \<noteq> ?t" if K: "K \<in> H" "length ?l < length K" for K
  proof
    assume t: "le_term (K ! length ?l) = ?t"
    have "owned nid ps s K (length ?l)" using inv K by (auto simp: log_inv_def)
    then obtain q where q: "q \<in> set ps" "elected nid ps (cl_votes s) q ?t" and
      o: "?t < current_term (cl_nodes s q) \<or> (raft_state (cl_nodes s q) = LEADER
            \<longrightarrow> take (Suc (length ?l)) (raft_log (cl_nodes s q)) = take (Suc (length ?l)) K)"
      unfolding owned_def Let_def t by blast
    have "nid p = nid q" using elected_unique[OF el q(2) _ d(1)] ok by (simp add: cluster_ok_def votes_ok_def)
    then have "q = p" using inj_onD[OF d(2) _ p q(1)] by simp
    then have "take (Suc (length ?l)) ?l = take (Suc (length ?l)) K" using o lead by simp
    then have "length (take (Suc (length ?l)) ?l) = length (take (Suc (length ?l)) K)" by simp
    then show False using K(2) by simp
  qed
  have match: "log_matching (raft_log n) K" if "K \<in> insert (raft_log n) H" for K
  proof (cases "K = raft_log n")
    case False
    then have K: "K \<in> H" using that by simp
    then have "log_matching ?l K" using inv p by (simp add: log_inv_def)
    then show ?thesis unfolding e(2) using new[OF K] e(1) by (intro log_matching_snoc) auto
  qed simp
  have own: "owned nid ps s' (raft_log n) i" if i: "i < length (raft_log n)" for i
  proof (cases "i < length ?l")
    case True
    have "owned nid ps s ?l i" using inv p True by (simp add: log_inv_def)
    from owned_move[OF this True m] show ?thesis using True e(2) by (simp add: owned_def nth_append)
  next
    case False
    then have "raft_log n ! i = e" using i e(2) by (simp add: nth_append)
    moreover have "elected nid ps (cl_votes s') p ?t" using m by (intro elected_mono[OF el]) (simp add: cluster_move_def)
    ultimately show ?thesis using p n lead e(1) by (auto simp: owned_def Let_def intro!: bexI[of _ p])
  qed
  show ?thesis
    unfolding log_inv_def
  proof (intro conjI ballI allI impI)
    fix q assume "q \<in> set ps"
    then show "raft_log (cl_nodes s' q) \<in> insert (raft_log n) H" using inv n by (auto simp: log_inv_def)
  next
    fix K L assume "K \<in> insert (raft_log n) H" "L \<in> insert (raft_log n) H"
    then show "log_matching K L" using match log_matching_sym inv by (auto simp: log_inv_def)
  next
    fix L i assume "L \<in> insert (raft_log n) H" "i < length L"
    then show "owned nid ps s' L i" using own owned_move[OF _ _ m] inv by (auto simp: log_inv_def)
  qed
qed

definition logs_ok :: "(string \<Rightarrow> string) \<Rightarrow> string list \<Rightarrow> 'a cluster \<times> message set \<Rightarrow> bool" where
  "logs_ok nid ps w \<longleftrightarrow> cluster_ok nid ps (fst w) \<and> (\<forall>p\<in>set ps. raft_wf (cl_nodes (fst w) p))
     \<and> (\<exists>H. log_inv nid ps H (fst w) \<and> (\<forall>m\<in>snd w. \<exists>L\<in>H. request_of L m))"

lemma init_logs_ok: "logs_ok nid ps (init_cluster nid ps data, {})"
proof -
  have "log_inv nid ps {[]} (init_cluster nid ps data)"
    by (simp add: log_inv_def init_cluster_def init_node_def)
  moreover have "raft_wf (cl_nodes (init_cluster nid ps data) p)" for p
    by (simp add: init_cluster_def init_node_wf)
  ultimately show ?thesis using init_cluster_ok by (auto simp: logs_ok_def)
qed

lemma cluster_move_logs:
  assumes inv: "log_inv nid ps H s" "\<forall>m\<in>A. \<exists>L\<in>H. request_of L m" and m: "cluster_move A ps s s'"
    and ok: "cluster_ok nid ps s" and d: "distinct ps" "inj_on nid (set ps)"
  shows "\<exists>H'. log_inv nid ps H' s' \<and> H \<subseteq> H'"
proof -
  consider (same) "cl_nodes s' = cl_nodes s"
    | (move) p n where "p \<in> set ps" "cl_nodes s' = (cl_nodes s)(p := n)" "node_move A (cl_nodes s p) n"
    using m by (auto simp: cluster_move_def)
  then show ?thesis
  proof cases
    case same
    then have "log_inv nid ps H s'" using inv by (intro log_inv_same[OF inv(1) m]) (simp add: log_inv_def)
    then show ?thesis by blast
  next
    case move
    show ?thesis
    proof (cases "extended (cl_nodes s p) n")
      case True
      from log_inv_append[OF inv(1) move(1) m move(2) this ok d] show ?thesis by blast
    next
      case False
      have old: "raft_log (cl_nodes s p) \<in> H" using inv(1) move(1) by (simp add: log_inv_def)
      have "raft_log n \<in> H"
        using move(3) False old inv unfolding node_move_def delivered_def log_inv_def by metis
      then have "log_inv nid ps H s'" using inv(1) move(2) by (intro log_inv_same[OF inv(1) m]) (simp add: log_inv_def)
      then show ?thesis by blast
    qed
  qed
qed

lemma log_step_ok:
  assumes "log_step True app ps w w'" and ok: "logs_ok nid ps w" and d: "distinct ps" "inj_on nid (set ps)"
  shows "logs_ok nid ps w'"
  using assms(1)
proof cases
  case (ls_send p now s q prev es m A)
  obtain H where H: "log_inv nid ps H s" "\<forall>m\<in>A. \<exists>L\<in>H. request_of L m"
    using ok ls_send(1) by (auto simp: logs_ok_def)
  obtain ni where "map_of (next_index (cl_nodes s p)) q = Some ni"
    using ls_send(4) by (auto simp: append_entries_request_def split: option.splits)
  then have "request_of (raft_log (cl_nodes s p)) m"
    using request_of_build[OF ls_send(4)] ok ls_send(1,3) by (simp add: logs_ok_def)
  moreover have "raft_log (cl_nodes s p) \<in> H" using H(1) ls_send(3) by (simp add: log_inv_def)
  ultimately show ?thesis using ok H ls_send(1,2) by (auto simp: logs_ok_def)
next
  case (ls_step A s s')
  have c: "cluster_ok nid ps s" "cluster_ok nid ps s'"
    using ok ls_step cluster_step_ok[OF ls_step(3) _ d(1)] by (auto simp: logs_ok_def)
  note m = cluster_step_move[OF ls_step(3) c(1)]
  obtain H where H: "log_inv nid ps H s" "\<forall>m\<in>A. \<exists>L\<in>H. request_of L m"
    using ok ls_step(1) by (auto simp: logs_ok_def)
  obtain H' where "log_inv nid ps H' s'" "H \<subseteq> H'" using cluster_move_logs[OF H m c(1) d] by blast
  moreover have "\<forall>p\<in>set ps. raft_wf (cl_nodes s' p)"
    using m ok ls_step(1) by (auto simp: cluster_move_def node_move_def logs_ok_def)
  ultimately show ?thesis using c(2) H(2) ls_step(2) unfolding logs_ok_def fst_conv snd_conv by (metis fst_conv snd_conv subsetD)
qed

lemma log_run_ok:
  "log_run True app ps w w' \<Longrightarrow> logs_ok nid ps w \<Longrightarrow> distinct ps \<Longrightarrow> inj_on nid (set ps) \<Longrightarrow> logs_ok nid ps w'"
  by (induction rule: rtranclp_induct) (auto intro: log_step_ok)

section \<open>Scripts of a cluster with clients\<close>

datatype log_action = Elect action | Client string string jdict | Replicate string string

text \<open>\<open>Replicate p q\<close>: a request built, delivered and answered without interruption.\<close>

fun lact :: "'a callback list \<Rightarrow> bool \<Rightarrow> string list \<Rightarrow> log_action \<Rightarrow> 'a cluster \<Rightarrow> 'a cluster option" where
  "lact cbs fresh ps (Elect x) s = act cbs fresh ps x s"
| "lact cbs fresh ps (Client p c d) s =
     (if p \<in> set ps \<and> raft_state (cl_nodes s p) = LEADER then Some (set_node p (append_local c d (cl_nodes s p)) s) else None)"
| "lact cbs fresh ps (Replicate p q) s =
     (if p \<in> set ps \<and> q \<in> set ps then
        (case append_entries_request 0 (cl_nodes s p) q of Inl x \<Rightarrow> None
         | Inr (prev, es, m) \<Rightarrow>
            (case handle_message cbs 0 m (cl_nodes s q) (cl_data s q) of
               (Inr r, n, a) \<Rightarrow>
                 (let s1 = set_node q n (s\<lparr>cl_data := (cl_data s)(q := a)\<rparr>) in
                  case on_append_response cbs q prev es (Some r) (cl_nodes s1 p) (cl_data s1 p) of
                    (b, n', a') \<Rightarrow> Some (set_node p n' (s1\<lparr>cl_data := (cl_data s1)(p := a')\<rparr>)))
             | (Inl x, _) \<Rightarrow> None))
      else None)"

fun lacts :: "'a callback list \<Rightarrow> bool \<Rightarrow> string list \<Rightarrow> log_action list \<Rightarrow> 'a cluster \<Rightarrow> 'a cluster option" where
  "lacts cbs fresh ps [] s = Some s"
| "lacts cbs fresh ps (x # xs) s = Option.bind (lact cbs fresh ps x s) (lacts cbs fresh ps xs)"

lemma lact_run:
  assumes "lact cbs fresh ps x s = Some s'"
  shows "\<exists>B. log_run fresh (plain cbs) ps (s, A) (s', B)"
proof (cases x)
  case (Elect y)
  then have "cluster_step fresh A (plain cbs) ps s s'" using assms act_step by fastforce
  then show ?thesis using ls_step by blast
next
  case (Client p c d)
  then have "cluster_step fresh A (plain cbs) ps s s'" using assms by (auto split: if_splits intro: el_client)
  then show ?thesis using ls_step by blast
next
  case (Replicate p q)
  then obtain prev es m r n a b n' a' where pq: "p \<in> set ps" "q \<in> set ps"
    and req: "append_entries_request 0 (cl_nodes s p) q = Inr (prev, es, m)"
    and h: "handle_message cbs 0 m (cl_nodes s q) (cl_data s q) = (Inr r, n, a)"
    and o: "on_append_response cbs q prev es (Some r) (cl_nodes (set_node q n (s\<lparr>cl_data := (cl_data s)(q := a)\<rparr>)) p)
        (cl_data (set_node q n (s\<lparr>cl_data := (cl_data s)(q := a)\<rparr>)) p) = (b, n', a')"
    and s': "s' = set_node p n' ((set_node q n (s\<lparr>cl_data := (cl_data s)(q := a)\<rparr>))\<lparr>cl_data :=
        (cl_data (set_node q n (s\<lparr>cl_data := (cl_data s)(q := a)\<rparr>)))(p := a')\<rparr>)"
    using assms by (auto simp: Let_def simp del: set_node_simps split: if_splits sum.splits prod.splits)
  let ?s1 = "set_node q n (s\<lparr>cl_data := (cl_data s)(q := a)\<rparr>)"
  have "log_step fresh (plain cbs) ps (s, A) (s, insert m A)" using pq(1) req by (rule ls_send)
  moreover have "log_step fresh (plain cbs) ps (s, insert m A) (?s1, insert m A)"
    by (intro ls_step el_message[OF pq(2) _ _ h]) (simp_all add: plain_def)
  moreover have "log_step fresh (plain cbs) ps (?s1, insert m A) (s', insert m A)"
    unfolding s' by (intro ls_step el_response[OF pq(1) _ o]) (simp add: plain_def)
  ultimately show ?thesis by (meson rtranclp.rtrancl_into_rtrancl rtranclp.rtrancl_refl)
qed

lemma lacts_run: "lacts cbs fresh ps xs s = Some s' \<Longrightarrow> \<exists>B. log_run fresh (plain cbs) ps (s, A) (s', B)"
proof (induction cbs fresh ps xs s arbitrary: A rule: lacts.induct)
  case (2 cbs fresh ps x xs s)
  then obtain s1 where s1: "lact cbs fresh ps x s = Some s1" "lacts cbs fresh ps xs s1 = Some s'"
    by (auto simp: bind_eq_Some_conv)
  obtain B where "log_run fresh (plain cbs) ps (s, A) (s1, B)" using lact_run[OF s1(1)] by blast
  moreover obtain C where "log_run fresh (plain cbs) ps (s1, B) (s', C)" using "2.IH"[OF s1(1)] s1(2) by blast
  ultimately show ?case by (meson rtranclp_trans)
qed auto

text \<open>Three nodes whose commit callback records what it is given.\<close>

definition recorder :: "log_entry list callback" where
  "recorder e a = (None, a @ [e])"

definition recording :: "log_entry list cluster" where
  "recording = init_cluster (\<lambda>p. p) [''a'', ''b'', ''c''] (\<lambda>_. [])"

definition commands :: "log_entry list cluster \<Rightarrow> ((int \<times> string) list \<times> string list) list" where
  "commands s = map (\<lambda>p. (map (\<lambda>e. (le_term e, le_command e)) (raft_log (cl_nodes s p)), map le_command (cl_data s p))) [''a'', ''b'', ''c'']"

definition replicated_once :: "log_action list" where
  "replicated_once = map Elect one_election @ [Client ''a'' ''x'' [], Replicate ''a'' ''b'', Client ''a'' ''y'' [], Replicate ''a'' ''c'']"

lemma replicated_once_result:
  "map_option commands (lacts [recorder] True [''a'', ''b'', ''c''] replicated_once recording)
     = Some [([(2, ''x''), (2, ''y'')], [''x'', ''y'']), ([(2, ''x'')], []), ([(2, ''x''), (2, ''y'')], [''x''])]"
  unfolding replicated_once_def recording_def by code_simp

section \<open>Properties\<close>

text \<open>C3: Log matching: whenever the logs of two nodes of a cluster agree on the term of an entry at
  some position, they agree on all entries up to it, in every state reached by elections, votes,
  append requests delivered late, twice, out of order or never, and client calls, provided no
  election that was overtaken by a higher term ends in a victory.\<close>

theorem log_matching_invariant:
  assumes "log_run True app ps (init_cluster nid ps data, {}) (s, A)" and "distinct ps" and "inj_on nid (set ps)"
    and "p \<in> set ps" and "q \<in> set ps" and "i < length (raft_log (cl_nodes s p))" and "i < length (raft_log (cl_nodes s q))"
    and "le_term (raft_log (cl_nodes s p) ! i) = le_term (raft_log (cl_nodes s q) ! i)"
  shows "take (Suc i) (raft_log (cl_nodes s p)) = take (Suc i) (raft_log (cl_nodes s q))"
proof -
  obtain H where "log_inv nid ps H s"
    using log_run_ok[OF assms(1) init_logs_ok assms(2,3)] by (auto simp: logs_ok_def)
  then have "log_matching (raft_log (cl_nodes s p)) (raft_log (cl_nodes s q))"
    using assms(4,5) by (simp add: log_inv_def)
  then show ?thesis using log_matching_entry(2) assms(6-8) by blast
qed

theorem log_matching_invariant_witness:
  "\<exists>s A. log_run True (plain [recorder]) [''a'', ''b'', ''c''] (init_cluster (\<lambda>p. p) [''a'', ''b'', ''c''] (\<lambda>_. []), {}) (s, A)
     \<and> take 2 (raft_log (cl_nodes s ''a'')) = take 2 (raft_log (cl_nodes s ''c''))
     \<and> map le_command (raft_log (cl_nodes s ''c'')) = [''x'', ''y'']"
proof -
  obtain s where s: "lacts [recorder] True [''a'', ''b'', ''c''] replicated_once recording = Some s"
    and c: "commands s = [([(2, ''x''), (2, ''y'')], [''x'', ''y'']), ([(2, ''x'')], []), ([(2, ''x''), (2, ''y'')], [''x''])]"
    using replicated_once_result by auto
  obtain A where run: "log_run True (plain [recorder]) [''a'', ''b'', ''c''] (init_cluster (\<lambda>p. p) [''a'', ''b'', ''c''] (\<lambda>_. []), {}) (s, A)"
    using lacts_run[OF s] unfolding recording_def by blast
  have "length (raft_log (cl_nodes s ''a'')) = 2" "length (raft_log (cl_nodes s ''c'')) = 2"
    "le_term (raft_log (cl_nodes s ''a'') ! 1) = le_term (raft_log (cl_nodes s ''c'') ! 1)"
    "map le_command (raft_log (cl_nodes s ''c'')) = [''x'', ''y'']"
    using c by (auto simp: commands_def map_eq_Cons_conv)
  then show ?thesis using log_matching_invariant[OF run, of "''a''" "''c''" 1] run by (auto simp: numeral_2_eq_2)
qed

text \<open>
  State machine safety fails: node \<open>b\<close>, elected in a later term, replicates \<open>y\<close> to \<open>c\<close>, commits it and
  applies it; then the append request of the old leader \<open>a\<close> is accepted although its term is over, \<open>b\<close>
  overwrites the committed entry, and \<open>a\<close> commits and applies \<open>x\<close> at the same position. No election was
  overtaken and the number of nodes is odd.
\<close>

definition overwritten_commit :: "log_action list" where
  "overwritten_commit = map Elect one_election @ [Client ''a'' ''x'' []]
     @ map Elect [Timeout ''b'', Begin ''b'', Ask 1 ''c'', Deliver 1 ''c'', Answer 1 ''c'', Lose 1 ''a'', Finish 1]
     @ [Client ''b'' ''y'' [], Replicate ''b'' ''c'', Replicate ''a'' ''b'']"

lemma overwritten_commit_result:
  "map_option commands (lacts [recorder] True [''a'', ''b'', ''c''] overwritten_commit recording)
     = Some [([(2, ''x'')], [''x'']), ([(2, ''x'')], [''y'']), ([(4, ''y'')], [])]"
  unfolding overwritten_commit_def recording_def by code_simp

theorem applied_entries_differ:
  "\<exists>s A. log_run True (plain [recorder]) [''a'', ''b'', ''c''] (init_cluster (\<lambda>p. p) [''a'', ''b'', ''c''] (\<lambda>_. []), {}) (s, A)
     \<and> map le_command (cl_data s ''a'') = [''x''] \<and> map le_command (cl_data s ''b'') = [''y'']"
proof -
  obtain s where s: "lacts [recorder] True [''a'', ''b'', ''c''] overwritten_commit recording = Some s"
    and c: "commands s = [([(2, ''x'')], [''x'']), ([(2, ''x'')], [''y'']), ([(4, ''y'')], [])]"
    using overwritten_commit_result by auto
  obtain A where run: "log_run True (plain [recorder]) [''a'', ''b'', ''c''] (init_cluster (\<lambda>p. p) [''a'', ''b'', ''c''] (\<lambda>_. []), {}) (s, A)"
    using lacts_run[OF s] unfolding recording_def by blast
  have "map le_command (cl_data s ''a'') = [''x'']" "map le_command (cl_data s ''b'') = [''y'']"
    using c by (simp_all add: commands_def)
  with run show ?thesis by (intro exI conjI)
qed

text \<open>Without the proviso on elections log matching fails as well: two leaders of one term append.\<close>

lemma overtaken_logs_result:
  "map_option commands (lacts [recorder] False [''a'', ''b'', ''c''] (map Elect overtaken_election @ [Client ''a'' ''x'' [], Client ''b'' ''y'' []]) recording)
     = Some [([(3, ''x'')], []), ([(3, ''y'')], []), ([], [])]"
  unfolding overtaken_election_def recording_def by code_simp

end
