(* ===== verification/Cluster_Services.thy ===== *)
theory Cluster_Services
  imports Raft_Safety App_Services
begin

text \<open>
  A cluster whose nodes run the services: every node has the three services on its Raft node, their
  commit callbacks run at each node's own times, and between any two steps of the cluster a service may
  change its local state (a client registers as a waiter, a consumer is handed messages, the cache is
  read). Shown is what the replicas of the lock table and of the queue have in common.
\<close>

section \<open>The abstract lock table\<close>

text \<open>What a lock says, without the time at which the own node committed it.\<close>

type_synonym claim = "string \<times> string \<times> lock_type \<times> rat"

definition claim_of :: "lock \<Rightarrow> claim" where
  "claim_of l = (lk_resource l, lk_owner l, lk_lock_type l, lk_ttl l)"

definition lock_claims :: "lock_manager \<Rightarrow> string \<rightharpoonup> claim" where
  "lock_claims lm i = map_option claim_of (map_of (locks lm) i)"

definition claim_entry :: "log_entry \<Rightarrow> (string \<rightharpoonup> claim) \<Rightarrow> (string \<rightharpoonup> claim)" where
  "claim_entry e V =
     (if le_command e = ''LOCK_ACQUIRE'' then
        (case decode_lock 0 (le_data e) of Inl x \<Rightarrow> V | Inr l \<Rightarrow> V(lk_lock_id l \<mapsto> claim_of l))
      else if le_command e = ''LOCK_RELEASE'' then
        (case item_str (le_data e) ''lock_id'' of Inl x \<Rightarrow> V | Inr i \<Rightarrow> V(i := None))
      else V)"

lemma decode_lock_time:
  "decode_lock now d = (case decode_lock 0 d of Inl x \<Rightarrow> Inl x | Inr l \<Rightarrow> Inr (l\<lparr>lk_acquired_at := now\<rparr>))"
  by (simp add: decode_lock_def split: sum.split)

text \<open>The commit callback refines the abstract table, also where it raises.\<close>

lemma commit_claims: "lock_claims (snd (lm_handle_commit now e lm)) = claim_entry e (lock_claims lm)"
proof -
  have del: "lock_claims (if dict_has (locks lm) i then lm\<lparr>locks := dict_del (locks lm) i\<rparr> else lm) = (lock_claims lm)(i := None)" for i
    by (auto simp: lock_claims_def delete_conv' dict_has_def fun_eq_iff)
  show ?thesis
    using del by (auto simp: lm_handle_commit_def claim_entry_def decode_lock_time[of now] lock_claims_def claim_of_def
        update_conv' Let_def fun_eq_iff split: sum.split)
qed

section \<open>Replicas\<close>

text \<open>A node's services together with the entries it has been given to apply (a ghost).\<close>

type_synonym replica = "services \<times> log_entry list"

definition replica_callback :: "rat \<Rightarrow> replica callback" where
  "replica_callback now e r = (case run_callbacks (node_callbacks now) e (fst r) of (x, s) \<Rightarrow> (x, (s, snd r @ [e])))"

definition local_change :: "replica \<Rightarrow> replica \<Rightarrow> bool" where
  "local_change r r' \<longleftrightarrow> snd r' = snd r \<and> lock_claims (sv_locks (fst r')) = lock_claims (sv_locks (fst r))
     \<and> queue_view (sv_queue (fst r')) = queue_view (sv_queue (fst r))"

definition service_cluster :: "replica application" where
  "service_cluster = \<lparr>app_callbacks = range (\<lambda>now. [replica_callback now]), app_local = local_change\<rparr>"

definition replica_ok :: "replica \<Rightarrow> bool" where
  "replica_ok r \<longleftrightarrow> lock_claims (sv_locks (fst r)) = fold claim_entry (snd r) Map.empty
     \<and> queue_view (sv_queue (fst r)) = fold spec_entry (snd r) (\<lambda>p. [])"

lemma replica_commit:
  "snd (replica_callback now e r) = (snd (run_callbacks (node_callbacks now) e (fst r)), snd r @ [e])"
  by (simp add: replica_callback_def split: prod.split)

interpretation replicas: commit_listener "replica_callback now" replica_ok for now
  by unfold_locales (simp add: replica_ok_def replica_commit run_node_callbacks commit_claims commit_view)

text \<open>What the services do outside the commit callbacks changes neither view: the segments of \<open>acquire_lock\<close>,
  \<open>consume\<close> and \<open>acknowledge\<close>, the deadlock check, and everything the cache does.\<close>

lemma local_segments:
  "local_change (s, E) (s\<lparr>sv_locks := register_wait res lt client lid (sv_locks s)\<rparr>, E)"
  "local_change (s, E) (s\<lparr>sv_locks := (sv_locks s)\<lparr>lm_wait_graph := remove_edges (lm_wait_graph (sv_locks s)) client\<rparr>\<rparr>, E)"
  "local_change (s, E) (s\<lparr>sv_locks := (sv_locks s)\<lparr>deadlock_events := ds\<rparr>\<rparr>, E)"
  "local_change (s, E) (s\<lparr>sv_queue := snd (consume h topic k (sv_queue s))\<rparr>, E)"
  "local_change (s, E) (s\<lparr>sv_queue := note_ack mid consumer (sv_queue s)\<rparr>, E)"
  "local_change (s, E) (s\<lparr>sv_cache := c\<rparr>, E)"
proof -
  show "local_change (s, E) (s\<lparr>sv_locks := register_wait res lt client lid (sv_locks s)\<rparr>, E)"
    by (simp add: local_change_def lock_claims_def register_wait_def enqueue_waiter_def Let_def fun_eq_iff split: option.split)
  show "local_change (s, E) (s\<lparr>sv_queue := snd (consume h topic k (sv_queue s))\<rparr>, E)"
    using consume_keeps_view[of h topic k "sv_queue s"] by (cases "consume h topic k (sv_queue s)") (simp add: local_change_def)
qed (simp_all add: local_change_def lock_claims_def fun_eq_iff queue_view_def)

section \<open>Replicas agree\<close>

definition replicas_ok :: "replica cluster \<Rightarrow> bool" where
  "replicas_ok s \<longleftrightarrow> (\<forall>p. replica_ok (cl_data s p))"

lemma replicas_ok_fields [simp]:
  "replicas_ok (set_node p n s) = replicas_ok s" "replicas_ok (s\<lparr>cl_polls := x\<rparr>) = replicas_ok s" "replicas_ok (s\<lparr>cl_asked := z\<rparr>) = replicas_ok s"
  by (simp_all add: replicas_ok_def)

lemma replicas_ok_data:
  "replicas_ok s \<Longrightarrow> replica_ok a \<Longrightarrow> replicas_ok (s\<lparr>cl_data := (cl_data s)(p := a)\<rparr>)"
  "replicas_ok s \<Longrightarrow> replica_ok a \<Longrightarrow> replicas_ok (s\<lparr>cl_data := (cl_data s)(p := a), cl_replies := y\<rparr>)"
  by (simp_all add: replicas_ok_def)

lemma replicas_step:
  assumes "cluster_step fresh A service_cluster ps s s'" and "replicas_ok s"
  shows "replicas_ok s'"
proof -
  have at: "replica_ok (cl_data s p)" for p using assms(2) by (simp add: replicas_ok_def)
  show ?thesis
    using assms(1)
  proof cases
    case (el_request k j m cbs now r n a)
    then have "replica_ok a" using replicas.handle_message_inv[OF at] by (cases a) (auto simp: service_cluster_def)
    then show ?thesis using el_request(1) assms(2) by (simp add: replicas_ok_data)
  next
    case (el_message p m cbs now r n a)
    then have "replica_ok a" using replicas.handle_message_inv[OF at] by (cases a) (auto simp: service_cluster_def)
    then show ?thesis using el_message(1) assms(2) by (simp add: replicas_ok_data)
  next
    case (el_response p cbs peer i es r b n a)
    then have "replica_ok a" using replicas.on_append_response_inv[OF at] by (cases a) (auto simp: service_cluster_def)
    then show ?thesis using el_response(1) assms(2) by (simp add: replicas_ok_data)
  next
    case (el_client_single p cbs send now c d x n a)
    then obtain t where "append_entry [replica_callback t] send now c d (cl_nodes s p, cl_data s p) = (x, (n, a))"
      by (auto simp: service_cluster_def)
    then have "replica_ok a" using replicas.append_entry_inv[of "(cl_nodes s p, cl_data s p)" t send now c d] at by simp
    then show ?thesis using el_client_single(1) assms(2) by (simp add: replicas_ok_data)
  next
    case (el_local p a)
    then have "replica_ok a" using at[of p] by (simp add: service_cluster_def local_change_def replica_ok_def)
    then show ?thesis using el_local(1) assms(2) by (simp add: replicas_ok_data)
  qed (use assms(2) in simp_all)
qed

lemma replicas_run:
  "log_run fresh service_cluster ps w w' \<Longrightarrow> replicas_ok (fst w) \<Longrightarrow> replicas_ok (fst w')"
proof (induction rule: rtranclp_induct)
  case (step w1 w2)
  from step(2) show ?case using step(3,4) by cases (auto dest: replicas_step)
qed

lemma prefix_extends:
  assumes "log_matching a b" and "k < length a" and "k < length b" and "le_term (a ! k) = le_term (b ! k)" and "k \<le> m"
  shows "take (Suc m) b = take (Suc k) a @ drop (Suc k) (take (Suc m) b)"
proof -
  have "take (Suc k) a = take (Suc k) b" by (rule log_matching_entry(2)[OF assms(1-4)])
  also have "\<dots> = take (Suc k) (take (Suc m) b)" using assms(5) by (simp add: min_def)
  finally show ?thesis by (metis append_take_drop_id)
qed

text \<open>C6: Replicas agree: in a cluster with interleaved elections, requests, client calls and local changes
  of the services (no overtaken election ending in a victory), take two nodes that have not overwritten an
  entry they applied: what each was given to apply is the applied prefix of its log. If the last entry the
  one has applied has the term of the entry the other, which applied at least as much, holds there, then the
  other has applied the same entries and then \<open>es\<close>, and its lock table (up to the local time a lock was
  acquired) and its queue (up to delivery counts and times) are those of the one after the entries \<open>es\<close>; so with
  equal indices both tables are equal.\<close>

theorem replicas_agree:
  assumes "log_run True service_cluster ps (init_cluster nid ps data, {}) (s, A)" and "distinct ps" and "inj_on nid (set ps)"
    and "\<And>p. replica_ok (data p)" and "p \<in> set ps" and "q \<in> set ps"
    and "cl_data s p = (sp, applied_prefix (cl_nodes s p))" and "cl_data s q = (sq, applied_prefix (cl_nodes s q))"
    and "last_applied (cl_nodes s p) = int k" and "last_applied (cl_nodes s q) = int m" and "k \<le> m"
    and "k < length (raft_log (cl_nodes s p))" and "m < length (raft_log (cl_nodes s q))"
    and "le_term (raft_log (cl_nodes s p) ! k) = le_term (raft_log (cl_nodes s q) ! k)"
  shows "let es = drop (Suc k) (applied_prefix (cl_nodes s q)) in
     applied_prefix (cl_nodes s q) = applied_prefix (cl_nodes s p) @ es
     \<and> lock_claims (sv_locks sq) = fold claim_entry es (lock_claims (sv_locks sp))
     \<and> queue_view (sv_queue sq) = fold spec_entry es (queue_view (sv_queue sp))"
proof -
  let ?lp = "raft_log (cl_nodes s p)" and ?lq = "raft_log (cl_nodes s q)"
  obtain H where "log_inv nid ps H s"
    using log_run_ok[OF assms(1) init_logs_ok assms(2,3)] by (auto simp: logs_ok_def)
  then have "log_matching ?lp ?lq" using assms(5,6) by (simp add: log_inv_def)
  note ext = prefix_extends[OF this assms(12) _ assms(14,11)]
  let ?es = "drop (Suc k) (take (Suc m) ?lq)"
  have "replicas_ok s" using replicas_run[OF assms(1)] assms(4) by (simp add: replicas_ok_def init_cluster_def)
  then have ok: "replica_ok (sp, applied_prefix (cl_nodes s p))" "replica_ok (sq, applied_prefix (cl_nodes s q))"
    using assms(7,8) unfolding replicas_ok_def by metis+
  have "applied_prefix (cl_nodes s p) = take (Suc k) ?lp" "applied_prefix (cl_nodes s q) = take (Suc k) ?lp @ ?es"
    using ext assms(9-11,13) by (simp_all add: applied_prefix_def nat_add_distrib)
  moreover have "length (take (Suc k) ?lp) = Suc k" using assms(12) by simp
  ultimately show ?thesis using ok by (simp add: replica_ok_def)
qed

section \<open>A lock on three nodes\<close>

lemma cluster_step_app:
  "cluster_step fresh A app ps s s' \<Longrightarrow> app_callbacks app \<subseteq> app_callbacks app'
     \<Longrightarrow> (\<And>a b. app_local app a b \<Longrightarrow> app_local app' a b) \<Longrightarrow> cluster_step fresh A app' ps s s'"
  by (induction rule: cluster_step.induct) (blast intro: cluster_step.intros)+

lemma log_run_app:
  assumes "log_run fresh app ps w w'" and "app_callbacks app \<subseteq> app_callbacks app'"
    and "\<And>a b. app_local app a b \<Longrightarrow> app_local app' a b"
  shows "log_run fresh app' ps w w'"
  using assms(1)
proof (induction rule: rtranclp_induct)
  case (step w1 w2)
  from step(2) have "log_step fresh app' ps w1 w2"
    by cases (auto intro: ls_send ls_step cluster_step_app[OF _ assms(2,3)])
  with step(3) show ?case by (rule rtranclp.rtrancl_into_rtrancl)
qed simp

definition small_services :: services where
  "small_services = \<lparr>sv_locks = init_lock_manager,
     sv_queue = \<lparr>dq_node_id = ''n'', dq_ring = \<lparr>hr_nodes = [], virtual_nodes = 0, ring = [], sorted_keys = []\<rparr>, partitions = [], message_acks = [], pending_messages = [], has_redis = False,
       store_tasks = [], replication_factor = 1, persistence_enabled = False\<rparr>,
     sv_cache = init_cache ''n'' 1 1\<rparr>"

lemma small_services_ok: "replica_ok (small_services, [])"
  by (simp add: replica_ok_def small_services_def lock_claims_def init_lock_manager_def queue_view_def partition_of_def fun_eq_iff)

definition small_cluster :: "replica cluster" where
  "small_cluster = init_cluster (\<lambda>p. p) [''a'', ''b'', ''c''] (\<lambda>_. (small_services, []))"

definition replicated_lock :: "log_action list" where
  "replicated_lock = map Elect one_election
     @ [Client ''a'' ''LOCK_ACQUIRE'' (acquire_data ''l'' ''r'' ''o'' LOCK_EXCLUSIVE 1), Replicate ''a'' ''b'', Replicate ''a'' ''c'']"

definition lock_owners :: "replica cluster \<Rightarrow> ((string \<times> string) list \<times> bool \<times> int \<times> int list) list" where
  "lock_owners s = map (\<lambda>p. (map (\<lambda>(i, l). (i, lk_owner l)) (locks (sv_locks (fst (cl_data s p)))),
     snd (cl_data s p) = applied_prefix (cl_nodes s p), last_applied (cl_nodes s p),
     map le_term (raft_log (cl_nodes s p)))) [''a'', ''b'', ''c'']"

lemma replicated_lock_result:
  "map_option lock_owners (lacts [replica_callback 0] True [''a'', ''b'', ''c''] replicated_lock small_cluster)
     = Some [([(''l'', ''o'')], True, 0, [2]), ([], True, -1, [2]), ([(''l'', ''o'')], True, 0, [2])]"
  unfolding replicated_lock_def small_cluster_def by code_simp

theorem replicas_agree_witness:
  "\<exists>s A. log_run True service_cluster [''a'', ''b'', ''c''] (init_cluster (\<lambda>p. p) [''a'', ''b'', ''c''] (\<lambda>_. (small_services, [])), {}) (s, A)
     \<and> lock_claims (sv_locks (fst (cl_data s ''c''))) = lock_claims (sv_locks (fst (cl_data s ''a'')))
     \<and> map (\<lambda>(i, l). lk_owner l) (locks (sv_locks (fst (cl_data s ''c'')))) = [''o'']"
proof -
  obtain s where s: "lacts [replica_callback 0] True [''a'', ''b'', ''c''] replicated_lock small_cluster = Some s"
    and o: "lock_owners s = [([(''l'', ''o'')], True, 0, [2]), ([], True, -1, [2]), ([(''l'', ''o'')], True, 0, [2])]"
    using replicated_lock_result by auto
  obtain A where "log_run True (plain [replica_callback 0]) [''a'', ''b'', ''c''] (small_cluster, {}) (s, A)"
    using lacts_run[OF s] by blast
  then have run: "log_run True service_cluster [''a'', ''b'', ''c'']
      (init_cluster (\<lambda>p. p) [''a'', ''b'', ''c''] (\<lambda>_. (small_services, [])), {}) (s, A)"
    unfolding small_cluster_def by (rule log_run_app) (auto simp: plain_def service_cluster_def)
  have d: "cl_data s ''a'' = (fst (cl_data s ''a''), applied_prefix (cl_nodes s ''a''))"
    "cl_data s ''c'' = (fst (cl_data s ''c''), applied_prefix (cl_nodes s ''c''))"
    "last_applied (cl_nodes s ''a'') = int 0" "last_applied (cl_nodes s ''c'') = int 0"
    "map le_term (raft_log (cl_nodes s ''a'')) = [2]" "map le_term (raft_log (cl_nodes s ''c'')) = [2]"
    using o by (simp_all add: lock_owners_def prod_eq_iff)
  let ?es = "drop (Suc 0) (applied_prefix (cl_nodes s ''c''))"
  have "let es = ?es in applied_prefix (cl_nodes s ''c'') = applied_prefix (cl_nodes s ''a'') @ es
     \<and> lock_claims (sv_locks (fst (cl_data s ''c''))) = fold claim_entry es (lock_claims (sv_locks (fst (cl_data s ''a''))))
     \<and> queue_view (sv_queue (fst (cl_data s ''c''))) = fold spec_entry es (queue_view (sv_queue (fst (cl_data s ''a''))))"
    by (rule replicas_agree[OF run _ _ small_services_ok _ _ d(1,2,3,4)]) (use d(5,6) in \<open>auto simp: map_eq_Cons_conv\<close>)
  moreover have "?es = []" using d(4) by (simp add: applied_prefix_def)
  moreover have "map (\<lambda>(i, l). lk_owner l) (locks (sv_locks (fst (cl_data s ''c'')))) = [''o'']"
    using o by (auto simp: lock_owners_def map_eq_Cons_conv)
  ultimately show ?thesis using run by (intro exI[of _ s] exI[of _ A]) simp
qed

end
