(* ===== verification/Cluster_Replication.thy ===== *)
theory Cluster_Replication
  imports Cluster_Services
begin

text \<open>
  From the leader's commit to the followers' services, and what a leader tells its clients before
  anything is committed.
\<close>

section \<open>One append request brings a follower up to date\<close>

text \<open>What an accepted request does to the commit index and to the services.\<close>

lemma accepted_commit:
  assumes "handle_message cbs now m F a = (Inr r, F', a')" and "success_flag r" and "message_type m = APPEND_ENTRIES"
    and "get_int (msg_data m) ''leader_commit'' 0 = Inr lc"
  shows "\<exists>N. raft_log N = raft_log F' \<and> last_applied N = last_applied F \<and> commit_index N = commit_index F
     \<and> advance_commit cbs lc N a = (None, F', a')"
proof -
  let ?n1 = "if msg_term m > current_term F then step_down (msg_term m) F else F"
  let ?n2 = "accept_leader (sender_id m) ?n1"
  have h: "handle_append_entries cbs now m ?n1 a = (Inr r, F', a')"
    using assms(1,3) by (simp add: handle_message_def Let_def)
  then obtain prev where acc: "accept_entries cbs prev (msg_data m) ?n2 a = (None, F', a')"
    using assms(2) by (auto simp: handle_append_entries_def Let_def split: sum.splits bool.splits prod.splits option.splits)
  then obtain lg where "advance_commit cbs lc (?n2\<lparr>raft_log := lg\<rparr>) a = (None, F', a')"
    using assms(4) by (auto simp: accept_entries_def split: sum.splits prod.splits option.splits)
  moreover have "raft_log F' = lg"
    using calculation by (auto simp: advance_commit_def dest: apply_keeps(5) split: if_splits)
  ultimately show ?thesis by (intro exI[of _ "?n2\<lparr>raft_log := lg\<rparr>"]) simp
qed

lemma replica_feed: "feed [replica_callback now] es w = (None, k, w') \<Longrightarrow> snd w' = snd w @ es"
proof (induction es arbitrary: w k)
  case (Cons e es)
  obtain x v where c: "replica_callback now e w = (x, v)" by (rule prod.exhaust)
  then have v: "snd v = snd w @ [e]" using replica_commit[of now e w] by simp
  show ?case using Cons.prems Cons.IH[of v] v c by (auto split: prod.splits option.splits)
qed simp

lemma replica_apply:
  assumes "apply_committed_entries [replica_callback now] n w = (None, n', w')" and "-1 \<le> last_applied n"
    and "last_applied n \<le> commit_index n" and "commit_index n < int (length (raft_log n))"
  shows "snd w' = snd w @ pending_entries n" "last_applied n' = commit_index n"
proof -
  obtain k where f: "feed [replica_callback now] (pending_entries n) w = (None, k, w')"
    and n': "n' = n\<lparr>last_applied := last_applied n + int k\<rparr>"
    using assms(1) apply_feed[OF assms(2,4), of "[replica_callback now]" w] by (auto split: prod.splits)
  show "snd w' = snd w @ pending_entries n" by (rule replica_feed[OF f])
  show "last_applied n' = commit_index n" using feed_complete[OF f] length_pending[OF assms(2,3,4)] n' by simp
qed

lemma take_pending:
  assumes "-1 \<le> last_applied n" and "last_applied n \<le> commit_index n"
  shows "take (nat (last_applied n + 1)) (raft_log n) @ pending_entries n = take (nat (commit_index n + 1)) (raft_log n)"
proof -
  have "nat (commit_index n + 1) = nat (last_applied n + 1) + nat (commit_index n - last_applied n)"
    using assms by linarith
  then show ?thesis by (simp add: pending_entries_def take_add)
qed

text \<open>C16: Replication of a commit: take a leader that has applied everything it committed and a follower whose log
  matches the leader's (no two logs agree on the term of an entry and differ before it), that has applied
  a prefix of the leader's log and committed no more than the leader. When the follower accepts an
  append request of the leader, its lock table (up to local times) and its queue (up to delivery counts and times) are
  afterwards those of the leader, whatever both have done locally.\<close>

theorem heartbeat_replicates:
  assumes "append_entries_request t L p = Inr (prev, es, m)" and "map_of (next_index L) p = Some ni"
    and "0 \<le> ni" and "ni \<le> int (length (raft_log L))" and "log_matching (raft_log F) (raft_log L)"
    and "handle_message [replica_callback now] now' m F (sf, applied_prefix F) = (Inr r, F', (sf', E'))" and "success_flag r"
    and "replica_ok (sl, applied_prefix L)" and "last_applied L = int k" and "commit_index L = int k" and "k < length (raft_log L)"
    and "replica_ok (sf, applied_prefix F)" and "-1 \<le> last_applied F" and "last_applied F = commit_index F" and "commit_index F \<le> int k"
    and "applied_prefix F = take (nat (last_applied F + 1)) (raft_log L)"
  shows "lock_claims (sv_locks sf') = lock_claims (sv_locks sl) \<and> queue_view (sv_queue sf') = queue_view (sv_queue sl)
    \<and> last_applied F' = int k"
proof -
  note d = request_data[OF assms(1-4)]
  have copy: "take (length (raft_log L)) (raft_log F') = raft_log L" by (rule accepted_copies[OF assms(1-7)])
  obtain N where N: "raft_log N = raft_log F'" "last_applied N = last_applied F" "commit_index N = commit_index F"
    and adv: "advance_commit [replica_callback now] (int k) N (sf, applied_prefix F) = (None, F', (sf', E'))"
    using accepted_commit[OF assms(6,7) d(3)] d(9) assms(10) by auto
  have len: "k < length (raft_log F')" using copy assms(11)
    by (metis length_take less_le_trans min.cobounded1 min.commute)
  have pre: "take (Suc k) (raft_log F') = take (Suc k) (raft_log L)"
    using arg_cong[OF copy, of "take (Suc k)"] assms(11) by (simp add: min_def)
  have appL: "applied_prefix L = take (Suc k) (raft_log L)" using assms(9) by (simp add: applied_prefix_def nat_add_distrib)
  have "E' = applied_prefix L \<and> last_applied F' = int k"
  proof (cases "int k > commit_index F")
    case False
    then have "last_applied F = int k" using assms(14,15) by simp
    then show ?thesis using False adv N assms(16) appL by (simp add: advance_commit_def nat_add_distrib)
  next
    case True
    let ?M = "N\<lparr>commit_index := int k\<rparr>"
    have "apply_committed_entries [replica_callback now] ?M (sf, applied_prefix F) = (None, F', (sf', E'))"
      using adv True N len by (simp add: advance_commit_def min_def split: if_splits)
    note app = replica_apply[OF this]
    have E: "E' = applied_prefix F @ pending_entries ?M" "last_applied F' = int k"
      using app N len assms(13,14,15) by simp_all
    have "take (nat (last_applied F + 1)) (raft_log F') = applied_prefix F"
      using arg_cong[OF pre, of "take (nat (last_applied F + 1))"] assms(14-16) by (simp add: min_def split: if_splits)
    then have "E' = take (Suc k) (raft_log F')"
      using take_pending[of ?M] E N assms(13-15) by (simp add: nat_add_distrib)
    then show ?thesis using pre appL E(2) by simp
  qed
  moreover have "replica_ok (sf', E')" using replicas.handle_message_inv[OF assms(12,6)] by simp
  ultimately show ?thesis using assms(8) by (simp add: replica_ok_def)
qed

definition lock_entry :: log_entry where
  "lock_entry = \<lparr>le_term = 1, le_index = 0, le_command = ''LOCK_ACQUIRE'', le_data = acquire_data ''l'' ''r'' ''o'' LOCK_EXCLUSIVE 1\<rparr>"

definition committed_leader :: raft_node where
  "committed_leader = (init_node ''b'' [''a''])\<lparr>raft_state := LEADER, current_term := 1, voted_for := Some ''b'',
     leader_id := Some ''b'', raft_log := [lock_entry], commit_index := 0, last_applied := 0\<rparr>"

definition holding_services :: services where
  "holding_services = fst (snd (replica_callback 0 lock_entry (small_services, [])))"

lemma holding_ok: "replica_ok (holding_services, [lock_entry])"
  using replicas.cb_inv[OF small_services_ok, of 0 lock_entry] replica_commit[of 0 lock_entry "(small_services, [])"]
  by (simp add: holding_services_def)

lemma holding_claims: "lock_claims (sv_locks holding_services) ''l'' = Some (''r'', ''o'', LOCK_EXCLUSIVE, 1)"
  by code_simp

theorem heartbeat_replicates_witness:
  "\<exists>r F' s' E'. handle_message [replica_callback 0] 0 (snd (snd (projr (append_entries_request 0 committed_leader ''a''))))
       (init_node ''a'' [''b'']) (small_services, []) = (Inr r, F', (s', E'))
     \<and> lock_claims (sv_locks s') ''l'' = Some (''r'', ''o'', LOCK_EXCLUSIVE, 1)"
proof -
  let ?F = "init_node ''a'' [''b'']" and ?L = committed_leader
  obtain prev es m where req: "append_entries_request 0 ?L ''a'' = Inr (prev, es, m)"
    by (simp add: append_entries_request_def committed_leader_def init_node_def per_peer_def Let_def)
  have nxt: "map_of (next_index ?L) ''a'' = Some 0" by (simp add: committed_leader_def init_node_def per_peer_def)
  have match: "log_matching (raft_log ?F) (raft_log ?L)" by (simp add: init_node_def log_matching_def)
  have "(case handle_message [replica_callback 0] 0 (snd (snd (projr (append_entries_request 0 ?L ''a'')))) ?F (small_services, []) of
      (Inr r, _) \<Rightarrow> success_flag r | _ \<Rightarrow> False)" by code_simp
  then obtain r F' s' E' where h: "handle_message [replica_callback 0] 0 m ?F (small_services, []) = (Inr r, F', (s', E'))"
    and ok: "success_flag r" using req by (auto split: prod.splits sum.splits)
  have f: "applied_prefix ?F = []" "last_applied ?F = -1" "commit_index ?F = -1" by (simp_all add: init_node_def applied_prefix_def)
  have l: "applied_prefix ?L = [lock_entry]" "last_applied ?L = int 0" "commit_index ?L = int 0" "length (raft_log ?L) = 1"
    by (simp_all add: committed_leader_def applied_prefix_def)
  have "lock_claims (sv_locks s') = lock_claims (sv_locks holding_services)"
    using heartbeat_replicates[OF req nxt _ _ match, of 0 0 small_services r F' s' E' holding_services 0]
      h ok l f holding_ok small_services_ok by simp
  then show ?thesis using h req holding_claims by simp
qed

section \<open>A leader answers before anything is committed\<close>

text \<open>With peers, \<open>append_entry\<close> does not look at what became of its requests.\<close>

lemma silent_response:
  "on_append_response cbs p i es None n a = (b, n', a') \<Longrightarrow>
     a' = a \<and> raft_state n' = raft_state n \<and> peers n' = peers n \<and> commit_index n' = commit_index n"
  by (auto simp: on_append_response_def set_connected_def)

lemma silent_gather:
  "gather_appends cbs (\<lambda>p m. None) reqs n a = (n', a') \<Longrightarrow>
     a' = a \<and> raft_state n' = raft_state n \<and> peers n' = peers n \<and> commit_index n' = commit_index n"
proof (induction reqs arbitrary: n a)
  case (Cons q reqs)
  obtain peer x where q: "q = (peer, x)" by (rule prod.exhaust)
  show ?case
  proof (cases x)
    case (Inl y)
    then show ?thesis using Cons q by simp
  next
    case (Inr y)
    obtain prev es m where y: "y = (prev, es, m)" by (rule prod_cases3)
    obtain b n1 a1 where r: "on_append_response cbs peer prev es None n a = (b, n1, a1)" by (rule prod_cases3)
    have "gather_appends cbs (\<lambda>p m. None) reqs n1 a1 = (n', a')" using Cons.prems q Inr y r by simp
    from Cons.IH[OF this] silent_response[OF r] show ?thesis by simp
  qed
qed simp

lemma silent_append:
  assumes "raft_state n = LEADER" and "peers n \<noteq> []"
  shows "\<exists>n'. append_entry cbs (\<lambda>p m. None) now c d (n, a) = (Inr True, (n', a)) \<and> raft_state n' = LEADER
     \<and> peers n' = peers n \<and> commit_index n' = commit_index n"
proof -
  let ?n = "append_local c d n"
  obtain n' a' where g: "send_append_entries_to_all cbs (\<lambda>p m. None) now ?n a = (n', a')" by fastforce
  then show ?thesis
    using silent_gather[OF g[unfolded send_append_entries_to_all_def]] assms
    by (simp add: append_entry_def append_local_def)
qed

text \<open>Calls one after the other.\<close>

fun in_turn :: "('c \<Rightarrow> 'w \<Rightarrow> 'r \<times> 'w) \<Rightarrow> 'c list \<Rightarrow> 'w \<Rightarrow> 'r list \<times> 'w" where
  "in_turn f [] w = ([], w)"
| "in_turn f (c # cs) w = (let (r, w1) = f c w; (rs, w2) = in_turn f cs w1 in (r # rs, w2))"

lemma isolated_acquire:
  assumes "raft_state n = LEADER" and "peers n \<noteq> []" and "get_locks_for_resource res lm = []"
  shows "\<exists>n'. acquire_lock (lm_append (\<lambda>p m. None) now) env clock start fuel res LOCK_EXCLUSIVE client lid t (n, lm)
      = (Some (Some lid), (n', lm)) \<and> raft_state n' = LEADER \<and> peers n' = peers n \<and> commit_index n' = commit_index n"
proof -
  obtain n' where "append_entry [lm_handle_commit now] (\<lambda>p m. None) now ''LOCK_ACQUIRE'' (acquire_data lid res client LOCK_EXCLUSIVE t) (n, lm)
      = (Inr True, (n', lm))" "raft_state n' = LEADER" "peers n' = peers n" "commit_index n' = commit_index n"
    using silent_append[OF assms(1,2)] by metis
  then show ?thesis using assms(3) by (intro exI[of _ n']) (simp add: acquire_lock_def try_acquire_def)
qed

text \<open>C15: Cut off from every peer, a leader grants an exclusive lock on a resource that is free in its table to every
  client that asks for it, however many ask one after the other: each call returns a lock identifier at
  once, while nothing is committed and the lock table stays as it was.\<close>

theorem isolated_leader_grants:
  assumes "raft_state n = LEADER" and "peers n \<noteq> []" and "get_locks_for_resource res lm = []"
    and "in_turn (\<lambda>(client, lid). acquire_lock (lm_append (\<lambda>p m. None) now) env clock start fuel res LOCK_EXCLUSIVE client lid t)
           requests (n, lm) = (answers, (n', lm'))"
  shows "answers = map (\<lambda>(client, lid). Some (Some lid)) requests \<and> lm' = lm \<and> commit_index n' = commit_index n"
  using assms
proof (induction requests arbitrary: n answers)
  case (Cons q requests)
  obtain client lid where q: "q = (client, lid)" by (rule prod.exhaust)
  obtain n1 where 1: "acquire_lock (lm_append (\<lambda>p m. None) now) env clock start fuel res LOCK_EXCLUSIVE client lid t (n, lm)
      = (Some (Some lid), (n1, lm))" "raft_state n1 = LEADER" "peers n1 = peers n" "commit_index n1 = commit_index n"
    using isolated_acquire[OF Cons.prems(1-3)] by metis
  then show ?case using Cons.IH[OF 1(2) _ Cons.prems(3)] Cons.prems(2,4) q by (auto split: prod.splits)
qed simp

theorem isolated_leader_grants_witness:
  "fst (in_turn (\<lambda>(client, lid). acquire_lock (lm_append (\<lambda>p m. None) 0) (\<lambda>k w. w) (\<lambda>k. 0) 0 1 ''r'' LOCK_EXCLUSIVE client lid 30)
     [(''c1'', ''l1''), (''c2'', ''l2''), (''c3'', ''l3'')] ((init_node ''a'' [''b'', ''c''])\<lparr>raft_state := LEADER\<rparr>, init_lock_manager))
   = [Some (Some ''l1''), Some (Some ''l2''), Some (Some ''l3'')]"
proof -
  let ?n = "(init_node ''a'' [''b'', ''c''])\<lparr>raft_state := LEADER\<rparr>"
  have n: "raft_state ?n = LEADER" "peers ?n \<noteq> []" "get_locks_for_resource ''r'' init_lock_manager = []"
    by (simp_all add: init_node_def get_locks_for_resource_def init_lock_manager_def)
  obtain answers n' lm' where r: "in_turn (\<lambda>(client, lid). acquire_lock (lm_append (\<lambda>p m. None) 0) (\<lambda>k w. w) (\<lambda>k. 0) 0 1 ''r'' LOCK_EXCLUSIVE client lid 30)
     [(''c1'', ''l1''), (''c2'', ''l2''), (''c3'', ''l3'')] (?n, init_lock_manager) = (answers, (n', lm'))" by (rule prod_cases3)
  from isolated_leader_grants[OF n r] r show ?thesis by simp
qed

end
