(* ===== verification/Spec2Isabelle.thy ===== *)
theory Spec2Isabelle
  imports Peer_Wire Node_Main Cluster_Replication
begin

text \<open>
  A model of a distributed synchronisation service written in Python (\<^verbatim>\<open>src/src\<close>): nodes that
  replicate a log with Raft and serve locks, queues and a cache over HTTP. File names below are
  relative to \<^verbatim>\<open>src/src\<close>.

  \<^bold>\<open>The program.\<close> A \<open>DistributedNode\<close> (\<^verbatim>\<open>app.py\<close>) owns one \<open>RaftNode\<close> (\<^verbatim>\<open>protocols/raft.py\<close>). The lock manager, the
  queue and the cache (\<^verbatim>\<open>services/\<close>) call its \<open>append_entry\<close> to replicate a command and register a commit
  callback that changes their state when the entry is committed, on every node. HTTP handlers call the
  services; the node's peers post their Raft messages to one of these handlers. Next to these stand the
  bonus features (\<^verbatim>\<open>bonus/features.py\<close>): keys and roles, encryption and an audit log, a PBFT simulator, a
  geo router and a load balancer. The middleware checks a key for the bonus paths only.

  \<^bold>\<open>The theories.\<close>
  \<^item> \<open>Py_Prelude\<close>: exceptions, JSON, dictionaries, Python indexing and slicing, \<open>min\<close>.
  \<^item> \<open>Core_Types\<close>: \<^verbatim>\<open>core/types.py\<close>, every enumeration and dataclass.
  \<^item> \<open>Raft_Node\<close>, \<open>Raft_Replication\<close>: the class \<open>RaftNode\<close>, one function per method; methods with an \<open>await\<close> are
    split at it.
  \<^item> \<open>Raft_Apply\<close>: the apply loop as a feed of log entries, and the contracts \<open>commit_listener\<close> (a commit callback)
    and \<open>raft_client\<close>.
  \<^item> \<open>Raft_Steps\<close>: the node as the step relation \<open>raft_step\<close>, the order \<open>raft_le\<close> and the invariant \<open>raft_wf\<close>.
  \<^item> \<open>Raft_Log\<close>, \<open>Raft_Consensus\<close>, \<open>Raft_Cluster\<close>: the merge loop against a reference, votes, delivery, and a leader with
    its followers; the contract \<open>direct_append\<close>: an append has taken effect when it returns.
  \<^item> \<open>Raft_Serving\<close>: leaders that serve (\<open>serving\<close>): no peers, or a quorum that acknowledges while the other peers are
    silent. They satisfy \<open>direct_append\<close>, so the exact results of the services and the HTTP cycles hold on clusters of
    any size; a follower in step acknowledges, so such a quorum exists.
  \<^item> \<open>Raft_Election\<close>: a cluster whose elections interleave (\<open>cluster_step\<close>), its invariant \<open>cluster_ok\<close>, election safety
    for elections that end in the term in which they began, and two leaders of one term without that proviso.
  \<^item> \<open>Raft_Safety\<close>: the same cluster with the set of all append requests ever built (\<open>log_step\<close>); a request may arrive
    late, twice, out of order or never. Log matching as an invariant of every run, over all logs a node has held,
    and the run in which two nodes apply different entries at one index.
  \<^item> \<open>Wait_Graph\<close>, \<open>Lock_Manager\<close>, \<open>Lock_Props\<close>: \<^verbatim>\<open>services/lock_manager.py\<close>; contract \<open>lock_service\<close>.
  \<^item> \<open>Hash_Ring\<close>, \<open>Hash_Props\<close>, \<open>Queue_Service\<close>, \<open>Queue_Props\<close>: \<^verbatim>\<open>services/queue_service.py\<close>; contracts \<open>queue_host\<close> and
    \<open>direct_queue\<close>; the abstract queue \<open>spec_entry\<close>.
  \<^item> \<open>Cache_Service\<close>, \<open>Cache_Props\<close>, \<open>Cache_Size\<close>: \<^verbatim>\<open>services/cache_service.py\<close>; contracts \<open>cache_host\<close> and \<open>direct_cache\<close>.
  \<^item> \<open>Bonus_Security\<close>, \<open>Bonus_Routing\<close>: \<^verbatim>\<open>bonus/features.py\<close>.
  \<^item> \<open>App_Services\<close>: the services on one node; the contracts above are interpreted on it, so what holds of a
    service alone holds of it inside the node.
  \<^item> \<open>Node_Typing\<close>: the entries the services build, \<open>service_data\<close>, and that nodes with such logs never fail;
    the locale \<open>node_property\<close> carries any property of the Raft node through all service operations.
  \<^item> \<open>App_Http\<close>, \<open>App_Props\<close>, \<open>App_Cycles\<close>: the request handlers of \<^verbatim>\<open>app.py\<close> and what a client sees end to end.
  \<^item> \<open>Node_Config\<close>: \<^verbatim>\<open>core/config.py\<close> and the constructor of the node.
  \<^item> \<open>Cluster_Services\<close>: lock manager, queue and cache as the application of that cluster (\<open>service_cluster\<close>); the abstract
    tables \<open>claim_entry\<close> and \<open>spec_entry\<close> determine the locks and the queue of a node from the entries it has applied.
  \<^item> \<open>Cluster_Replication\<close>: how a commit reaches the followers, and a leader nobody answers.
  \<^item> \<open>App_Dispatch\<close>, \<open>App_System\<close>: routing table, middleware and handlers as one function \<open>node_request\<close>, and the running
    node as the step relation \<open>node_step\<close>.
  \<^item> \<open>Peer_Wire\<close>: \<open>_send_message_to_peer\<close> over the HTTP interface of another node.
  \<^item> \<open>Node_Main\<close>: \<open>main\<close> and \<open>create_and_run_node\<close>; a node that is its own peer.

  \<^bold>\<open>What is shown.\<close> For Raft: one vote per term, one leader per term,
  what an accepted append request does to a log, catching up
  in a bounded number of exchanges, delivery of committed entries in order, and the quorum behind a
  commit for an odd number of nodes; log matching in every run of a cluster, agreement of the lock tables and queues of
  two nodes that applied the same entries, and that an accepted append request gives a follower the lock table
  and the queue of its leader. For the services: exact results of every operation, invariants
  along every run, refinement of an abstract queue, termination of a waiting lock request, cycle
  detection and the hash ring against reference definitions. For the node: the services do not
  interfere, typed logs never make a commit fail, end-to-end request cycles, what the middleware
  protects, that a Raft message sent over HTTP acts like a call of
  \<open>handle_message\<close>, and an invariant of every reachable state. The theorems that are not invariants state what the code does,
  also where that is not what its documentation says (an expired block, an eviction, a client
  that waits behind shared locks, a stale leader).

  \<^bold>\<open>Conventions, bounds and fuel.\<close> Integers are \<open>int\<close>, floats are rationals, a string is a list of 8-bit
  characters (its UTF-8 bytes where it is encoded, and then only ASCII white space is stripped), a dictionary is an association list in insertion
  order, an exception is the left side of a sum. Each operation reads the clock once. The only
  fuel is that of \<open>wait_loop\<close>: one unit per turn of a waiting lock request, whose environment is a
  function of the turn; \<open>acquire_lock_terminates\<close> gives the number of turns after which a clock that advances ends the
  wait, and with this much fuel the result is never \<open>None\<close>. All other loops are total functions.

  \<^bold>\<open>Outside the model.\<close> These are arguments: the network (\<open>send\<close>, any answer or none), other tasks
  during a sleep (\<open>env\<close>), the hash function, SHA-256, the JSON text codec, the \<open>datetime\<close> codec, number parsing, the
  clock, random identifiers, the values stored in Redis. What they do is not assumed, except where a
  theorem says so (for the audit chain, that a digest has no white space around it).

  \<^bold>\<open>Restricted inputs.\<close> JSON fields of a Raft message or an entry must have their declared types: the code merges
  the entries before an ill-typed one and converts a term given as a string, a float or a boolean with \<open>int\<close>, the
  model refuses the request. In the other handlers an ill-typed field is answered 500 at once. In \<open>append_entry\<close> of a
  single node with peers the answers of the peers are handled in one step; statements that would be false
  when other requests run meanwhile (mutual exclusion, the size of the cache) are stated for nodes
  without peers, where an append does not suspend.

  \<^bold>\<open>Not modelled.\<close> Sockets, the HTTP server and Redis connections (input and output only); log messages; the
  length of sleeps (a sleep is a point where \<open>env\<close> or another step runs). Two requests that interleave at an \<open>await\<close>
  inside \<open>append_entry\<close> of a node with peers: for one node they appear as an arbitrary answer of \<open>send\<close>, for a
  cluster as steps of \<open>cluster_step\<close> (a client entry, the sending of a request, its delivery and its answer are separate
  steps) and local changes of the services. Loading persisted messages in a running cluster: the program
  never does it. The parsing of JSON text (a body is a JSON value, or an error of the parser). The
  base class of the eviction policies has no code of its own. The benchmark, the test client, the tests and the shell scripts are not part of the service.
\<close>

end
